(* ===== verification/Go_Prelude.thy ===== *)
theory Go_Prelude
  imports Main "HOL-Library.Sublist" "HOL-Library.List_Lexorder" "HOL-Library.Char_ord"
    "HOL-Library.Code_Target_Nat"
begin

section \<open>Prelude: the parts of Go the program is written in\<close>

text \<open>
  What every component theory shares. Go's values and the functions of its standard library the
  sources call are written out once here: errors as values, byte strings and the functions of the
  package \<open>strings\<close>, the runes of a string, decimal numerals, 64-bit integers, \<open>slices.Sort\<close> and
  \<open>slices.Compact\<close>, and maps. Strings are \<^typ>\<open>string\<close>, one \<^typ>\<open>char\<close> per byte; their order is
  the bytewise one of \<open>strings.Compare\<close>.
\<close>

named_theorems go_string \<open>facts on the string functions\<close>
named_theorems go_map \<open>lookup and update on maps\<close>

subsection \<open>Errors\<close>

text \<open>
  An error is its format string with the values it is given, so every message of the sources is
  kept without rendering it. The typed errors the callers tell apart have constructors of their
  own; a function that returns only an \<open>error\<close> returns \<open>go_error option\<close>, with \<open>None\<close> for nil.
\<close>

datatype go_error =
    Errorf string "go_arg list"
  | StateChangedError
  | MappingChangedError string string
  | ContextCanceled
and go_arg = Arg string | Num int | Wrap go_error

type_synonym 'a result = "go_error + 'a"

definition bindE :: "'a result \<Rightarrow> ('a \<Rightarrow> 'b result) \<Rightarrow> 'b result" where
  "bindE m f = (case m of Inl e \<Rightarrow> Inl e | Inr x \<Rightarrow> f x)"

definition failIf :: "go_error option \<Rightarrow> 'a result \<Rightarrow> 'a result" where
  "failIf c k = (case c of Some e \<Rightarrow> Inl e | None \<Rightarrow> k)"

definition is_ok :: "'a result \<Rightarrow> bool" where
  "is_ok r = (case r of Inl _ \<Rightarrow> False | Inr _ \<Rightarrow> True)"

lemma bindE_simps [simp]: "bindE (Inl e) f = Inl e" "bindE (Inr x) f = f x"
  by (simp_all add: bindE_def)

lemma failIf_simps [simp]: "failIf (Some e) k = Inl e" "failIf None k = k"
  by (simp_all add: failIf_def)

lemma is_ok_simps [simp]: "is_ok (Inr x)" "\<not> is_ok (Inl e)"
  by (simp_all add: is_ok_def)

lemma bindE_Inr_iff: "bindE m f = Inr y \<longleftrightarrow> (\<exists>x. m = Inr x \<and> f x = Inr y)"
  by (cases m) auto

lemma failIf_Inr_iff: "failIf c k = Inr y \<longleftrightarrow> c = None \<and> k = Inr y"
  by (cases c) auto

lemmas result_iffs = bindE_Inr_iff failIf_Inr_iff

subsection \<open>Strings\<close>

definition HasPrefix :: "string \<Rightarrow> string \<Rightarrow> bool" where
  "HasPrefix s p = (take (length p) s = p)"

definition HasSuffix :: "string \<Rightarrow> string \<Rightarrow> bool" where
  "HasSuffix s p = (length p \<le> length s \<and> drop (length s - length p) s = p)"

definition TrimPrefix :: "string \<Rightarrow> string \<Rightarrow> string" where
  "TrimPrefix s p = (if HasPrefix s p then drop (length p) s else s)"

definition ContainsAny :: "string \<Rightarrow> string \<Rightarrow> bool" where
  "ContainsAny s chars = list_ex (\<lambda>c. c \<in> set chars) s"

text \<open>\<open>strings.Cut\<close> at a one-byte separator: before, after, found.\<close>

definition Cut :: "string \<Rightarrow> char \<Rightarrow> string \<times> string \<times> bool" where
  "Cut s c = (takeWhile (\<lambda>x. x \<noteq> c) s, tl (dropWhile (\<lambda>x. x \<noteq> c) s), c \<in> set s)"

definition cutBefore :: "string \<Rightarrow> char \<Rightarrow> string" where
  "cutBefore s c = fst (Cut s c)"

text \<open>\<open>strings.Split\<close> at a one-byte separator and \<open>strings.Join\<close>.\<close>

fun Split :: "string \<Rightarrow> char \<Rightarrow> string list" where
  "Split [] c = [[]]"
| "Split (x # xs) c =
     (if x = c then [] # Split xs c
      else (case Split xs c of [] \<Rightarrow> [[x]] | y # ys \<Rightarrow> (x # y) # ys))"

fun Join :: "string list \<Rightarrow> string \<Rightarrow> string" where
  "Join [] sep = []"
| "Join [x] sep = x"
| "Join (x # y # ys) sep = x @ sep @ Join (y # ys) sep"

text \<open>\<open>strings.LastIndexByte\<close>: the last index of a byte, \<open>-1\<close> when there is none.\<close>

definition LastIndexByte :: "string \<Rightarrow> char \<Rightarrow> int" where
  "LastIndexByte s c =
     (if c \<in> set s then int (length s) - 1 - int (length (takeWhile (\<lambda>x. x \<noteq> c) (rev s))) else -1)"

lemma HasPrefix_iff: "HasPrefix s p \<longleftrightarrow> (\<exists>t. s = p @ t)"
  by (auto simp: HasPrefix_def) (metis append_take_drop_id)

lemma HasPrefix_append [simp, go_string]: "HasPrefix (p @ t) p"
  by (simp add: HasPrefix_def)

lemma HasPrefix_refl [simp, go_string]: "HasPrefix s s"
  by (simp add: HasPrefix_def)

lemma HasPrefix_append_cancel [simp, go_string]: "HasPrefix (p @ t) (p @ q) = HasPrefix t q"
  by (auto simp: HasPrefix_iff)

lemma TrimPrefix_append [simp, go_string]: "TrimPrefix (p @ t) p = t"
  by (simp add: TrimPrefix_def)

lemma TrimPrefix_self [simp, go_string]: "TrimPrefix p p = []"
  using TrimPrefix_append [of p "[]"] by simp

lemma Cut_absent [go_string]: "c \<notin> set s \<Longrightarrow> Cut s c = (s, [], False)"
  by (induction s) (auto simp: Cut_def)

lemma Cut_append [go_string]: "c \<notin> set s \<Longrightarrow> Cut (s @ c # t) c = (s, t, True)"
  by (induction s) (auto simp: Cut_def)

lemma sep_inject:
  assumes "(x::char) \<notin> set a" "x \<notin> set a'"
  shows "a @ x # b = a' @ x # b' \<longleftrightarrow> a = a' \<and> b = b'"
proof
  assume "a @ x # b = a' @ x # b'"
  then have "Cut (a @ x # b) x = Cut (a' @ x # b') x" by (rule arg_cong)
  then show "a = a' \<and> b = b'" unfolding Cut_append [OF assms(1)] Cut_append [OF assms(2)] by simp
qed simp

lemma Cut_present: "c \<in> set s \<Longrightarrow> \<exists>a b. s = a @ c # b \<and> c \<notin> set a \<and> Cut s c = (a, b, True)"
  by (metis Cut_append split_list_first)

lemma cutBefore_absent [go_string]: "c \<notin> set s \<Longrightarrow> cutBefore s c = s"
  by (simp add: cutBefore_def Cut_absent)

lemma cutBefore_append [go_string]: "c \<notin> set s \<Longrightarrow> cutBefore (s @ c # t) c = s"
  by (simp add: cutBefore_def Cut_append)

lemma Split_not_Nil [simp]: "Split s c \<noteq> []"
  by (induction s c rule: Split.induct) (auto split: list.splits)

lemma Split_absent [go_string]: "c \<notin> set s \<Longrightarrow> Split s c = [s]"
  by (induction s c rule: Split.induct) auto

lemma Split_append: "Split (s @ c # t) c = Split s c @ Split t c"
  by (induction s c rule: Split.induct) (auto split: list.splits)

lemma Join_Cons: "xs \<noteq> [] \<Longrightarrow> Join (x # xs) sep = x @ sep @ Join xs sep"
  by (cases xs) auto

lemma Join_append: "xs \<noteq> [] \<Longrightarrow> ys \<noteq> [] \<Longrightarrow> Join (xs @ ys) sep = Join xs sep @ sep @ Join ys sep"
proof (induction xs)
  case (Cons x xs)
  then show ?case by (cases "xs = []") (simp_all add: Join_Cons)
qed simp

lemma Join_Split: "Join (Split s c) [c] = s"
proof (induction s c rule: Split.induct)
  case (2 x xs c)
  show ?case
  proof (cases "x = c")
    case True
    with 2 show ?thesis by (simp add: Join_Cons)
  next
    case False
    then obtain y ys where "Split xs c = y # ys"
      by (metis Split_not_Nil list.exhaust)
    with 2 False show ?thesis by (cases ys) auto
  qed
qed simp

lemma Split_inject: "Split a c = Split b c \<longleftrightarrow> a = b"
  by (metis Join_Split)

lemma Split_no_sep: "x \<in> set (Split s c) \<Longrightarrow> c \<notin> set x"
  by (induction s c arbitrary: x rule: Split.induct) (auto split: list.splits if_splits)

lemma Split_Join: "xs \<noteq> [] \<Longrightarrow> \<forall>x \<in> set xs. c \<notin> set x \<Longrightarrow> Split (Join xs [c]) c = xs"
proof (induction xs)
  case (Cons x xs)
  then show ?case by (cases xs) (auto simp: Split_absent Split_append Join_Cons)
qed simp

lemma LastIndexByte_append:
  assumes "c \<notin> set b"
  shows "LastIndexByte (a @ c # b) c = int (length a)"
proof -
  have "takeWhile (\<lambda>x. x \<noteq> c) (rev b @ c # rev a) = rev b"
    using assms by (auto simp: takeWhile_append)
  then show ?thesis by (simp add: LastIndexByte_def)
qed

subsection \<open>Runes\<close>

text \<open>
  \<open>for _, r := range s\<close> decodes UTF-8: a rune and the bytes it is written with. An invalid byte
  is the replacement rune \<open>U+FFFD\<close> of width one.
\<close>

definition contByte :: "nat \<Rightarrow> nat \<Rightarrow> char \<Rightarrow> bool" where
  "contByte lo hi c = (lo \<le> of_char c \<and> of_char c \<le> hi)"

abbreviation badRune :: "nat \<times> nat" where
  "badRune \<equiv> (0xFFFD, 1)"

definition rune2 :: "nat \<Rightarrow> string \<Rightarrow> nat \<times> nat" where
  "rune2 b0 s =
     (case s of
        c1 # _ \<Rightarrow>
          (if contByte 0x80 0xBF c1 then ((b0 - 0xC0) * 64 + (of_char c1 - 0x80), 2) else badRune)
      | _ \<Rightarrow> badRune)"

definition rune3 :: "nat \<Rightarrow> string \<Rightarrow> nat \<times> nat" where
  "rune3 b0 s =
     (case s of
        c1 # c2 # _ \<Rightarrow>
          (if contByte (if b0 = 0xE0 then 0xA0 else 0x80) (if b0 = 0xED then 0x9F else 0xBF) c1
              \<and> contByte 0x80 0xBF c2
           then ((b0 - 0xE0) * 4096 + (of_char c1 - 0x80) * 64 + (of_char c2 - 0x80), 3)
           else badRune)
      | _ \<Rightarrow> badRune)"

definition rune4 :: "nat \<Rightarrow> string \<Rightarrow> nat \<times> nat" where
  "rune4 b0 s =
     (case s of
        c1 # c2 # c3 # _ \<Rightarrow>
          (if contByte (if b0 = 0xF0 then 0x90 else 0x80) (if b0 = 0xF4 then 0x8F else 0xBF) c1
              \<and> contByte 0x80 0xBF c2 \<and> contByte 0x80 0xBF c3
           then ((b0 - 0xF0) * 262144 + (of_char c1 - 0x80) * 4096 + (of_char c2 - 0x80) * 64
                   + (of_char c3 - 0x80), 4)
           else badRune)
      | _ \<Rightarrow> badRune)"

fun DecodeRune :: "string \<Rightarrow> nat \<times> nat" where
  "DecodeRune [] = (0xFFFD, 0)"
| "DecodeRune (c0 # s) =
     (let b0 = of_char c0 in
      if b0 < 0x80 then (b0, 1)
      else if 0xC2 \<le> b0 \<and> b0 \<le> 0xDF then rune2 b0 s
      else if 0xE0 \<le> b0 \<and> b0 \<le> 0xEF then rune3 b0 s
      else if 0xF0 \<le> b0 \<and> b0 \<le> 0xF4 then rune4 b0 s
      else badRune)"

lemmas rune_defs = rune2_def rune3_def rune4_def

lemma rune_width: "0 < snd (rune2 b s)" "0 < snd (rune3 b s)" "0 < snd (rune4 b s)"
  by (simp_all add: rune_defs split: list.split)

lemma DecodeRune_width: "s \<noteq> [] \<Longrightarrow> 0 < snd (DecodeRune s)"
  by (cases s) (simp_all add: Let_def rune_width)

function runes :: "string \<Rightarrow> (nat \<times> string) list" where
  "runes s =
     (if s = [] then []
      else (fst (DecodeRune s), take (snd (DecodeRune s)) s) # runes (drop (snd (DecodeRune s)) s))"
  by pat_completeness auto
termination
proof (relation "measure length", goal_cases)
  case (2 s)
  then show ?case using DecodeRune_width [of s] by (cases s) auto
qed simp

declare runes.simps [simp del]

lemma runes_Nil [simp]: "runes [] = []"
  by (simp add: runes.simps)

definition isASCII :: "char \<Rightarrow> bool" where
  "isASCII c = (of_char c < (0x80 :: nat))"

lemma runes_ASCII_Cons: "isASCII c \<Longrightarrow> runes (c # s) = (of_char c, [c]) # runes s"
  by (subst runes.simps) (simp add: isASCII_def)

lemma rune_append_ASCII:
  assumes "isASCII c"
  shows "rune2 b (s @ c # t) = rune2 b s" "rune3 b (s @ c # t) = rune3 b s"
    "rune4 b (s @ c # t) = rune4 b s"
proof -
  have nc: "0x80 \<le> lo \<Longrightarrow> \<not> contByte lo hi c" for lo hi
    using assms by (auto simp: isASCII_def contByte_def)
  show "rune2 b (s @ c # t) = rune2 b s"
    by (cases s) (simp_all add: rune_defs nc)
  show "rune3 b (s @ c # t) = rune3 b s"
    by (cases s; cases "tl s") (simp_all add: rune_defs nc split: list.split)
  show "rune4 b (s @ c # t) = rune4 b s"
    by (cases s; cases "tl s"; cases "tl (tl s)") (simp_all add: rune_defs nc split: list.split)
qed

lemma rune_length:
  "snd (rune2 b s) \<le> Suc (length s)" "snd (rune3 b s) \<le> Suc (length s)"
  "snd (rune4 b s) \<le> Suc (length s)"
  by (simp_all add: rune_defs split: list.split)

lemma DecodeRune_append_ASCII:
  assumes "isASCII c" and "s \<noteq> []"
  shows "DecodeRune (s @ c # t) = DecodeRune s \<and> snd (DecodeRune s) \<le> length s"
  using assms by (cases s) (simp_all add: Let_def rune_append_ASCII rune_length)

lemma runes_append_ASCII:
  assumes "isASCII c"
  shows "runes (s @ c # t) = runes s @ (of_char c, [c]) # runes t"
proof (induction s rule: runes.induct)
  case (1 s)
  show ?case
  proof (cases "s = []")
    case True
    then show ?thesis by (simp add: runes_ASCII_Cons assms)
  next
    case False
    note d = DecodeRune_append_ASCII [OF assms False, of t]
    let ?w = "snd (DecodeRune s)"
    have "runes (s @ c # t) = (fst (DecodeRune s), take ?w s) # runes (drop ?w s @ c # t)"
      using d False by (subst runes.simps) simp
    also have "\<dots> = (fst (DecodeRune s), take ?w s) # runes (drop ?w s) @ (of_char c, [c]) # runes t"
      using 1 False by simp
    also have "\<dots> = runes s @ (of_char c, [c]) # runes t"
      using False by (subst (2) runes.simps) simp
    finally show ?thesis .
  qed
qed

lemma rune_nonASCII:
  "0xC2 \<le> b \<Longrightarrow> 0x80 \<le> fst (rune2 b s)" "0xE0 \<le> b \<Longrightarrow> 0x80 \<le> fst (rune3 b s)"
  "0xF0 \<le> b \<Longrightarrow> 0x80 \<le> fst (rune4 b s)"
  by (auto simp: rune_defs contByte_def split: list.split)

lemma DecodeRune_nonASCII: "\<not> isASCII c \<Longrightarrow> 0x80 \<le> fst (DecodeRune (c # s))"
  by (simp add: isASCII_def Let_def rune_nonASCII)

lemma runes_all_ASCII:
  assumes "\<And>r. P r \<Longrightarrow> r < 0x80"
  shows "list_all (\<lambda>(r, _). P r) (runes s) \<longleftrightarrow> list_all (\<lambda>c. P (of_char c)) s"
proof (induction s)
  case (Cons c s)
  show ?case
  proof (cases "isASCII c")
    case True
    then show ?thesis by (simp add: runes_ASCII_Cons Cons.IH)
  next
    case False
    then have "\<not> P (fst (DecodeRune (c # s)))" and "\<not> P (of_char c)"
      using DecodeRune_nonASCII [OF False, of s] assms by (fastforce simp: isASCII_def)+
    then show ?thesis by (subst runes.simps) (simp del: DecodeRune.simps)
  qed
qed simp

lemma runes_bytes [simp]: "concat (map snd (runes s)) = s"
proof (induction s rule: runes.induct)
  case (1 s)
  then show ?case by (subst runes.simps) simp
qed

lemma rune_tail_nonASCII:
  "list_all (\<lambda>c. \<not> isASCII c) (take (snd (rune2 b s) - 1) s)"
  "list_all (\<lambda>c. \<not> isASCII c) (take (snd (rune3 b s) - 1) s)"
  "list_all (\<lambda>c. \<not> isASCII c) (take (snd (rune4 b s) - 1) s)"
  by (auto simp: rune_defs contByte_def isASCII_def split: list.split)

lemma DecodeRune_bytes_nonASCII:
  assumes "\<not> isASCII c"
  shows "list_all (\<lambda>c. \<not> isASCII c) (take (snd (DecodeRune (c # s))) (c # s))"
proof -
  have pos: "take w (c # s) = c # take (w - 1) s" if "0 < w" for w
    using that by (cases w) auto
  show ?thesis
    using assms DecodeRune_width [of "c # s"]
    by (auto simp: pos Let_def isASCII_def rune_tail_nonASCII [unfolded isASCII_def One_nat_def] rune_width)
qed

lemma runes_ex_ASCII:
  assumes "\<And>r. P r \<Longrightarrow> r < 0x80"
  shows "list_ex (\<lambda>(r, _). P r) (runes s) \<longleftrightarrow> list_ex (\<lambda>c. P (of_char c)) s"
proof (induction s rule: runes.induct)
  case (1 s)
  show ?case
  proof (cases s)
    case (Cons c t)
    show ?thesis
    proof (cases "isASCII c")
      case True
      then have "DecodeRune s = (of_char c, 1)" using Cons by (simp add: isASCII_def)
      then show ?thesis using 1 Cons True by (simp add: runes_ASCII_Cons)
    next
      case False
      let ?w = "snd (DecodeRune s)"
      have "\<not> P (fst (DecodeRune s))" using DecodeRune_nonASCII [OF False, of t] Cons assms by fastforce
      moreover have "\<not> list_ex (\<lambda>c. P (of_char c)) (take ?w s)"
        using DecodeRune_bytes_nonASCII [OF False, of t] assms Cons
        by (fastforce simp: list_ex_iff list_all_iff isASCII_def)
      moreover have "list_ex (\<lambda>c. P (of_char c)) s = list_ex (\<lambda>c. P (of_char c)) (take ?w s @ drop ?w s)"
        by simp
      ultimately show ?thesis using 1 Cons by (subst runes.simps) (simp del: DecodeRune.simps append_take_drop_id)
    qed
  qed simp
qed

definition IsSpace :: "nat \<Rightarrow> bool" where
  "IsSpace r =
     ((0x09 \<le> r \<and> r \<le> 0x0D) \<or> r = 0x20 \<or> r = 0x85 \<or> r = 0xA0 \<or> r = 0x1680
      \<or> (0x2000 \<le> r \<and> r \<le> 0x200A) \<or> r = 0x2028 \<or> r = 0x2029 \<or> r = 0x202F \<or> r = 0x205F
      \<or> r = 0x3000)"

definition IsControl :: "nat \<Rightarrow> bool" where
  "IsControl r = (r < 0x20 \<or> (0x7F \<le> r \<and> r < 0xA0))"

definition hasSpaceOrControl :: "string \<Rightarrow> bool" where
  "hasSpaceOrControl s = list_ex (\<lambda>(r, _). IsSpace r \<or> IsControl r) (runes s)"

definition TrimSpace :: "string \<Rightarrow> string" where
  "TrimSpace s =
     concat (map snd (rev (dropWhile (\<lambda>(r, _). IsSpace r)
       (rev (dropWhile (\<lambda>(r, _). IsSpace r) (runes s))))))"

lemma hasSpaceOrControl_append_ASCII:
  "isASCII c \<Longrightarrow> hasSpaceOrControl (s @ c # t) \<longleftrightarrow>
     hasSpaceOrControl s \<or> IsSpace (of_char c) \<or> IsControl (of_char c) \<or> hasSpaceOrControl t"
  by (auto simp: hasSpaceOrControl_def runes_append_ASCII)

text \<open>\<open>strings.FieldsFunc\<close> and \<open>strings.Fields\<close>: the non-empty runs between separator runes.\<close>

fun splitRunes :: "(nat \<Rightarrow> bool) \<Rightarrow> (nat \<times> string) list \<Rightarrow> string list" where
  "splitRunes P [] = [[]]"
| "splitRunes P ((r, b) # rs) =
     (if P r then [] # splitRunes P rs
      else (case splitRunes P rs of [] \<Rightarrow> [b] | y # ys \<Rightarrow> (b @ y) # ys))"

definition FieldsFunc :: "(nat \<Rightarrow> bool) \<Rightarrow> string \<Rightarrow> string list" where
  "FieldsFunc P s = filter (\<lambda>f. f \<noteq> []) (splitRunes P (runes s))"

abbreviation Fields :: "string \<Rightarrow> string list" where
  "Fields \<equiv> FieldsFunc IsSpace"

lemma splitRunes_absent:
  "\<not> list_ex (\<lambda>(r, _). P r) rs \<Longrightarrow> splitRunes P rs = [concat (map snd rs)]"
  by (induction P rs rule: splitRunes.induct) auto

lemma splitRunes_not_Nil [simp]: "splitRunes P rs \<noteq> []"
  by (induction P rs rule: splitRunes.induct) (auto split: list.splits)

lemma splitRunes_append: "P r \<Longrightarrow> splitRunes P (rs @ (r, b) # ss) = splitRunes P rs @ splitRunes P ss"
  by (induction P rs rule: splitRunes.induct) (auto split: list.splits)

lemma FieldsFunc_hd:
  assumes "\<And>r. P r \<Longrightarrow> r < 0x80" and "isASCII c" "P (of_char c)" and "s \<noteq> []"
    and "\<not> list_ex (\<lambda>c. P (of_char c)) s"
  shows "\<exists>fs. FieldsFunc P (s @ c # t) = s # fs"
  using assms
  by (simp add: FieldsFunc_def runes_append_ASCII splitRunes_append splitRunes_absent runes_ex_ASCII)

lemma runes_ASCII: "list_all isASCII s \<Longrightarrow> runes s = map (\<lambda>c. (of_char c, [c])) s"
  by (induction s) (auto simp: runes_ASCII_Cons)

lemma TrimSpace_visible:
  assumes "list_all (\<lambda>c. isASCII c \<and> \<not> IsSpace (of_char c)) s"
  shows "TrimSpace s = s"
proof -
  have r: "runes s = map (\<lambda>c. (of_char c, [c])) s"
    using assms by (intro runes_ASCII) (auto simp: list_all_iff)
  have d: "dropWhile (\<lambda>(r, _). IsSpace r) (map (\<lambda>c. (of_char c, [c])) xs) = map (\<lambda>c. (of_char c, [c])) xs"
    if "set xs = set s" for xs
    using assms that by (cases xs) (auto simp: list_all_iff)
  show ?thesis by (simp add: TrimSpace_def r d rev_map comp_def)
qed

subsection \<open>Integers\<close>

text \<open>\<open>int64\<close>, \<open>int\<close> and \<open>time.Duration\<close> wrap at 64 bits.\<close>

definition i64 :: "int \<Rightarrow> int" where
  "i64 x = signed_take_bit 63 x"

abbreviation MaxInt64 :: int where
  "MaxInt64 \<equiv> 9223372036854775807"

lemma i64_id [simp]: "- MaxInt64 - 1 \<le> x \<Longrightarrow> x \<le> MaxInt64 \<Longrightarrow> i64 x = x"
  unfolding i64_def by (rule signed_take_bit_int_eq_self) simp_all

lemma le_div_mult:
  assumes "0 < c" "a \<le> b div c"
  shows "a * c \<le> (b :: int)"
proof -
  have "a * c \<le> b div c * c" using assms by (intro mult_right_mono) auto
  also have "\<dots> \<le> b" using assms(1) by (simp add: minus_mod_eq_div_mult [symmetric])
  finally show ?thesis .
qed

text \<open>Decimal numerals: \<open>%d\<close> and \<open>strconv.Itoa\<close> of a natural number, and reading one back.\<close>

definition digitChar :: "nat \<Rightarrow> char" where
  "digitChar d = char_of (48 + d)"

definition isDigit :: "char \<Rightarrow> bool" where
  "isDigit c = ((48 :: nat) \<le> of_char c \<and> of_char c \<le> (57 :: nat))"

definition digitVal :: "char \<Rightarrow> nat" where
  "digitVal c = of_char c - 48"

fun showNat :: "nat \<Rightarrow> string" where
  "showNat n = (if n < 10 then [digitChar n] else showNat (n div 10) @ [digitChar (n mod 10)])"

declare showNat.simps [simp del]

definition showInt :: "int \<Rightarrow> string" where
  "showInt i = (if i < 0 then CHR ''-'' # showNat (nat (- i)) else showNat (nat i))"

definition digitsVal :: "string \<Rightarrow> nat" where
  "digitsVal s = foldl (\<lambda>n c. 10 * n + digitVal c) 0 s"

definition parseNat :: "string \<Rightarrow> nat option" where
  "parseNat s = (if s \<noteq> [] \<and> list_all isDigit s then Some (digitsVal s) else None)"

lemma digitChar_props [simp]:
  assumes "d < 10"
  shows "isDigit (digitChar d)" "digitVal (digitChar d) = d"
  using assms by (auto simp: isDigit_def digitVal_def digitChar_def of_char_of)

lemma digitsVal_snoc [simp]: "digitsVal (s @ [c]) = 10 * digitsVal s + digitVal c"
  by (simp add: digitsVal_def)

lemma showNat_digits: "list_all isDigit (showNat n) \<and> showNat n \<noteq> [] \<and> digitsVal (showNat n) = n"
proof (induction n rule: showNat.induct)
  case (1 n)
  show ?case
  proof (cases "n < 10")
    case True
    then show ?thesis by (subst (1 2 3) showNat.simps) (simp add: digitsVal_def)
  next
    case False
    with 1 show ?thesis by (subst (1 2 3) showNat.simps) simp
  qed
qed

lemma parseNat_showNat [simp]: "parseNat (showNat n) = Some n"
  using showNat_digits [of n] by (simp add: parseNat_def)

text \<open>\<open>strconv.ParseUint(s, 10, 64)\<close>.\<close>

definition ParseUint64 :: "string \<Rightarrow> nat option" where
  "ParseUint64 s = (case parseNat s of Some n \<Rightarrow> if n < 2 ^ 64 then Some n else None | None \<Rightarrow> None)"

subsection \<open>Slices\<close>

text \<open>\<open>slices.Sort\<close> then \<open>slices.Compact\<close>: the distinct elements in order.\<close>

definition SortCompact :: "'a :: linorder list \<Rightarrow> 'a list" where
  "SortCompact xs = remdups_adj (sort xs)"

lemma find_SomeD: "find P xs = Some x \<Longrightarrow> x \<in> set xs \<and> P x"
  by (induction xs) (auto split: if_splits)

lemma set_SortCompact [simp]: "set (SortCompact xs) = set xs"
  by (simp add: SortCompact_def)

lemma sorted_SortCompact: "sorted (SortCompact xs)"
  by (simp add: SortCompact_def sorted_remdups_adj)

lemma distinct_remdups_adj_sorted: "sorted xs \<Longrightarrow> distinct (remdups_adj xs)"
  by (induction xs rule: remdups_adj.induct) (auto simp: order_antisym)

lemma distinct_SortCompact: "distinct (SortCompact xs)"
  by (simp add: SortCompact_def distinct_remdups_adj_sorted)

subsection \<open>Maps\<close>

text \<open>
  A Go map as the list of its entries in key order, so that two maps are equal when
  \<open>reflect.DeepEqual\<close> says so and ranging over one is a recursion. Go ranges in an order of its
  own; the sources sort what they collect from a range, or do not depend on the order.
\<close>

type_synonym ('k, 'v) gomap = "('k \<times> 'v) list"

definition mget :: "('k, 'v) gomap \<Rightarrow> 'k \<Rightarrow> 'v option" where
  "mget m k = map_of m k"

fun mput :: "'k :: linorder \<Rightarrow> 'v \<Rightarrow> ('k, 'v) gomap \<Rightarrow> ('k, 'v) gomap" where
  "mput k v [] = [(k, v)]"
| "mput k v ((k', v') # m) =
     (if k < k' then (k, v) # (k', v') # m
      else if k = k' then (k, v) # m
      else (k', v') # mput k v m)"

definition mdel :: "'k \<Rightarrow> ('k, 'v) gomap \<Rightarrow> ('k, 'v) gomap" where
  "mdel k m = filter (\<lambda>(k', _). k' \<noteq> k) m"

definition mkeys :: "('k, 'v) gomap \<Rightarrow> 'k list" where
  "mkeys m = map fst m"

definition mwf :: "('k :: linorder, 'v) gomap \<Rightarrow> bool" where
  "mwf m = sorted_wrt (<) (mkeys m)"

text \<open>The interface of a map: what a lookup returns after each operation.\<close>

locale go_map_laws =
  fixes get :: "'m \<Rightarrow> 'k \<Rightarrow> 'v option"
    and put :: "'k \<Rightarrow> 'v \<Rightarrow> 'm \<Rightarrow> 'm"
    and del :: "'k \<Rightarrow> 'm \<Rightarrow> 'm"
    and wf :: "'m \<Rightarrow> bool"
    and emp :: 'm
  assumes get_emp: "get emp k = None"
    and get_put: "wf m \<Longrightarrow> get (put k v m) k' = (if k' = k then Some v else get m k')"
    and get_del: "wf m \<Longrightarrow> get (del k m) k' = (if k' = k then None else get m k')"
    and wf_emp: "wf emp"
    and wf_put: "wf m \<Longrightarrow> wf (put k v m)"
    and wf_del: "wf m \<Longrightarrow> wf (del k m)"
begin

lemma fold_put_wf: "wf m \<Longrightarrow> wf (fold (\<lambda>x. put (f x) (g x)) xs m)"
  by (induction xs arbitrary: m) (auto intro: wf_put)

lemma get_fold_put_other:
  "wf m \<Longrightarrow> k \<notin> f ` set xs \<Longrightarrow> get (fold (\<lambda>x. put (f x) (g x)) xs m) k = get m k"
  by (induction xs arbitrary: m) (auto simp: get_put wf_put)

lemma get_fold_put:
  "wf m \<Longrightarrow> inj_on f (set xs) \<Longrightarrow> x \<in> set xs \<Longrightarrow>
     get (fold (\<lambda>x. put (f x) (g x)) xs m) (f x) = Some (g x)"
proof (induction xs arbitrary: m)
  case (Cons y ys)
  show ?case
  proof (cases "x \<in> set ys")
    case True
    with Cons show ?thesis by (auto intro: wf_put)
  next
    case False
    with Cons.prems have "x = y" and "f y \<notin> f ` set ys" by auto
    with Cons.prems show ?thesis by (auto simp: get_fold_put_other get_put wf_put)
  qed
qed simp

lemma fold_del_wf: "wf m \<Longrightarrow> wf (fold del ks m)"
  by (induction ks arbitrary: m) (auto intro: wf_del)

lemma get_fold_del:
  "wf m \<Longrightarrow> get (fold del ks m) k = (if k \<in> set ks then None else get m k)"
  by (induction ks arbitrary: m) (auto simp: get_del wf_del)

end

lemma mput_keys: "set (mkeys (mput k v m)) = insert k (set (mkeys m))"
  by (induction k v m rule: mput.induct) (auto simp: mkeys_def)

lemma mget_None_iff: "mget m k = None \<longleftrightarrow> k \<notin> set (mkeys m)"
  by (simp add: mget_def mkeys_def map_of_eq_None_iff)

lemma mget_Some_set: "mget m k = Some v \<Longrightarrow> (k, v) \<in> set m"
  by (simp add: mget_def map_of_SomeD)

lemma mwf_distinct: "mwf m \<Longrightarrow> distinct (mkeys m)"
  by (simp add: mwf_def strict_sorted_iff)

lemma mget_set_iff: "mwf m \<Longrightarrow> mget m k = Some v \<longleftrightarrow> (k, v) \<in> set m"
  using mwf_distinct [of m] by (simp add: mget_def mkeys_def)

lemma mget_mput_any: "mget (mput k v m) k' = (if k' = k then Some v else mget m k')"
proof (induction k v m rule: mput.induct)
  case (2 k v k2 v2 m)
  then show ?case by (auto simp: mget_def)
qed (simp add: mget_def)

lemma mget_mdel_any: "mget (mdel k m) k' = (if k' = k then None else mget m k')"
  by (induction m) (auto simp: mget_def mdel_def)

lemma mwf_mput: "mwf m \<Longrightarrow> mwf (mput k v m)"
proof (induction k v m rule: mput.induct)
  case (2 k v k' v' m)
  then show ?case
    using mput_keys [of k v m] by (auto simp: mwf_def mkeys_def)
qed (simp add: mwf_def mkeys_def)

lemma mwf_mdel: "mwf m \<Longrightarrow> mwf (mdel k m)"
  unfolding mwf_def mdel_def mkeys_def
  by (induction m) auto

interpretation gm: go_map_laws mget mput mdel mwf "[]"
  by unfold_locales
    (auto simp: mget_mput_any mget_mdel_any mwf_mput mwf_mdel, simp_all add: mget_def mwf_def mkeys_def)

lemmas [simp, go_map] = mget_mput_any mget_mdel_any
lemmas [intro] = mwf_mput mwf_mdel

lemma mwf_Nil [simp]: "mwf []"
  by (rule gm.wf_emp)

lemma mget_Nil [simp]: "mget [] k = None"
  by (simp add: mget_def)

lemma mwf_keys_eq:
  assumes "mwf m"
  shows "m = map (\<lambda>k. (k, the (mget m k))) (mkeys m)"
proof -
  have "(fst p, the (mget m (fst p))) = p" if "p \<in> set m" for p
    using mget_set_iff [OF assms, of "fst p" "snd p"] that by (cases p) simp
  then show ?thesis by (simp add: mkeys_def map_idI)
qed

lemma mget_ext:
  assumes "mwf m" "mwf m'" "mget m = mget m'"
  shows "m = m'"
proof -
  have "set (mkeys m) = set (mkeys m')" using assms(3) mget_None_iff [of m] mget_None_iff [of m'] by auto
  moreover have "sorted (mkeys m)" "distinct (mkeys m)" "sorted (mkeys m')" "distinct (mkeys m')"
    using assms(1,2) by (auto simp: mwf_def strict_sorted_iff)
  ultimately have "mkeys m = mkeys m'" by (intro sorted_distinct_set_unique)
  with assms mwf_keys_eq [of m] mwf_keys_eq [of m'] show ?thesis by simp
qed

end
