(* ===== verification/Zfs_Name.thy ===== *)
theory Zfs_Name
  imports Go_Prelude
begin

section \<open>Dataset, snapshot and bookmark names\<close>

text \<open>
  \<open>internal/zfs/name.go\<close>, the object and property name checks of \<open>internal/zfs/state.go\<close>, and the
  subtree tests on names that the packages \<open>transfer\<close>, \<open>lifecycle\<close>, \<open>discovery\<close> and \<open>daemon\<close> each
  spell for themselves. A name is read as the list of its components; a dataset is inside another
  when the other's components are a prefix of its own, so the names form a tree. The locale
  \<open>scope_tree\<close> states that interface once, for everything that reasons about subtrees.
\<close>

subsection \<open>Validation\<close>

definition validateDataset :: "string \<Rightarrow> go_error option" where
  "validateDataset name =
     (let e = Errorf ''invalid ZFS dataset name %q'' [Arg name] in
      if name = [] \<or> HasPrefix name ''/'' \<or> HasPrefix name ''-'' \<or> ContainsAny name ''@#'' then Some e
      else if list_ex (\<lambda>part. part = [] \<or> part = ''.'' \<or> part = ''..'') (Split name (CHR ''/'')) then Some e
      else if hasSpaceOrControl name then Some e
      else None)"

definition validateComponent :: "string \<Rightarrow> string \<Rightarrow> go_error option" where
  "validateComponent kind name =
     (let e = Errorf ''invalid %s %q'' [Arg kind, Arg name] in
      if name = [] \<or> ContainsAny name ''/@#'' then Some e
      else if hasSpaceOrControl name then Some e
      else None)"

definition validateSnapshot :: "string \<Rightarrow> go_error option" where
  "validateSnapshot name =
     (let (dataset, snapshot, ok) = Cut name (CHR ''@'') in
      if \<not> ok \<or> ContainsAny snapshot ''@,%'' then Some (Errorf ''invalid ZFS snapshot name %q'' [Arg name])
      else (case validateDataset dataset of
              Some e \<Rightarrow> Some e
            | None \<Rightarrow> validateComponent ''snapshot'' snapshot))"

definition validateBookmark :: "string \<Rightarrow> go_error option" where
  "validateBookmark name =
     (let (dataset, bookmark, ok) = Cut name (CHR ''#'') in
      if \<not> ok \<or> CHR ''#'' \<in> set bookmark then Some (Errorf ''invalid ZFS bookmark name %q'' [Arg name])
      else (case validateDataset dataset of
              Some e \<Rightarrow> Some e
            | None \<Rightarrow> validateComponent ''bookmark'' bookmark))"

definition validateObject :: "string \<Rightarrow> go_error option" where
  "validateObject name =
     (if CHR ''@'' \<in> set name then validateSnapshot name
      else if CHR ''#'' \<in> set name then validateBookmark name
      else validateDataset name)"

definition propertyNamespace :: string where
  "propertyNamespace = ''org.boomerangz:''"

definition userPropertyRune :: "nat \<Rightarrow> bool" where
  "userPropertyRune r =
     ((97 \<le> r \<and> r \<le> 122) \<or> (48 \<le> r \<and> r \<le> 57) \<or> r = 58 \<or> r = 95 \<or> r = 45 \<or> r = 46)"

definition validateUserProperty :: "string \<Rightarrow> go_error option" where
  "validateUserProperty name =
     (if \<not> HasPrefix name propertyNamespace \<or> length name = length propertyNamespace
      then Some (Errorf ''property outside boomerangz namespace'' [])
      else if \<not> list_all (\<lambda>(r, _). userPropertyRune r) (runes name)
      then Some (Errorf ''invalid user property %q'' [Arg name])
      else None)"

text \<open>\<open>validDataset\<close> is the condition \<open>ValidateDataset(name) == nil\<close> of the callers.\<close>

abbreviation validDataset :: "string \<Rightarrow> bool" where
  "validDataset name \<equiv> validateDataset name = None"

subsection \<open>Subtrees\<close>

definition inside :: "string \<Rightarrow> string \<Rightarrow> bool" where
  "inside name root = (name = root \<or> HasPrefix name (root @ ''/''))"

definition overlaps :: "string \<Rightarrow> string \<Rightarrow> bool" where
  "overlaps a b = (a = b \<or> HasPrefix a (b @ ''/'') \<or> HasPrefix b (a @ ''/''))"

definition overlappingScope :: "string \<Rightarrow> string \<Rightarrow> bool" where
  "overlappingScope a b = (a = b \<or> HasPrefix a (b @ ''/'') \<or> HasPrefix b (a @ ''/''))"

definition overlappingLockScope :: "string \<Rightarrow> string \<Rightarrow> bool" where
  "overlappingLockScope a b =
     (a = [] \<or> b = [] \<or> a = b \<or> HasPrefix a (b @ ''/'') \<or> HasPrefix b (a @ ''/''))"

definition datasetOf :: "string \<Rightarrow> string" where
  "datasetOf name = cutBefore (cutBefore name (CHR ''@'')) (CHR ''#'')"

definition parentName :: "string \<Rightarrow> string" where
  "parentName name =
     (let index = LastIndexByte name (CHR ''/'') in
      if index \<ge> 0 then take (nat index) name else [])"

lemma parentName_shorter: "name \<noteq> [] \<Longrightarrow> length (parentName name) < length name"
  by (auto simp: parentName_def Let_def LastIndexByte_def)

function addAncestors :: "string set \<Rightarrow> string \<Rightarrow> string set" where
  "addAncestors names name =
     (if name = [] then names else addAncestors (insert name names) (parentName name))"
  by pat_completeness auto
termination
  by (relation "measure (\<lambda>(_, name). length name)") (auto simp: parentName_shorter)

declare addAncestors.simps [simp del]

text \<open>A name's components, the tree the subtree tests are about.\<close>

definition comps :: "string \<Rightarrow> string list" where
  "comps name = Split name (CHR ''/'')"

lemma comps_not_Nil [simp]: "comps a \<noteq> []"
  by (simp add: comps_def)

lemma comps_inject [simp]: "comps a = comps b \<longleftrightarrow> a = b"
  by (simp add: comps_def Split_inject)

lemma comps_append: "comps (a @ CHR ''/'' # b) = comps a @ comps b"
  by (simp add: comps_def Split_append)

lemma Join_comps: "Join (comps a) [CHR ''/''] = a"
  by (simp add: comps_def Join_Split)

lemma comps_Join:
  "xs \<noteq> [] \<Longrightarrow> \<forall>x \<in> set xs. CHR ''/'' \<notin> set x \<Longrightarrow> comps (Join xs [CHR ''/'']) = xs"
  by (simp add: comps_def Split_Join)

lemma inside_iff_prefix: "inside a b \<longleftrightarrow> prefix (comps b) (comps a)"
proof
  assume "inside a b"
  then show "prefix (comps b) (comps a)"
    by (auto simp: inside_def HasPrefix_iff comps_append)
next
  assume "prefix (comps b) (comps a)"
  then obtain zs where zs: "comps a = comps b @ zs" by (auto elim: prefixE)
  show "inside a b"
  proof (cases "zs = []")
    case True
    with zs show ?thesis by (simp add: inside_def)
  next
    case False
    have "\<forall>x \<in> set zs. CHR ''/'' \<notin> set x"
      using zs Split_no_sep [of _ a "CHR ''/''"] by (auto simp: comps_def)
    with False have "comps (b @ CHR ''/'' # Join zs [CHR ''/'']) = comps b @ zs"
      by (simp add: comps_append comps_Join)
    with zs have "a = b @ CHR ''/'' # Join zs [CHR ''/'']"
      by (metis comps_inject)
    then show ?thesis by (simp add: inside_def HasPrefix_iff)
  qed
qed

text \<open>
  The interface: a subtree order, in which the ancestors of a name form a chain. What a client
  concludes about disjoint subtrees holds for every such order.
\<close>

locale scope_tree =
  fixes within :: "'a \<Rightarrow> 'a \<Rightarrow> bool"
  assumes within_refl: "within a a"
    and within_trans: "within a b \<Longrightarrow> within b c \<Longrightarrow> within a c"
    and within_antisym: "within a b \<Longrightarrow> within b a \<Longrightarrow> a = b"
    and within_chain: "within x a \<Longrightarrow> within x b \<Longrightarrow> within a b \<or> within b a"
begin

lemma meets_iff_common: "(within a b \<or> within b a) \<longleftrightarrow> (\<exists>x. within x a \<and> within x b)"
  using within_refl within_chain by blast

lemma disjoint_below:
  "\<not> (within a b \<or> within b a) \<Longrightarrow> within x a \<Longrightarrow> within y b \<Longrightarrow> \<not> (within x y \<or> within y x)"
  by (meson within_chain within_trans)

lemma antichain_unique:
  "(\<And>a b. a \<in> R \<Longrightarrow> b \<in> R \<Longrightarrow> within a b \<Longrightarrow> a = b) \<Longrightarrow>
   r \<in> R \<Longrightarrow> r' \<in> R \<Longrightarrow> within x r \<Longrightarrow> within x r' \<Longrightarrow> r = r'"
  using within_chain by blast

end

interpretation names: scope_tree inside
proof unfold_locales
  show "inside a b \<Longrightarrow> inside b c \<Longrightarrow> inside a c" for a b c
    by (meson inside_iff_prefix prefix_order.trans)
  show "inside x a \<Longrightarrow> inside x b \<Longrightarrow> inside a b \<or> inside b a" for x a b
    by (meson inside_iff_prefix prefix_same_cases)
  show "inside a b \<Longrightarrow> inside b a \<Longrightarrow> a = b" for a b
    by (metis comps_inject inside_iff_prefix prefix_order.antisym)
qed (simp add: inside_iff_prefix)

lemmas [simp] = names.within_refl
lemmas inside_trans [trans] = names.within_trans

lemma overlaps_iff: "overlaps a b \<longleftrightarrow> inside a b \<or> inside b a"
  by (auto simp: overlaps_def inside_def)

lemma overlappingScope_iff: "overlappingScope a b \<longleftrightarrow> inside a b \<or> inside b a"
  by (auto simp: overlappingScope_def inside_def)

lemma overlappingLockScope_iff: "overlappingLockScope a b \<longleftrightarrow> a = [] \<or> b = [] \<or> inside a b \<or> inside b a"
  by (auto simp: overlappingLockScope_def inside_def)

lemma inside_cases: "inside a b \<Longrightarrow> a = b \<or> (\<exists>t. a = b @ CHR ''/'' # t)"
  by (auto simp: inside_def HasPrefix_iff)

lemma inside_append [simp, intro]: "inside (a @ CHR ''/'' # t) a"
  by (simp add: inside_def HasPrefix_iff)

subsection \<open>What validation accepts\<close>

definition goodParts :: "string \<Rightarrow> bool" where
  "goodParts name =
     ((\<forall>part \<in> set (comps name). part \<noteq> [] \<and> part \<noteq> ''.'' \<and> part \<noteq> ''..'')
      \<and> CHR ''@'' \<notin> set name \<and> CHR ''#'' \<notin> set name \<and> \<not> hasSpaceOrControl name)"

lemma comps_Nil [simp]: "comps [] = [[]]"
  by (simp add: comps_def)

lemma comps_slash: "comps (CHR ''/'' # t) = [] # comps t"
  by (simp add: comps_def)

lemma validDataset_iff: "validDataset name \<longleftrightarrow> goodParts name \<and> \<not> HasPrefix name ''-''"
proof -
  have "HasPrefix name ''/'' \<Longrightarrow> [] \<in> set (comps name)"
    by (auto simp: HasPrefix_iff comps_slash)
  moreover have "name = [] \<Longrightarrow> [] \<in> set (comps name)"
    by simp
  ultimately show ?thesis
    by (auto simp: validateDataset_def goodParts_def Let_def ContainsAny_def list_ex_iff comps_def)
qed

lemma ASCII_slash [simp]: "isASCII (CHR ''/'')"
  by (simp add: isASCII_def)

lemma hasSpaceOrControl_slash:
  "hasSpaceOrControl (a @ CHR ''/'' # b) \<longleftrightarrow> hasSpaceOrControl a \<or> hasSpaceOrControl b"
  by (simp add: hasSpaceOrControl_append_ASCII IsSpace_def IsControl_def)

lemma goodParts_append: "goodParts (a @ CHR ''/'' # b) \<longleftrightarrow> goodParts a \<and> goodParts b"
  unfolding goodParts_def comps_append hasSpaceOrControl_slash set_append ball_Un
  by (intro iffI conjI; elim conjE; simp)

lemma goodParts_Nil [simp]: "\<not> goodParts []"
  by (simp add: goodParts_def)

lemma validDataset_not_Nil: "validDataset a \<Longrightarrow> a \<noteq> []"
  using goodParts_Nil validDataset_iff by blast

lemma validDataset_append: "validDataset (a @ CHR ''/'' # b) \<longleftrightarrow> validDataset a \<and> goodParts b"
proof (cases a)
  case Nil
  have "goodParts (a @ CHR ''/'' # b) \<longleftrightarrow> False" "goodParts a \<longleftrightarrow> False"
    using Nil goodParts_append [of a b] by simp_all
  then show ?thesis by (simp add: validDataset_iff)
next
  case (Cons x xs)
  have "HasPrefix (a @ CHR ''/'' # b) ''-'' \<longleftrightarrow> HasPrefix a ''-''"
    using Cons by (simp add: HasPrefix_def)
  then show ?thesis by (simp add: validDataset_iff goodParts_append conj_ac)
qed

lemma validDataset_ancestor: "validDataset x \<Longrightarrow> inside x a \<Longrightarrow> validDataset a"
  using inside_cases validDataset_append by blast

lemma validDataset_child: "validDataset a \<Longrightarrow> validDataset b \<Longrightarrow> validDataset (a @ CHR ''/'' # b)"
  using validDataset_append validDataset_iff by blast

lemma validDataset_chars: "validDataset a \<Longrightarrow> CHR ''@'' \<notin> set a \<and> CHR ''#'' \<notin> set a"
  by (simp add: validDataset_iff goodParts_def)

lemma datasetOf_dataset [simp]: "validDataset a \<Longrightarrow> datasetOf a = a"
  by (simp add: datasetOf_def cutBefore_absent validDataset_chars)

lemma datasetOf_snapshot [simp]: "validDataset a \<Longrightarrow> datasetOf (a @ CHR ''@'' # c) = a"
  by (simp add: datasetOf_def cutBefore_append cutBefore_absent validDataset_chars)

lemma datasetOf_bookmark [simp]:
  "validDataset a \<Longrightarrow> CHR ''@'' \<notin> set c \<Longrightarrow> datasetOf (a @ CHR ''#'' # c) = a"
  by (simp add: datasetOf_def cutBefore_append cutBefore_absent validDataset_chars)

lemma parentName_append:
  assumes "CHR ''/'' \<notin> set b"
  shows "parentName (a @ CHR ''/'' # b) = a"
proof -
  have "takeWhile (\<lambda>x. x \<noteq> CHR ''/'') (rev b @ CHR ''/'' # rev a) = rev b"
    using assms by (auto simp: takeWhile_append)
  then show ?thesis by (simp add: parentName_def Let_def LastIndexByte_def)
qed

lemma parentName_pool: "CHR ''/'' \<notin> set a \<Longrightarrow> parentName a = []"
  by (simp add: parentName_def LastIndexByte_def)

lemma parentName_cases:
  obtains (pool) "CHR ''/'' \<notin> set name" "parentName name = []"
  | (child) a b where "name = a @ CHR ''/'' # b" "CHR ''/'' \<notin> set b" "parentName name = a"
proof (cases "CHR ''/'' \<in> set name")
  case True
  then obtain a b where "name = a @ CHR ''/'' # b" "CHR ''/'' \<notin> set b"
    by (meson split_list_last)
  then show thesis using child parentName_append by blast
next
  case False
  then show thesis using pool parentName_pool by blast
qed

lemma inside_parentName: "parentName name \<noteq> [] \<Longrightarrow> inside name (parentName name)"
  by (cases name rule: parentName_cases) auto

lemma strict_inside_parent: "inside name a \<Longrightarrow> name \<noteq> a \<Longrightarrow> a \<noteq> [] \<Longrightarrow> inside (parentName name) a"
proof (cases name rule: parentName_cases)
  case pool
  assume "inside name a" and "name \<noteq> a"
  then show ?thesis using pool(1) by (auto simp: inside_def HasPrefix_iff)
next
  case (child p b)
  assume "inside name a" and "name \<noteq> a"
  moreover have "comps name = comps p @ [b]"
    unfolding child(1) comps_append using child(2) by (simp add: comps_def Split_absent)
  moreover have "comps name \<noteq> comps a" using \<open>name \<noteq> a\<close> by simp
  ultimately have "prefix (comps a) (comps p)"
    by (auto simp: inside_iff_prefix prefix_snoc)
  then show ?thesis using child by (simp add: inside_iff_prefix)
qed

lemma validateComponent_iff:
  "validateComponent kind c = None \<longleftrightarrow>
     c \<noteq> [] \<and> set c \<inter> {CHR ''/'', CHR ''@'', CHR ''#''} = {} \<and> \<not> hasSpaceOrControl c"
  by (auto simp: validateComponent_def Let_def ContainsAny_def list_ex_iff)

lemma validateSnapshot_append:
  "CHR ''@'' \<notin> set d \<Longrightarrow>
   validateSnapshot (d @ CHR ''@'' # c) = None \<longleftrightarrow>
     validDataset d \<and> c \<noteq> [] \<and> \<not> hasSpaceOrControl c
     \<and> set c \<inter> {CHR ''/'', CHR ''@'', CHR ''#'', CHR '','', CHR ''%''} = {}"
  by (auto simp: validateSnapshot_def Cut_append ContainsAny_def list_ex_iff validateComponent_iff
      split: option.splits)

lemma validateSnapshot_iff:
  "validateSnapshot name = None \<longleftrightarrow>
     (\<exists>d c. validDataset d \<and> name = d @ CHR ''@'' # c \<and> c \<noteq> [] \<and> \<not> hasSpaceOrControl c
        \<and> set c \<inter> {CHR ''/'', CHR ''@'', CHR ''#'', CHR '','', CHR ''%''} = {})"
proof (cases "CHR ''@'' \<in> set name")
  case True
  then obtain d c where name: "name = d @ CHR ''@'' # c" and d: "CHR ''@'' \<notin> set d"
    by (meson split_list_first)
  have split: "d @ CHR ''@'' # c = d' @ CHR ''@'' # c' \<longleftrightarrow> d' = d \<and> c' = c" if "validDataset d'" for d' c'
    using sep_inject [OF d] validDataset_chars [OF that] by blast
  show ?thesis
    unfolding name validateSnapshot_append [OF d] by (simp add: split cong: conj_cong)
next
  case False
  then show ?thesis by (auto simp: validateSnapshot_def Cut_absent)
qed

lemma comps_single: "CHR ''/'' \<notin> set s \<Longrightarrow> comps s = [s]"
  by (simp add: comps_def Split_absent)

lemma goodParts_comp: "goodParts a \<Longrightarrow> c \<in> set (comps a) \<Longrightarrow> goodParts c"
proof -
  assume a: "goodParts a" and "c \<in> set (comps a)"
  then obtain xs ys where xs: "comps a = xs @ c # ys" by (meson split_list)
  have slash: "\<forall>x \<in> set (xs @ c # ys). CHR ''/'' \<notin> set x"
    unfolding xs [symmetric] by (auto simp: comps_def dest: Split_no_sep)
  have a_eq: "a = Join (xs @ c # ys) [CHR ''/'']" using Join_comps [of a] xs by simp
  have tail: "goodParts (Join (c # ys) [CHR ''/''])"
  proof (cases "xs = []")
    case True
    then show ?thesis using a a_eq by simp
  next
    case False
    then have "a = Join xs [CHR ''/''] @ CHR ''/'' # Join (c # ys) [CHR ''/'']"
      unfolding a_eq by (simp add: Join_append)
    then show ?thesis using a goodParts_append by blast
  qed
  show ?thesis
  proof (cases "ys = []")
    case False
    then show ?thesis using tail goodParts_append by (simp add: Join_Cons)
  qed (use tail in simp)
qed

lemma validDataset_not_flag: "validDataset a \<Longrightarrow> a \<noteq> CHR ''-'' # t"
  by (auto simp: validDataset_iff HasPrefix_def)

lemma validateBookmark_append:
  "CHR ''#'' \<notin> set d \<Longrightarrow>
   validateBookmark (d @ CHR ''#'' # c) = None \<longleftrightarrow>
     validDataset d \<and> c \<noteq> [] \<and> \<not> hasSpaceOrControl c \<and> set c \<inter> {CHR ''/'', CHR ''@'', CHR ''#''} = {}"
  by (auto simp: validateBookmark_def Cut_append validateComponent_iff split: option.splits)

lemma validObject_cases:
  assumes "validateObject name = None"
  obtains (dataset) "validDataset name"
  | (snapshot) d c where "validDataset d" "name = d @ CHR ''@'' # c" "CHR ''@'' \<notin> set c" "CHR ''#'' \<notin> set c"
  | (bookmark) d c where "validDataset d" "name = d @ CHR ''#'' # c" "CHR ''@'' \<notin> set c" "CHR ''#'' \<notin> set c"
proof (cases "CHR ''@'' \<in> set name")
  case True
  then have "validateSnapshot name = None" using assms by (simp add: validateObject_def)
  then obtain d c where d: "validDataset d" "name = d @ CHR ''@'' # c"
    and c: "set c \<inter> {CHR ''/'', CHR ''@'', CHR ''#'', CHR '','', CHR ''%''} = {}"
    unfolding validateSnapshot_iff by (elim exE conjE)
  show thesis using c by (intro snapshot [OF d]) auto
next
  case False
  show thesis
  proof (cases "CHR ''#'' \<in> set name")
    case True
    then obtain d c where d: "name = d @ CHR ''#'' # c" "CHR ''#'' \<notin> set d" by (meson split_list_first)
    have "validateBookmark name = None" using assms True False by (simp add: validateObject_def)
    then have v: "validDataset d" and c: "set c \<inter> {CHR ''/'', CHR ''@'', CHR ''#''} = {}"
      unfolding d(1) validateBookmark_append [OF d(2)] by simp_all
    show thesis using c by (intro bookmark [OF v d(1)]) auto
  next
    case False
    then show thesis using dataset assms \<open>CHR ''@'' \<notin> set name\<close> by (simp add: validateObject_def)
  qed
qed

lemma validObject_dataset: "validateObject name = None \<Longrightarrow> validDataset (datasetOf name)"
  by (erule validObject_cases) auto

lemma validDataset_append_not_flag: "validDataset d \<Longrightarrow> \<not> HasPrefix (d @ t) ''-''"
  by (cases d) (auto simp: HasPrefix_def dest: validDataset_not_flag validDataset_not_Nil)

lemma validObject_not_flag: "validateObject name = None \<Longrightarrow> \<not> HasPrefix name ''-''"
  by (erule validObject_cases) (simp_all add: validDataset_append_not_flag validDataset_iff)

lemma validateSnapshot_Object: "validateSnapshot name = None \<Longrightarrow> validateObject name = None"
  unfolding validateSnapshot_iff by (elim exE conjE) (simp add: validateObject_def validateSnapshot_append validDataset_chars)

lemma cutBefore_snapshot: "validateSnapshot name = None \<Longrightarrow> cutBefore name (CHR ''@'') = datasetOf name"
  unfolding validateSnapshot_iff by (elim exE conjE) (simp add: cutBefore_append validDataset_chars)

text \<open>
  C12: a snapshot name is accepted exactly when it is a valid dataset name, one @, and a non-empty
  component that has no separator, no list comma, no range percent sign, no space and no control
  character. So an accepted name denotes one snapshot, and never a list or a range of them.
\<close>

theorem snapshot_name_accepted:
  "validateSnapshot name = None \<longleftrightarrow>
     (\<exists>d c. validDataset d \<and> name = d @ CHR ''@'' # c \<and> c \<noteq> [] \<and> \<not> hasSpaceOrControl c
        \<and> set c \<inter> {CHR ''/'', CHR ''@'', CHR ''#'', CHR '','', CHR ''%''} = {})"
  by (rule validateSnapshot_iff)

end
