(* ===== verification/Zfs_Stream.thy ===== *)
theory Zfs_Stream
  imports Zfs_Name
begin

section \<open>The argument vectors of zfs send and zfs receive\<close>

text \<open>
  \<open>internal/zfs/stream.go\<close>: the mapping of a source to the dataset a receive creates, and the
  argument vectors of \<open>zfs send\<close> and \<open>zfs receive\<close>. The properties show what can be in an argument
  vector: a receive is unmounted, resumable and never forced, sets nothing in the program's
  own namespace but the placeholder marker, and no name a caller supplies is read as a flag.
\<close>

subsection \<open>Definitions\<close>

record SendOptions =
  so_Source :: string
  so_Snapshot :: string
  so_ResumeToken :: string
  so_Base :: string
  so_Intermediates :: bool
  so_Recursive :: bool
  so_LargeBlocks :: bool
  so_Compressed :: bool
  so_EmbeddedData :: bool
  so_Raw :: bool
  so_Properties :: bool

definition ReceiveExact :: string where "ReceiveExact = ''off''"
definition ReceiveDropFirst :: string where "ReceiveDropFirst = ''first''"
definition ReceiveDropAll :: string where "ReceiveDropAll = ''all''"

lemmas discard_defs = ReceiveExact_def ReceiveDropFirst_def ReceiveDropAll_def

record ReceiveOptions =
  ro_Root :: string
  ro_Discard :: string
  ro_Set :: "(string, string) gomap"
  ro_Exclude :: "string list"

definition PlaceholderProperty :: string where
  "PlaceholderProperty = propertyNamespace @ ''state:placeholder''"

definition MapReceiveDataset :: "string \<Rightarrow> string \<Rightarrow> string \<Rightarrow> string result" where
  "MapReceiveDataset source root discard =
     failIf (validateDataset source)
       (failIf (validateDataset root)
         (if discard = ReceiveExact then Inr root
          else if discard = ReceiveDropFirst then
            (let (_, suffix, found) = Cut source (CHR ''/'') in
             if \<not> found then Inr root else Inr (root @ ''/'' @ suffix))
          else if discard = ReceiveDropAll then
            Inr (root @ ''/'' @ drop (nat (LastIndexByte source (CHR ''/'') + 1)) source)
          else Inl (Errorf ''invalid receive discard mode'' [])))"

definition validateResumeToken :: "string \<Rightarrow> go_error option" where
  "validateResumeToken token =
     (if length token > 1024 * 1024 \<or> HasPrefix token ''-''
      then Some (Errorf ''invalid receive resume token'' [])
      else if list_ex (\<lambda>(r, _). r < 0x21 \<or> r > 0x7e) (runes token)
      then Some (Errorf ''invalid receive resume token'' [])
      else None)"

definition sendFlags :: "SendOptions \<Rightarrow> string list" where
  "sendFlags opts =
     concat (map (\<lambda>(on, arg). if on then [arg] else [])
       [(so_LargeBlocks opts, ''-L''), (so_Compressed opts, ''-c''), (so_EmbeddedData opts, ''-e''),
        (so_Raw opts, ''-w''), (so_Properties opts, ''-p''), (so_Recursive opts, ''-R'')])"

definition baseArgs :: "SendOptions \<Rightarrow> string list result" where
  "baseArgs opts =
     (if so_Base opts = [] then Inr []
      else failIf (validateObject (so_Base opts))
        (let snapshot = CHR ''@'' \<in> set (so_Base opts);
             bookmark = CHR ''#'' \<in> set (so_Base opts) in
         if \<not> snapshot \<and> \<not> bookmark
         then Inl (Errorf ''incremental base must be a snapshot or bookmark'' [])
         else if bookmark \<and> (so_Intermediates opts \<or> so_Recursive opts)
         then Inl (Errorf ''intermediate/recursive sends require a snapshot base'' [])
         else (case FieldsFunc (\<lambda>r. r = 64 \<or> r = 35) (so_Base opts) of
             [] \<Rightarrow> Inl (Errorf ''panic: index out of range'' [])
           | base # _ \<Rightarrow>
               (if cutBefore (so_Snapshot opts) (CHR ''@'') \<noteq> base \<or> so_Base opts = so_Snapshot opts
                then Inl (Errorf ''incremental base must be a distinct object on the source dataset'' [])
                else Inr [if so_Intermediates opts then ''-I'' else ''-i'', so_Base opts]))))"

definition sendArgs :: "SendOptions \<Rightarrow> bool \<Rightarrow> string list result" where
  "sendArgs opts estimate =
     (let est = (if estimate then [''-nP''] else []) in
      if so_ResumeToken opts \<noteq> [] then
        failIf (validateResumeToken (so_ResumeToken opts))
          (if so_Snapshot opts \<noteq> [] \<or> so_Base opts \<noteq> [] \<or> so_Intermediates opts \<or> so_Recursive opts
              \<or> so_LargeBlocks opts \<or> so_Compressed opts \<or> so_EmbeddedData opts \<or> so_Raw opts \<or> so_Properties opts
           then Inl (Errorf ''resume token cannot be combined with snapshot send options'' [])
           else Inr ([''send''] @ est @ [''-t'', so_ResumeToken opts]))
      else
        failIf (validateSnapshot (so_Snapshot opts))
          (bindE (baseArgs opts) (\<lambda>base. Inr ([''send''] @ est @ sendFlags opts @ base @ [so_Snapshot opts]))))"

definition streamProperty :: "string \<Rightarrow> bool" where
  "streamProperty name =
     (name \<noteq> [] \<and> list_all (\<lambda>(r, _). userPropertyRune r) (runes name))"

fun setArgs :: "(string, string) gomap \<Rightarrow> string list result" where
  "setArgs [] = Inr []"
| "setArgs ((key, v) # rest) =
     (if \<not> streamProperty key \<or> HasPrefix key propertyNamespace \<or> CHR 0x00 \<in> set v
      then Inl (Errorf ''invalid or reserved receive override %q'' [Arg key])
      else bindE (setArgs rest) (\<lambda>args. Inr ([''-o'', key @ ''='' @ v] @ args)))"

fun excludeArgs :: "(string, string) gomap \<Rightarrow> string list \<Rightarrow> string list result" where
  "excludeArgs s [] = Inr []"
| "excludeArgs s (key # rest) =
     (if \<not> streamProperty key then Inl (Errorf ''invalid receive exclusion %q'' [Arg key])
      else bindE (excludeArgs s rest) (\<lambda>args.
        Inr (if mget s key \<noteq> None \<or> key = PlaceholderProperty then args else [''-x'', key] @ args)))"

definition receiveArgs :: "ReceiveOptions \<Rightarrow> string list result" where
  "receiveArgs opts =
     failIf (validateDataset (ro_Root opts))
       (bindE
         (if ro_Discard opts = ReceiveExact then Inr []
          else if ro_Discard opts = ReceiveDropFirst then Inr [''-d'']
          else if ro_Discard opts = ReceiveDropAll then Inr [''-e'']
          else Inl (Errorf ''invalid receive discard mode'' []))
         (\<lambda>mode. bindE (setArgs (ro_Set opts))
           (\<lambda>sets. bindE (excludeArgs (ro_Set opts) (SortCompact (ro_Exclude opts)))
             (\<lambda>excluded.
               Inr ([''receive'', ''-u'', ''-s''] @ mode @ sets @ [''-o'', PlaceholderProperty @ ''=off'']
                    @ excluded @ [ro_Root opts])))))"

record Estimate =
  es_Known :: bool
  es_Bytes :: nat
  es_Reason :: string

definition unknownEstimate :: Estimate where
  "unknownEstimate = \<lparr>es_Known = False, es_Bytes = 0, es_Reason = ''send estimate unavailable''\<rparr>"

fun estimateLines :: "Estimate \<Rightarrow> string list \<Rightarrow> Estimate result" where
  "estimateLines est [] = Inr est"
| "estimateLines est (line # rest) =
     (case Fields line of
        [f, v] \<Rightarrow>
          (if f = ''size'' then
             (case ParseUint64 v of
                None \<Rightarrow> Inl (Errorf ''invalid ZFS send estimate output'' [])
              | Some n \<Rightarrow>
                  (if es_Known est then Inl (Errorf ''invalid ZFS send estimate output'' [])
                   else estimateLines \<lparr>es_Known = True, es_Bytes = n, es_Reason = []\<rparr> rest))
           else estimateLines est rest)
      | _ \<Rightarrow> estimateLines est rest)"

text \<open>
  \<open>EstimateSend\<close> with the command runner as a parameter: \<open>run\<close> is what \<open>zfs\<close> prints for an argument
  vector, \<open>ctxErr\<close> the state of the context once it has returned.
\<close>

definition EstimateSend ::
  "(string list \<Rightarrow> string result) \<Rightarrow> go_error option \<Rightarrow> SendOptions \<Rightarrow> Estimate result" where
  "EstimateSend run ctxErr opts =
     bindE (sendArgs opts True) (\<lambda>args.
       case run args of
         Inl _ \<Rightarrow> (case ctxErr of Some e \<Rightarrow> Inl e | None \<Rightarrow> Inr unknownEstimate)
       | Inr output \<Rightarrow> estimateLines unknownEstimate (Split output (CHR 0x0A)))"

subsection \<open>Receive paths\<close>

lemma Cut_slash: "(\<exists>a b. s = a @ CHR ''/'' # b \<and> CHR ''/'' \<notin> set a \<and> Cut s (CHR ''/'') = (a, b, True))
    \<or> (CHR ''/'' \<notin> set s \<and> Cut s (CHR ''/'') = (s, [], False))"
  using Cut_present Cut_absent by blast

lemma lastComponent: "drop (nat (LastIndexByte s (CHR ''/'') + 1)) s = last (comps s)"
proof (cases "CHR ''/'' \<in> set s")
  case True
  then obtain a b where s: "s = a @ CHR ''/'' # b" and b: "CHR ''/'' \<notin> set b"
    by (meson split_list_last)
  have "nat (LastIndexByte s (CHR ''/'') + 1) = Suc (length a)"
    by (simp add: s LastIndexByte_append [OF b])
  then show ?thesis unfolding s comps_append by (simp add: comps_single [OF b])
next
  case False
  then show ?thesis by (simp add: LastIndexByte_def comps_single)
qed

lemma goodParts_Join_tl:
  assumes "goodParts a" and "CHR ''/'' \<in> set a"
  shows "\<exists>p t. a = p @ CHR ''/'' # t \<and> Cut a (CHR ''/'') = (p, t, True) \<and> comps t = tl (comps a) \<and> goodParts t"
proof -
  obtain p t where a: "a = p @ CHR ''/'' # t" "CHR ''/'' \<notin> set p" "Cut a (CHR ''/'') = (p, t, True)"
    using Cut_present [OF assms(2)] by blast
  have "comps t = tl (comps a)" unfolding a(1) comps_append by (simp add: comps_single [OF a(2)])
  moreover have "goodParts t" using assms(1) goodParts_append unfolding a(1) by blast
  ultimately show ?thesis using a by blast
qed

lemma MapReceiveDataset_spec:
  assumes "validDataset source" and "validDataset root"
    and "discard \<in> {ReceiveExact, ReceiveDropFirst, ReceiveDropAll}"
  shows "\<exists>d. MapReceiveDataset source root discard = Inr d \<and> validDataset d \<and> inside d root
     \<and> comps d = comps root
         @ (if discard = ReceiveExact then [] else if discard = ReceiveDropFirst then tl (comps source)
            else [last (comps source)])"
proof -
  have good: "goodParts source" using assms(1) by (simp add: validDataset_iff)
  consider (exact) "discard = ReceiveExact" | (first) "discard = ReceiveDropFirst" | (all) "discard = ReceiveDropAll"
    using assms(3) by blast
  then show ?thesis
  proof cases
    case exact
    then show ?thesis using assms by (simp add: MapReceiveDataset_def)
  next
    case first
    show ?thesis
    proof (cases "CHR ''/'' \<in> set source")
      case True
      then obtain p t where t: "Cut source (CHR ''/'') = (p, t, True)" "comps t = tl (comps source)" "goodParts t"
        using goodParts_Join_tl [OF good] by blast
      have "MapReceiveDataset source root discard = Inr (root @ CHR ''/'' # t)"
        using assms first t by (simp add: MapReceiveDataset_def discard_defs)
      moreover have "validDataset (root @ CHR ''/'' # t)"
        using assms(2) t(3) validDataset_append by blast
      ultimately show ?thesis using first t by (simp add: comps_append discard_defs)
    next
      case False
      then show ?thesis
        using assms first by (simp add: MapReceiveDataset_def discard_defs Cut_absent comps_single)
    qed
  next
    case all
    have "goodParts (last (comps source))"
      using goodParts_comp [OF good] by simp
    then have v: "validDataset (root @ CHR ''/'' # last (comps source))"
      using assms(2) validDataset_append by blast
    have "CHR ''/'' \<notin> set (last (comps source))"
      using Split_no_sep [of _ source "CHR ''/''"] by (simp add: comps_def)
    then have "comps (root @ CHR ''/'' # last (comps source)) = comps root @ [last (comps source)]"
      by (simp add: comps_append comps_single)
    moreover have "MapReceiveDataset source root discard = Inr (root @ CHR ''/'' # last (comps source))"
      using assms all by (simp add: MapReceiveDataset_def discard_defs lastComponent)
    ultimately show ?thesis using v all by (simp add: discard_defs)
  qed
qed

text \<open>
  C9: for valid names and a known mode, the predicted receive dataset exists, is a valid dataset
  name inside the receive root, and its components are those of the root followed by none of, all
  but the first of, or just the last of the source's components.
\<close>

theorem MapReceiveDataset_mapped:
  assumes "validDataset source" and "validDataset root"
    and "discard \<in> {ReceiveExact, ReceiveDropFirst, ReceiveDropAll}"
  shows "\<exists>d. MapReceiveDataset source root discard = Inr d \<and> validDataset d \<and> inside d root
     \<and> comps d = comps root
         @ (if discard = ReceiveExact then [] else if discard = ReceiveDropFirst then tl (comps source)
            else [last (comps source)])"
  using assms by (rule MapReceiveDataset_spec)

theorem MapReceiveDataset_mapped_witness:
  "validDataset ''tank/home/a'' \<and> validDataset ''backup'' \<and>
   (\<exists>d. MapReceiveDataset ''tank/home/a'' ''backup'' ReceiveDropFirst = Inr d \<and> inside d ''backup''
      \<and> comps d = [''backup'', ''home'', ''a''])"
proof -
  have v: "validDataset ''tank/home/a''" "validDataset ''backup''"
    "ReceiveDropFirst \<in> {ReceiveExact, ReceiveDropFirst, ReceiveDropAll}"
    and c: "comps ''backup'' @ tl (comps ''tank/home/a'') = [''backup'', ''home'', ''a'']"
    and m: "(ReceiveDropFirst = ReceiveExact) = False"
    by code_simp+
  show ?thesis using MapReceiveDataset_mapped [OF v] v unfolding m c [symmetric] by (simp only: if_False if_True refl simp_thms) blast
qed

subsection \<open>Argument vectors\<close>

lemma setArgs_Inr: "setArgs s = Inr args \<Longrightarrow>
   args = concat (map (\<lambda>(k, v). [''-o'', k @ ''='' @ v]) s)
   \<and> (\<forall>(k, v) \<in> set s. streamProperty k \<and> \<not> HasPrefix k propertyNamespace)"
  by (induction s arbitrary: args rule: setArgs.induct) (auto simp: result_iffs split: if_splits)

lemma excludeArgs_Inr: "excludeArgs s ks = Inr args \<Longrightarrow>
   args = concat (map (\<lambda>k. [''-x'', k]) (filter (\<lambda>k. mget s k = None \<and> k \<noteq> PlaceholderProperty) ks))
   \<and> (\<forall>k \<in> set ks. streamProperty k)"
  by (induction s ks arbitrary: args rule: excludeArgs.induct) (auto simp: result_iffs split: if_splits)

lemma receiveArgs_Inr:
  assumes "receiveArgs opts = Inr args"
  obtains mode where
    "args = [''receive'', ''-u'', ''-s''] @ mode
       @ concat (map (\<lambda>(k, v). [''-o'', k @ ''='' @ v]) (ro_Set opts @ [(PlaceholderProperty, ''off'')]))
       @ concat (map (\<lambda>k. [''-x'', k])
           (filter (\<lambda>k. mget (ro_Set opts) k = None \<and> k \<noteq> PlaceholderProperty) (SortCompact (ro_Exclude opts))))
       @ [ro_Root opts]"
    and "mode \<in> {[], [''-d''], [''-e'']}"
    and "\<forall>(k, v) \<in> set (ro_Set opts). streamProperty k \<and> \<not> HasPrefix k propertyNamespace"
    and "\<forall>k \<in> set (ro_Exclude opts). streamProperty k"
    and "validDataset (ro_Root opts)"
proof -
  from assms obtain mode sets excl where *: "setArgs (ro_Set opts) = Inr sets"
    "excludeArgs (ro_Set opts) (SortCompact (ro_Exclude opts)) = Inr excl"
    "args = [''receive'', ''-u'', ''-s''] @ mode @ sets @ [''-o'', PlaceholderProperty @ ''=off'']
                    @ excl @ [ro_Root opts]" "validDataset (ro_Root opts)"
    "mode \<in> {[], [''-d''], [''-e'']}"
    unfolding receiveArgs_def result_iffs by (auto split: if_splits)
  show thesis
    using that [of mode] * setArgs_Inr [OF *(1)] excludeArgs_Inr [OF *(2)] by simp
qed

lemma streamProperty_chars: "streamProperty k \<longleftrightarrow> k \<noteq> [] \<and> list_all (\<lambda>c. userPropertyRune (of_char c)) k"
  unfolding streamProperty_def by (subst runes_all_ASCII) (auto simp: userPropertyRune_def)

lemma streamProperty_not_force: "\<not> streamProperty ''-F''"
  by (simp add: streamProperty_chars userPropertyRune_def)

text \<open>
  C5: an accepted receive is \<open>zfs receive -u -s\<close>, optionally with a path mode, then one \<open>-o\<close> for each
  override and for the placeholder marker, then one \<open>-x\<close> for each remaining exclusion, then the
  root. It never carries \<open>-F\<close>; the only value set in the program's namespace is
  the placeholder marker, off; and no property is both set and excluded.
\<close>

theorem receive_never_forces:
  assumes "receiveArgs opts = Inr args"
  shows "\<exists>mode sets excl.
     args = [''receive'', ''-u'', ''-s''] @ mode @ concat (map (\<lambda>(k, v). [''-o'', k @ ''='' @ v]) sets)
            @ concat (map (\<lambda>k. [''-x'', k]) excl) @ [ro_Root opts]
     \<and> mode \<in> {[], [''-d''], [''-e'']}
     \<and> sets = ro_Set opts @ [(PlaceholderProperty, ''off'')]
     \<and> (\<forall>(k, v) \<in> set sets. HasPrefix k propertyNamespace \<longrightarrow> k = PlaceholderProperty \<and> v = ''off'')
     \<and> set excl = set (ro_Exclude opts) - fst ` set sets \<and> distinct excl
     \<and> validDataset (ro_Root opts) \<and> ''-F'' \<notin> set args"
proof -
  let ?excl = "filter (\<lambda>k. mget (ro_Set opts) k = None \<and> k \<noteq> PlaceholderProperty) (SortCompact (ro_Exclude opts))"
  let ?sets = "ro_Set opts @ [(PlaceholderProperty, ''off'')]"
  from receiveArgs_Inr [OF assms] obtain mode where m:
    "args = [''receive'', ''-u'', ''-s''] @ mode @ concat (map (\<lambda>(k, v). [''-o'', k @ ''='' @ v]) ?sets)
            @ concat (map (\<lambda>k. [''-x'', k]) ?excl) @ [ro_Root opts]"
    "mode \<in> {[], [''-d''], [''-e'']}"
    and s: "\<forall>(k, v) \<in> set (ro_Set opts). streamProperty k \<and> \<not> HasPrefix k propertyNamespace"
    and x: "\<forall>k \<in> set (ro_Exclude opts). streamProperty k"
    and r: "validDataset (ro_Root opts)"
    by (rule receiveArgs_Inr [OF assms])
  have "set ?excl = set (ro_Exclude opts) - fst ` set ?sets"
    by (auto simp: mget_None_iff mkeys_def)
  moreover have "distinct ?excl" by (simp add: distinct_SortCompact)
  moreover have "''-F'' \<notin> set args"
  proof -
    have "''-F'' \<noteq> ro_Root opts" using validDataset_not_flag [OF r] by metis
    moreover have "''-F'' \<noteq> k @ ''='' @ v" for k v by (auto simp: append_eq_Cons_conv Cons_eq_append_conv)
    moreover have "''-F'' \<notin> set ?excl" using x streamProperty_not_force by auto
    moreover have "set args \<subseteq> {''receive'', ''-u'', ''-s'', ''-d'', ''-e'', ''-o'', ''-x'', ro_Root opts}
        \<union> (\<lambda>(k, v). k @ ''='' @ v) ` set ?sets \<union> set ?excl"
      using m(2) unfolding m(1) by (auto simp del: filter.simps set_filter)
    moreover have "''-F'' \<notin> (\<lambda>(k, v). k @ ''='' @ v) ` set ?sets"
      using \<open>\<And>v k. ''-F'' \<noteq> k @ ''='' @ v\<close> by auto
    ultimately show ?thesis by blast
  qed
  moreover have "\<forall>(k, v) \<in> set ?sets. HasPrefix k propertyNamespace \<longrightarrow> k = PlaceholderProperty \<and> v = ''off''"
    using s by fastforce
  ultimately show ?thesis using m r by (intro exI conjI) (rule m(1), simp_all)
qed

theorem receive_never_forces_witness:
  "\<exists>args. receiveArgs \<lparr>ro_Root = ''backup'', ro_Discard = ReceiveDropFirst,
       ro_Set = [(''readonly'', ''on'')], ro_Exclude = [''sharenfs'', ''readonly'']\<rparr> = Inr args
     \<and> ''-F'' \<notin> set args"
proof -
  let ?opts = "\<lparr>ro_Root = ''backup'', ro_Discard = ReceiveDropFirst,
     ro_Set = [(''readonly'', ''on'')], ro_Exclude = [''sharenfs'', ''readonly'']\<rparr>"
  have "receiveArgs ?opts =
      Inr [''receive'', ''-u'', ''-s'', ''-d'', ''-o'', ''readonly=on'', ''-o'', PlaceholderProperty @ ''=off'',
           ''-x'', ''sharenfs'', ''backup'']"
    by code_simp
  then show ?thesis using receive_never_forces [of ?opts] by blast
qed

text \<open>The part of an object's name before its separator.\<close>

lemma FieldsFunc_object:
  assumes v: "validateObject name = None" and sep: "CHR ''@'' \<in> set name \<or> CHR ''#'' \<in> set name"
  shows "\<exists>fs. FieldsFunc (\<lambda>r. r = 64 \<or> r = 35) name = datasetOf name # fs"
proof -
  let ?P = "\<lambda>r. r = 64 \<or> r = (35 :: nat)"
  have P: "\<And>r. ?P r \<Longrightarrow> r < 0x80" by auto
  have at: "(of_char c = (64 :: nat)) = (c = CHR ''@'')" and hash: "(of_char c = (35 :: nat)) = (c = CHR ''#'')" for c
    using of_char_eq_iff [of c "CHR ''@''", where 'a = nat] of_char_eq_iff [of c "CHR ''#''", where 'a = nat] by simp_all
  have none: "\<not> list_ex (\<lambda>c. ?P (of_char c)) d" if "validDataset d" for d
    using validDataset_chars [OF that] by (auto simp: list_ex_iff at hash)
  show ?thesis
    using v
  proof (cases rule: validObject_cases)
    case dataset
    then show ?thesis using sep validDataset_chars by blast
  next
    case (snapshot d c)
    then show ?thesis
      using FieldsFunc_hd [OF P _ _ _ none, of "CHR ''@''" d c] validDataset_not_Nil by (simp add: isASCII_def)
  next
    case (bookmark d c)
    then show ?thesis
      using FieldsFunc_hd [OF P _ _ _ none, of "CHR ''#''" d c] validDataset_not_Nil by (simp add: isASCII_def)
  qed
qed

lemma baseArgs_Inr:
  assumes "baseArgs opts = Inr args" and "so_Base opts \<noteq> []"
  shows "validateObject (so_Base opts) = None \<and> datasetOf (so_Base opts) = cutBefore (so_Snapshot opts) (CHR ''@'')
    \<and> so_Base opts \<noteq> so_Snapshot opts \<and> (CHR ''@'' \<in> set (so_Base opts) \<or> CHR ''#'' \<in> set (so_Base opts))
    \<and> (CHR ''#'' \<in> set (so_Base opts) \<longrightarrow> \<not> so_Intermediates opts \<and> \<not> so_Recursive opts)
    \<and> args = [if so_Intermediates opts then ''-I'' else ''-i'', so_Base opts]"
proof -
  from assms have v: "validateObject (so_Base opts) = None" 
    and sep: "CHR ''@'' \<in> set (so_Base opts) \<or> CHR ''#'' \<in> set (so_Base opts)"
    and mode: "CHR ''#'' \<in> set (so_Base opts) \<longrightarrow> \<not> so_Intermediates opts \<and> \<not> so_Recursive opts"
    unfolding baseArgs_def by (auto simp: result_iffs Let_def split: if_splits)
  then show ?thesis
    using assms FieldsFunc_object [OF v sep] unfolding baseArgs_def by (auto simp: result_iffs Let_def split: if_splits)
qed

lemma baseArgs_accepts:
  assumes "validateObject (so_Base opts) = None" "CHR ''@'' \<in> set (so_Base opts) \<or> CHR ''#'' \<in> set (so_Base opts)"
    and "datasetOf (so_Base opts) = cutBefore (so_Snapshot opts) (CHR ''@'')" "so_Base opts \<noteq> so_Snapshot opts"
    and "CHR ''#'' \<in> set (so_Base opts) \<longrightarrow> \<not> so_Intermediates opts \<and> \<not> so_Recursive opts"
  shows "is_ok (baseArgs opts)"
  using assms FieldsFunc_object [OF assms(1,2)] unfolding baseArgs_def by (auto simp: Let_def)

lemma only_listed: "set args \<subseteq> A \<union> F \<Longrightarrow> \<forall>a \<in> A. P a \<longrightarrow> a \<in> L \<Longrightarrow> F \<subseteq> L \<Longrightarrow> \<forall>a \<in> set args. P a \<longrightarrow> a \<in> L"
  by blast

text \<open>
  C6: whatever the options, an accepted send begins with \<open>send\<close>, and every argument that starts with a
  dash is one of the ten literal flags, so no name or token is read as a flag. It either resumes
  the given token alone, or sends one validated snapshot, from a base that is a different snapshot
  or bookmark of the same dataset when there is a base; a bookmark base is never combined with
  intermediate or recursive sends.
\<close>

theorem send_only_literal_flags:
  assumes "sendArgs opts estimate = Inr args"
  shows "hd args = ''send''
    \<and> (\<forall>a \<in> set args. HasPrefix a ''-'' \<longrightarrow>
         a \<in> {''-nP'', ''-L'', ''-c'', ''-e'', ''-w'', ''-p'', ''-R'', ''-i'', ''-I'', ''-t''})
    \<and> (if so_ResumeToken opts \<noteq> [] then last args = so_ResumeToken opts \<and> so_Snapshot opts = [] \<and> so_Base opts = []
       else last args = so_Snapshot opts \<and> validateSnapshot (so_Snapshot opts) = None
         \<and> (so_Base opts \<noteq> [] \<longrightarrow> validateObject (so_Base opts) = None
              \<and> datasetOf (so_Base opts) = datasetOf (so_Snapshot opts) \<and> so_Base opts \<noteq> so_Snapshot opts
              \<and> (CHR ''#'' \<in> set (so_Base opts) \<longrightarrow> \<not> so_Intermediates opts \<and> \<not> so_Recursive opts)))"
proof (cases "so_ResumeToken opts = []")
  case False
  then have tok: "validateResumeToken (so_ResumeToken opts) = None" "so_Snapshot opts = []" "so_Base opts = []"
    and args: "args = [''send''] @ (if estimate then [''-nP''] else []) @ [''-t'', so_ResumeToken opts]"
    using assms by (auto simp: sendArgs_def Let_def result_iffs split: if_splits)
  have "\<not> HasPrefix (so_ResumeToken opts) ''-''"
    using tok(1) by (auto simp: validateResumeToken_def split: if_splits)
  then show ?thesis using False tok unfolding args by (auto simp: HasPrefix_def)
next
  case True
  then obtain base where v: "validateSnapshot (so_Snapshot opts) = None" and b: "baseArgs opts = Inr base"
    and args: "args = [''send''] @ (if estimate then [''-nP''] else []) @ sendFlags opts @ base @ [so_Snapshot opts]"
    using assms by (auto simp: sendArgs_def Let_def result_iffs)
  note snap = validObject_not_flag [OF validateSnapshot_Object [OF v]]
  have flags: "set (sendFlags opts) \<subseteq> {''-nP'', ''-L'', ''-c'', ''-e'', ''-w'', ''-p'', ''-R'', ''-i'', ''-I'', ''-t''}"
    by (auto simp: sendFlags_def)
  have cmd: "\<not> HasPrefix ''send'' ''-''" by (simp add: HasPrefix_def)
  show ?thesis
  proof (cases "so_Base opts = []")
    case True
    then have "base = []" using b by (simp add: baseArgs_def)
    then have mem: "set args \<subseteq> {''send'', ''-nP'', so_Snapshot opts} \<union> set (sendFlags opts)"
      unfolding args by auto
    have "\<forall>a \<in> set args. HasPrefix a ''-'' \<longrightarrow>
         a \<in> {''-nP'', ''-L'', ''-c'', ''-e'', ''-w'', ''-p'', ''-R'', ''-i'', ''-I'', ''-t''}"
      by (rule only_listed [OF mem]) (simp_all add: flags snap cmd)
    then show ?thesis using \<open>so_ResumeToken opts = []\<close> True v unfolding args by simp
  next
    case False
    note base = baseArgs_Inr [OF b False]
    have bflag: "\<not> HasPrefix (so_Base opts) ''-''" using base validObject_not_flag by blast
    have mem: "set args \<subseteq> {''send'', ''-nP'', ''-I'', ''-i'', so_Snapshot opts, so_Base opts} \<union> set (sendFlags opts)"
      using base unfolding args by auto
    have "\<forall>a \<in> set args. HasPrefix a ''-'' \<longrightarrow>
         a \<in> {''-nP'', ''-L'', ''-c'', ''-e'', ''-w'', ''-p'', ''-R'', ''-i'', ''-I'', ''-t''}"
      by (rule only_listed [OF mem]) (simp_all add: flags snap cmd bflag)
    then show ?thesis
      using \<open>so_ResumeToken opts = []\<close> False v base cutBefore_snapshot [OF v] unfolding args by simp
  qed
qed

theorem send_only_literal_flags_witness:
  "\<exists>args. sendArgs \<lparr>so_Source = [], so_Snapshot = ''tank/a@s2'', so_ResumeToken = [], so_Base = ''tank/a#s1'',
       so_Intermediates = False, so_Recursive = False, so_LargeBlocks = True, so_Compressed = True,
       so_EmbeddedData = False, so_Raw = True, so_Properties = True\<rparr> False = Inr args
     \<and> last args = ''tank/a@s2'' \<and> hd args = ''send''"
proof -
  let ?opts = "\<lparr>so_Source = [], so_Snapshot = ''tank/a@s2'', so_ResumeToken = [], so_Base = ''tank/a#s1'',
       so_Intermediates = False, so_Recursive = False, so_LargeBlocks = True, so_Compressed = True,
       so_EmbeddedData = False, so_Raw = True, so_Properties = True\<rparr>"
  have s: "sendArgs ?opts False = Inr [''send'', ''-L'', ''-c'', ''-w'', ''-p'', ''-i'', ''tank/a#s1'', ''tank/a@s2'']"
    by code_simp
  show ?thesis
    by (intro exI conjI, rule s) (use send_only_literal_flags [OF s] in simp_all)
qed

end
