(* ===== verification/Zfs_State.thy ===== *)
theory Zfs_State
  imports Zfs_Stream
begin

section \<open>Inventories of datasets, objects and properties\<close>

text \<open>
  The data types of \<open>internal/zfs/executor.go\<close> and \<open>MergeStates\<close> of \<open>internal/zfs/state.go\<close>. A state holds the
  objects and the explicitly stored properties an inspection found. GUIDs and transaction groups
  are unsigned and only compared; dataset types and property sources are the strings of the source.
\<close>

abbreviation Filesystem :: string where "Filesystem \<equiv> ''filesystem''"
abbreviation Volume :: string where "Volume \<equiv> ''volume''"
abbreviation SourceLocal :: string where "SourceLocal \<equiv> ''local''"
abbreviation SourceReceived :: string where "SourceReceived \<equiv> ''received''"

record Dataset =
  ds_Name :: string
  ds_Type :: string
  ds_EncryptionRoot :: string

record DatasetIdentity =
  di_Name :: string
  di_Type :: string
  di_GUID :: nat
  di_Pool :: string
  di_PoolGUID :: nat
  di_Placeholder :: bool

record Property =
  p_Dataset :: string
  p_Name :: string
  p_Value :: string
  p_Source :: string

record Object =
  ob_Name :: string
  ob_Type :: string
  ob_GUID :: nat
  ob_Creation :: int
  ob_CreateTXG :: nat

record State =
  st_Objects :: "Object list"
  st_Properties :: "Property list"
  st_Received :: "(string, (string, string) gomap) gomap"
  st_ResumeTokens :: "(string, string) gomap"
  st_Clones :: "(string, string list) gomap"
  st_Holds :: "(string, string list) gomap"

definition emptyState :: State where
  "emptyState = \<lparr>st_Objects = [], st_Properties = [], st_Received = [], st_ResumeTokens = [], st_Clones = [], st_Holds = []\<rparr>"

text \<open>Indexing a map whose value type has the empty slice or string as its zero value.\<close>

definition mindex :: "('k, 'v list) gomap \<Rightarrow> 'k \<Rightarrow> 'v list" where
  "mindex m k = (case mget m k of Some v \<Rightarrow> v | None \<Rightarrow> [])"

lemma mindex_mput [simp]: "mindex (mput k v m) = (\<lambda>h. if h = k then v else mindex m h)"
  by (simp add: mindex_def fun_eq_iff)

lemma mindex_mdel [simp]: "mindex (mdel k m) = (\<lambda>h. if h = k then [] else mindex m h)"
  by (simp add: mindex_def fun_eq_iff)

lemma mindex_Nil [simp]: "mindex [] k = []"
  by (simp add: mindex_def)

lemma mindex_Cons [simp]: "mindex ((k, v) # m) h = (if h = k then v else mindex m h)"
  by (simp add: mindex_def mget_def)

lemma mindex_absent: "k \<notin> set (mkeys m) \<Longrightarrow> mindex m k = []"
  by (simp add: mindex_def mget_None_iff [symmetric])

fun appendNew :: "'a list \<Rightarrow> 'a list \<Rightarrow> 'a list" where
  "appendNew acc [] = acc"
| "appendNew acc (x # xs) = appendNew (if x \<in> set acc then acc else acc @ [x]) xs"

definition mputAll :: "('k :: linorder, 'v) gomap \<Rightarrow> ('k, 'v) gomap \<Rightarrow> ('k, 'v) gomap" where
  "mputAll m new = fold (\<lambda>e. mput (fst e) (snd e)) new m"

definition mergeInto :: "State \<Rightarrow> State \<Rightarrow> State" where
  "mergeInto merged s =
     \<lparr>st_Objects = appendNew (st_Objects merged) (st_Objects s),
      st_Properties = appendNew (st_Properties merged) (st_Properties s),
      st_Received = mputAll (st_Received merged) (st_Received s),
      st_ResumeTokens = mputAll (st_ResumeTokens merged) (st_ResumeTokens s),
      st_Clones = mputAll (st_Clones merged) (st_Clones s),
      st_Holds = mputAll (st_Holds merged) (st_Holds s)\<rparr>"

definition MergeStates :: "State list \<Rightarrow> State" where
  "MergeStates states = foldl mergeInto emptyState states"

subsection \<open>Merging\<close>

lemma set_appendNew [simp]: "set (appendNew acc xs) = set acc \<union> set xs"
  by (induction acc xs rule: appendNew.induct) auto

lemma distinct_appendNew: "distinct acc \<Longrightarrow> distinct (appendNew acc xs)"
  by (induction acc xs rule: appendNew.induct) auto

lemma MergeStates_snoc: "MergeStates (ss @ [s]) = mergeInto (MergeStates ss) s"
  by (simp add: MergeStates_def)

lemma MergeStates_objects:
  "set (st_Objects (MergeStates ss)) = (\<Union>s \<in> set ss. set (st_Objects s))
   \<and> distinct (st_Objects (MergeStates ss))"
proof (induction ss rule: rev_induct)
  case Nil
  then show ?case by (simp add: MergeStates_def emptyState_def)
next
  case (snoc s ss)
  then show ?case by (auto simp: MergeStates_snoc mergeInto_def distinct_appendNew)
qed

lemma MergeStates_properties:
  "set (st_Properties (MergeStates ss)) = (\<Union>s \<in> set ss. set (st_Properties s))
   \<and> distinct (st_Properties (MergeStates ss))"
proof (induction ss rule: rev_induct)
  case Nil
  then show ?case by (simp add: MergeStates_def emptyState_def)
next
  case (snoc s ss)
  then show ?case by (auto simp: MergeStates_snoc mergeInto_def distinct_appendNew)
qed

end
