(* ===== verification/Go_Time.thy ===== *)
theory Go_Time
  imports Go_Prelude
begin

section \<open>Instants\<close>

text \<open>
  The parts of Go's package \<open>time\<close> the program uses. An instant is the number of nanoseconds since
  the start of year 1 UTC, so the zero \<open>time.Time\<close> is 0; a duration is an \<open>int64\<close>. Formatting and
  parsing are written for the one layout of snapshot names, \<open>20060102T150405.000000000Z\<close>, as
  \<open>Time.Format\<close> and \<open>time.Parse\<close> treat it: the hour may have one digit, the fraction may follow a comma
  and carry a sign. The main lemma is that a formatted instant of the years 1 to 9999 parses back
  to itself.
\<close>

type_synonym instant = int

abbreviation Second :: int where "Second \<equiv> 1000000000"
abbreviation DayNanos :: int where "DayNanos \<equiv> 86400000000000"

definition IsZero :: "instant \<Rightarrow> bool" where
  "IsZero t = (t = 0)"

text \<open>\<open>t.Sub(u)\<close> saturates.\<close>

definition Sub :: "instant \<Rightarrow> instant \<Rightarrow> int" where
  "Sub t u = max (- MaxInt64 - 1) (min MaxInt64 (t - u))"

definition Unix :: "instant \<Rightarrow> int" where
  "Unix t = t div Second - 62135596800"

subsection \<open>The calendar\<close>

definition isLeap :: "int \<Rightarrow> bool" where
  "isLeap y = (y mod 4 = 0 \<and> (y mod 100 \<noteq> 0 \<or> y mod 400 = 0))"

definition monthLens :: "int \<Rightarrow> int list" where
  "monthLens y = [31, if isLeap y then 29 else 28, 31, 30, 31, 30, 31, 31, 30, 31, 30, 31]"

text \<open>Days from the start of year 1 to the start of year \<open>y\<close>.\<close>

definition daysBefore :: "int \<Rightarrow> int" where
  "daysBefore y = 365 * (y - 1) + (y - 1) div 4 - (y - 1) div 100 + (y - 1) div 400"

definition yearOfDay :: "int \<Rightarrow> int" where
  "yearOfDay d =
     (let r = d mod 146097; y = r div 366 + 1 in
      400 * (d div 146097) + (if daysBefore (y + 1) \<le> r then y + 1 else y))"

fun monthDay :: "int list \<Rightarrow> int \<Rightarrow> int \<Rightarrow> int \<times> int" where
  "monthDay [] m yd = (m, yd + 1)"
| "monthDay (l # ls) m yd = (if yd < l then (m, yd + 1) else monthDay ls (m + 1) (yd - l))"

definition Year :: "instant \<Rightarrow> int" where
  "Year t = yearOfDay (t div DayNanos)"

definition dateOf :: "instant \<Rightarrow> int \<times> int \<times> int" where
  "dateOf t =
     (let d = t div DayNanos; y = yearOfDay d; (m, dd) = monthDay (monthLens y) 1 (d - daysBefore y)
      in (y, m, dd))"

definition Date :: "int \<Rightarrow> int \<Rightarrow> int \<Rightarrow> int \<Rightarrow> int \<Rightarrow> int \<Rightarrow> int \<Rightarrow> instant" where
  "Date y m d hh mm ss ns =
     (daysBefore y + sum_list (take (nat (m - 1)) (monthLens y)) + (d - 1)) * DayNanos
     + (hh * 3600 + mm * 60 + ss) * Second + ns"

subsection \<open>Formatting\<close>

text \<open>\<open>appendInt\<close>: decimal, zero-padded to a width.\<close>

definition padNat :: "nat \<Rightarrow> nat \<Rightarrow> string" where
  "padNat w n = replicate (w - length (showNat n)) (CHR ''0'') @ showNat n"

definition padInt :: "nat \<Rightarrow> int \<Rightarrow> string" where
  "padInt w i = (if i < 0 then CHR ''-'' # padNat w (nat (- i)) else padNat w (nat i))"

definition FormatName :: "instant \<Rightarrow> string" where
  "FormatName t =
     (let (y, m, d) = dateOf t; n = t mod DayNanos; s = n div Second in
      padInt 4 y @ padInt 2 m @ padInt 2 d @ ''T''
      @ padInt 2 (s div 3600) @ padInt 2 (s div 60 mod 60) @ padInt 2 (s mod 60)
      @ ''.'' @ padInt 9 (n mod Second) @ ''Z'')"

subsection \<open>Parsing\<close>

definition getnum :: "bool \<Rightarrow> string \<Rightarrow> (int \<times> string) option" where
  "getnum fixed s =
     (case s of
        a # b # rest \<Rightarrow>
          if \<not> isDigit a then None
          else if \<not> isDigit b then (if fixed then None else Some (int (digitVal a), b # rest))
          else Some (int (10 * digitVal a + digitVal b), rest)
      | [a] \<Rightarrow> if isDigit a \<and> \<not> fixed then Some (int (digitVal a), []) else None
      | [] \<Rightarrow> None)"

text \<open>\<open>atoi\<close>: an optional sign, then digits only.\<close>

definition atoi :: "string \<Rightarrow> int option" where
  "atoi s =
     (let neg = (case s of c # _ \<Rightarrow> c = CHR ''-'' | [] \<Rightarrow> False);
          ds = (case s of c # r \<Rightarrow> (if c = CHR ''-'' \<or> c = CHR ''+'' then r else s) | [] \<Rightarrow> s) in
      if list_all isDigit ds then Some (if neg then - int (digitsVal ds) else int (digitsVal ds)) else None)"

definition getyear :: "string \<Rightarrow> (int \<times> string) option" where
  "getyear s =
     (if length s < 4 \<or> \<not> isDigit (hd s) then None
      else (case atoi (take 4 s) of Some y \<Rightarrow> Some (y, drop 4 s) | None \<Rightarrow> None))"

definition inRange :: "int \<Rightarrow> int \<Rightarrow> (int \<times> string) option \<Rightarrow> (int \<times> string) option" where
  "inRange lo hi r = (case r of Some (v, s) \<Rightarrow> if lo \<le> v \<and> v \<le> hi then Some (v, s) else None | None \<Rightarrow> None)"

definition skipChar :: "char \<Rightarrow> string \<Rightarrow> string option" where
  "skipChar c s = (case s of x # r \<Rightarrow> if x = c then Some r else None | [] \<Rightarrow> None)"

definition getfrac :: "string \<Rightarrow> (int \<times> string) option" where
  "getfrac s =
     (if length s < 10 \<or> (hd s \<noteq> CHR ''.'' \<and> hd s \<noteq> CHR '','') then None
      else (case atoi (take 9 (tl s)) of
              Some ns \<Rightarrow> if ns < 0 then None else Some (ns, drop 10 s)
            | None \<Rightarrow> None))"

definition bindO :: "'a option \<Rightarrow> ('a \<Rightarrow> 'b option) \<Rightarrow> 'b option" where
  "bindO m f = (case m of None \<Rightarrow> None | Some x \<Rightarrow> f x)"

definition ParseName :: "string \<Rightarrow> instant option" where
  "ParseName v =
     bindO (getyear v) (\<lambda>(y, v).
     bindO (inRange 1 12 (getnum True v)) (\<lambda>(m, v).
     bindO (getnum True v) (\<lambda>(d, v).
     bindO (skipChar (CHR ''T'') v) (\<lambda>v.
     bindO (inRange 0 23 (getnum False v)) (\<lambda>(hh, v).
     bindO (inRange 0 59 (getnum True v)) (\<lambda>(mm, v).
     bindO (inRange 0 59 (getnum True v)) (\<lambda>(ss, v).
     bindO (getfrac v) (\<lambda>(ns, v).
     bindO (skipChar (CHR ''Z'') v) (\<lambda>v.
       if v \<noteq> [] \<or> d < 1 \<or> d > monthLens y ! nat (m - 1) then None
       else Some (Date y m d hh mm ss ns))))))))))"

subsection \<open>The calendar is consistent\<close>

lemma div_step: "0 < k \<Longrightarrow> y div k - (y - 1) div k = (if y mod k = 0 then 1 else (0::int))"
proof -
  assume k: "0 < k"
  have e: "y = k * (y div k) + y mod k" by simp
  have r: "0 \<le> y mod k" "y mod k < k" using k by auto
  show ?thesis
  proof (cases "y mod k = 0")
    case True
    then have "y - 1 = k * (y div k - 1) + (k - 1)" using e by (simp add: algebra_simps)
    then have "(y - 1) div k = y div k - 1" using k by (intro int_div_pos_eq [of _ _ _ "k - 1"]) auto
    then show ?thesis using True by simp
  next
    case False
    then have "(y - 1) div k = y div k" using e r by (intro int_div_pos_eq [of _ _ _ "y mod k - 1"]) auto
    then show ?thesis using False by simp
  qed
qed

lemma leap_count:
  "(a \<longrightarrow> b) \<Longrightarrow> (b \<longrightarrow> c) \<Longrightarrow>
   365 + (if c then 1 else 0) - (if b then 1 else 0) + (if a then 1 else 0) = (if c \<and> (\<not> b \<or> a) then 366 else (365 :: int))"
  by (cases a; cases b; cases c) simp_all

lemma daysBefore_Suc: "daysBefore (y + 1) = daysBefore y + (if isLeap y then 366 else 365)"
proof -
  have sub: "y mod 400 = 0 \<longrightarrow> y mod 100 = 0" "y mod 100 = 0 \<longrightarrow> y mod 4 = 0"
    using dvd_trans [of 100 400 y] dvd_trans [of 4 100 y] by (simp_all add: mod_eq_0_iff_dvd)
  have steps: "y div 4 - (y - 1) div 4 = (if y mod 4 = 0 then 1 else 0)"
    "y div 100 - (y - 1) div 100 = (if y mod 100 = 0 then 1 else 0)"
    "y div 400 - (y - 1) div 400 = (if y mod 400 = 0 then 1 else 0)"
    by (rule div_step, simp)+
  have "daysBefore (y + 1) - daysBefore y =
      365 + (y div 4 - (y - 1) div 4) - (y div 100 - (y - 1) div 100) + (y div 400 - (y - 1) div 400)"
    by (simp add: daysBefore_def)
  also have "\<dots> = (if isLeap y then 366 else 365)"
    unfolding steps isLeap_def by (rule leap_count [OF sub])
  finally show ?thesis by simp
qed

lemma monthLens_sum: "sum_list (monthLens y) = (if isLeap y then 366 else 365)"
  by (simp add: monthLens_def)

lemma year_upper:
  "r < 366 * y \<Longrightarrow> y + 1 \<le> 4 * a + 3 \<Longrightarrow> 100 * b \<le> y + 1 \<Longrightarrow> y + 1 \<le> 400 * c + 399 \<Longrightarrow> 1 \<le> y \<Longrightarrow> y \<le> 400 \<Longrightarrow>
   r < 365 * (y + 1) + a - b + (c :: int)"
  by (simp add: algebra_simps)

lemma yearOfDay_bounds: "daysBefore (yearOfDay d) \<le> d \<and> d < daysBefore (yearOfDay d + 1)"
proof -
  define r where "r = d mod 146097"
  define n where "n = d div 146097"
  define y where "y = r div 366 + 1"
  have d: "d = 146097 * n + r" by (simp add: r_def n_def)
  have r: "0 \<le> r" "r < 146097" by (simp_all add: r_def)
  have "366 * (r div 366) + r mod 366 = r" "0 \<le> r mod 366" "r mod 366 < 366" by simp_all
  then have y: "366 * (y - 1) \<le> r" "r < 366 * y" unfolding y_def by simp_all
  then have y': "1 \<le> y" "y \<le> 400" using r by simp_all
  have shift: "daysBefore (400 * n + z) = 146097 * n + daysBefore z" for z
  proof -
    have c: "400 * n + z - 1 = z - 1 + 4 * (100 * n)" "400 * n + z - 1 = z - 1 + 100 * (4 * n)"
      "400 * n + z - 1 = z - 1 + 400 * n" by simp_all
    have e4: "(400 * n + z - 1) div 4 = 100 * n + (z - 1) div 4" unfolding c(1) by (rule div_mult_self2) simp
    have e100: "(400 * n + z - 1) div 100 = 4 * n + (z - 1) div 100" unfolding c(2) by (rule div_mult_self2) simp
    have e400: "(400 * n + z - 1) div 400 = n + (z - 1) div 400" unfolding c(3) by (rule div_mult_self2) simp
    show ?thesis unfolding daysBefore_def e4 e100 e400 by (simp add: algebra_simps)
  qed
  have div4: "4 * ((x::int) div 4) \<le> x" "x \<le> 4 * (x div 4) + 3" for x by presburger+
  have div100: "100 * ((x::int) div 100) \<le> x" "x \<le> 100 * (x div 100) + 99" for x by presburger+
  have div400: "400 * ((x::int) div 400) \<le> x" "x \<le> 400 * (x div 400) + 399" for x by presburger+
  have lin: "366 * x \<le> r \<Longrightarrow> 4 * a \<le> x \<Longrightarrow> 0 \<le> x \<Longrightarrow> c \<le> b \<Longrightarrow> 365 * x + a - b + c \<le> r" for x a b c
    by linarith
  have "(y - 1) div 400 \<le> (y - 1) div 100" using y' by (intro zdiv_mono2) auto
  then have lo: "daysBefore y \<le> r"
    unfolding daysBefore_def using y y' by (intro lin div4) auto
  have "y + 2 - 1 = y + 1" by simp
  then have hi: "r < daysBefore (y + 2)"
    unfolding daysBefore_def using y y' by (simp only:) (intro year_upper div4 div100 div400; simp)
  have "yearOfDay d = 400 * n + (if daysBefore (y + 1) \<le> r then y + 1 else y)"
    by (simp add: yearOfDay_def Let_def r_def n_def y_def)
  then show ?thesis
    using lo hi shift [of y] shift [of "y + 1"] shift [of "y + 2"] d by (auto simp: algebra_simps)
qed

lemma daysBefore_mono: "y \<le> z \<Longrightarrow> daysBefore y \<le> daysBefore z"
proof (induction z rule: int_ge_induct)
  case (step i)
  then show ?case using daysBefore_Suc [of i] by (auto split: if_splits)
qed simp

lemma yearOfDay_unique: "daysBefore y \<le> d \<Longrightarrow> d < daysBefore (y + 1) \<Longrightarrow> yearOfDay d = y"
  using yearOfDay_bounds [of d] daysBefore_mono [of "y + 1" "yearOfDay d"] daysBefore_mono [of "yearOfDay d + 1" y]
  by linarith

lemma monthDay_inverse:
  assumes "monthDay ls m yd = (m', d)" "0 \<le> yd" "yd < sum_list ls" "list_all (\<lambda>l. 0 < l) ls"
  shows "m \<le> m' \<and> m' < m + int (length ls) \<and> 1 \<le> d \<and> d \<le> ls ! nat (m' - m)
    \<and> sum_list (take (nat (m' - m)) ls) + (d - 1) = yd"
  using assms
proof (induction ls m yd rule: monthDay.induct)
  case (2 l ls m yd)
  show ?case
  proof (cases "yd < l")
    case False
    with 2 have IH: "m + 1 \<le> m' \<and> m' < m + 1 + int (length ls) \<and> 1 \<le> d \<and> d \<le> ls ! nat (m' - (m + 1))
      \<and> sum_list (take (nat (m' - (m + 1))) ls) + (d - 1) = yd - l" by simp
    then have "nat (m' - m) = Suc (nat (m' - (m + 1)))" by linarith
    with IH show ?thesis by simp
  qed (use 2 in auto)
qed simp

subsection \<open>Formatted fields read back\<close>

lemma showNat_length: "n < 10 ^ w \<Longrightarrow> 0 < w \<Longrightarrow> length (showNat n) \<le> w"
proof (induction n arbitrary: w rule: showNat.induct)
  case (1 n)
  show ?case
  proof (cases "n < 10")
    case True
    then show ?thesis using 1 by (subst showNat.simps) simp
  next
    case False
    obtain v where w: "w = Suc v" using 1 by (cases w) auto
    have v: "0 < v" using False 1(2) w by (cases v) auto
    have "n div 10 < 10 ^ v" using 1(2) w by (simp add: less_mult_imp_div_less mult.commute)
    then show ?thesis using 1(1) [OF False _ v] False w by (subst showNat.simps) simp
  qed
qed

lemma digitsVal_zeros: "digitsVal (replicate k (CHR ''0'') @ s) = digitsVal s"
  by (induction k) (simp_all add: digitsVal_def digitVal_def)

lemma padInt_digits:
  assumes "0 \<le> i" "i < 10 ^ w" "0 < w"
  shows "length (padInt w i) = w \<and> list_all isDigit (padInt w i) \<and> int (digitsVal (padInt w i)) = i"
proof -
  have "nat i < 10 ^ w" using assms by (simp add: nat_less_iff)
  then have "length (showNat (nat i)) \<le> w" using assms showNat_length by blast
  moreover have "list_all isDigit (replicate k (CHR ''0''))" for k
    by (simp add: list_all_iff isDigit_def)
  ultimately show ?thesis
    using showNat_digits [of "nat i"] assms by (simp add: padInt_def padNat_def digitsVal_zeros)
qed

lemma getnum_padInt: "0 \<le> i \<Longrightarrow> i < 100 \<Longrightarrow> getnum fixed (padInt 2 i @ rest) = Some (i, rest)"
proof -
  assume "0 \<le> i" "i < 100"
  then have p: "length (padInt 2 i) = 2" "list_all isDigit (padInt 2 i)" "int (digitsVal (padInt 2 i)) = i"
    using padInt_digits [of i 2] by simp_all
  then obtain a b where "padInt 2 i = [a, b]"
    by (metis (no_types, lifting) One_nat_def Suc_1 length_0_conv length_Suc_conv)
  then show ?thesis using p by (simp add: getnum_def digitsVal_def)
qed

lemma atoi_digits: "list_all isDigit s \<Longrightarrow> atoi s = Some (int (digitsVal s))"
proof (cases s)
  case (Cons c r)
  assume "list_all isDigit s"
  moreover from this Cons have "c \<noteq> CHR ''-''" "c \<noteq> CHR ''+''" by (auto simp: isDigit_def)
  ultimately show ?thesis using Cons by (simp add: atoi_def)
qed (simp add: atoi_def)

lemma getyear_padInt: "0 \<le> y \<Longrightarrow> y \<le> 9999 \<Longrightarrow> getyear (padInt 4 y @ rest) = Some (y, rest)"
proof -
  assume "0 \<le> y" "y \<le> 9999"
  then have p: "length (padInt 4 y) = 4" "list_all isDigit (padInt 4 y)" "int (digitsVal (padInt 4 y)) = y"
    using padInt_digits [of y 4] by simp_all
  then have "isDigit (hd (padInt 4 y @ rest))" by (cases "padInt 4 y") auto
  then show ?thesis using p atoi_digits [of "padInt 4 y"] by (simp add: getyear_def)
qed

lemma getfrac_padInt: "0 \<le> n \<Longrightarrow> n < Second \<Longrightarrow> getfrac (CHR ''.'' # padInt 9 n @ rest) = Some (n, rest)"
  using padInt_digits [of n 9] atoi_digits [of "padInt 9 n"] by (simp add: getfrac_def)

lemma inRange_Some [simp]: "inRange lo hi (Some (v, s)) = (if lo \<le> v \<and> v \<le> hi then Some (v, s) else None)"
  by (simp add: inRange_def)

lemma bindO_simps [simp]: "bindO None f = None" "bindO (Some x) f = f x"
  by (simp_all add: bindO_def)

lemma skipChar_Cons [simp]: "skipChar c (c # s) = Some s"
  by (simp add: skipChar_def)

lemma inRange_getnum:
  "0 \<le> lo \<Longrightarrow> lo \<le> i \<Longrightarrow> i \<le> hi \<Longrightarrow> hi < 100 \<Longrightarrow> inRange lo hi (getnum fixed (padInt 2 i @ rest)) = Some (i, rest)"
  by (simp add: getnum_padInt)

lemma dateOf_date:
  assumes "dateOf t = (y, m, d)"
  shows "y = Year t \<and> 1 \<le> m \<and> m \<le> 12 \<and> 1 \<le> d \<and> d \<le> monthLens y ! nat (m - 1) \<and> d \<le> 31
    \<and> daysBefore y + sum_list (take (nat (m - 1)) (monthLens y)) + (d - 1) = t div DayNanos"
proof -
  let ?d = "t div DayNanos"
  have y: "y = yearOfDay ?d" and md: "monthDay (monthLens y) 1 (?d - daysBefore y) = (m, d)"
    using assms by (auto simp: dateOf_def Let_def split: prod.splits)
  have "0 \<le> ?d - daysBefore y" "?d - daysBefore y < sum_list (monthLens y)"
    using yearOfDay_bounds [of ?d] daysBefore_Suc [of y] by (auto simp: y monthLens_sum)
  moreover have len: "list_all (\<lambda>l. 0 < l) (monthLens y)" "length (monthLens y) = 12" by (simp_all add: monthLens_def)
  ultimately have inv: "1 \<le> m" "m < 13" "1 \<le> d" "d \<le> monthLens y ! nat (m - 1)"
    "sum_list (take (nat (m - 1)) (monthLens y)) + (d - 1) = ?d - daysBefore y"
    using monthDay_inverse [OF md] by simp_all
  have "l \<le> 31" if "l \<in> set (monthLens y)" for l using that by (auto simp: monthLens_def split: if_splits)
  moreover have "nat (m - 1) < length (monthLens y)" using inv(1,2) len by linarith
  ultimately have "d \<le> 31" using inv(4) by (meson nth_mem order_trans)
  then show ?thesis using inv y by (simp add: Year_def)
qed

lemma clock_fields:
  assumes "dateOf t = (y, m, d)"
  defines "s \<equiv> t mod DayNanos div Second"
  shows "0 \<le> s div 3600" "s div 3600 \<le> 23" "0 \<le> s div 60 mod 60" "s div 60 mod 60 \<le> 59" "0 \<le> s mod 60" "s mod 60 \<le> 59"
    "0 \<le> t mod DayNanos mod Second" "t mod DayNanos mod Second < Second"
    "Date y m d (s div 3600) (s div 60 mod 60) (s mod 60) (t mod DayNanos mod Second) = t"
proof -
  define n where "n = t mod DayNanos"
  have sn: "s = n div Second" by (simp add: s_def n_def)
  note date = dateOf_date [OF assms(1)]
  have n: "0 \<le> n" "n < DayNanos" by (simp_all add: n_def)
  have s: "0 \<le> s" "s < 86400" using n by (auto simp: sn)
  show "0 \<le> s div 3600" "s div 3600 \<le> 23" using s by auto
  show "0 \<le> s div 60 mod 60" "s div 60 mod 60 \<le> 59" "0 \<le> s mod 60" "s mod 60 \<le> 59"
    using pos_mod_bound [of 60 s] pos_mod_bound [of 60 "s div 60"] by simp_all
  show "0 \<le> t mod DayNanos mod Second" "t mod DayNanos mod Second < Second"
    by (rule pos_mod_sign, simp, rule pos_mod_bound, simp)
  have split: "s div 3600 * 3600 + s div 60 mod 60 * 60 + s mod 60 = s"
  proof -
    have "s div 3600 = s div 60 div 60" using zdiv_zmult2_eq [of 60 s 60] by simp
    moreover have "(s div 60 div 60 * 60 + s div 60 mod 60) * 60 + s mod 60 = s" by simp
    ultimately show ?thesis by (simp only: distrib_right mult.assoc)
  qed
  have ns: "s * Second + n mod Second = n" by (simp add: sn)
  have dd: "daysBefore y + sum_list (take (nat (m - 1)) (monthLens y)) + (d - 1) = t div DayNanos" using date by blast
  have "Date y m d (s div 3600) (s div 60 mod 60) (s mod 60) (n mod Second) = t div DayNanos * DayNanos + n"
    unfolding Date_def dd split by (simp only: add.assoc ns)
  also have "\<dots> = t" by (simp add: n_def)
  finally show "Date y m d (s div 3600) (s div 60 mod 60) (s mod 60) (t mod DayNanos mod Second) = t" unfolding n_def .
qed

lemma ParseName_FormatName:
  assumes "0 \<le> Year t" "Year t \<le> 9999"
  shows "ParseName (FormatName t) = Some t"
proof -
  obtain y m d where dt: "dateOf t = (y, m, d)" by (cases "dateOf t") auto
  define n where "n = t mod DayNanos"
  define s where "s = n div Second"
  note date = dateOf_date [OF dt]
  have fmt: "FormatName t = padInt 4 y @ padInt 2 m @ padInt 2 d @ CHR ''T'' # padInt 2 (s div 3600)
      @ padInt 2 (s div 60 mod 60) @ padInt 2 (s mod 60) @ CHR ''.'' # padInt 9 (n mod Second) @ ''Z''"
    by (simp add: FormatName_def dt n_def s_def Let_def)
  have clock: "0 \<le> s div 3600" "s div 3600 \<le> 23" "0 \<le> s div 60 mod 60" "s div 60 mod 60 \<le> 59" "0 \<le> s mod 60" "s mod 60 \<le> 59"
    "0 \<le> n mod Second" "n mod Second < Second" "Date y m d (s div 3600) (s div 60 mod 60) (s mod 60) (n mod Second) = t"
    using clock_fields [OF dt] unfolding n_def s_def .
  have y: "0 \<le> y" "y \<le> 9999" using date assms by auto
  have m: "1 \<le> m" "m \<le> 12" and d: "0 \<le> d" "d < 100" using date by auto
  have c: "(0 :: int) \<le> 1" "(12 :: int) < 100" "(23 :: int) < 100" "(59 :: int) < 100" by simp_all
  note fields = getyear_padInt [OF y] inRange_getnum [OF c(1) m c(2)] getnum_padInt [OF d] inRange_getnum [OF order.refl clock(1,2) c(3)]
    inRange_getnum [OF order.refl clock(3,4) c(4)] inRange_getnum [OF order.refl clock(5,6) c(4)] getfrac_padInt [OF clock(7,8)]
  have nd: "\<not> (d < 1 \<or> d > monthLens y ! nat (m - 1))" using date by auto
  show ?thesis unfolding ParseName_def fmt
    by (simp only: fields bindO_simps prod.case skipChar_Cons clock(9) nd if_False simp_thms)
qed

definition nameChar :: "char \<Rightarrow> bool" where
  "nameChar c = (isDigit c \<or> c \<in> {CHR ''T'', CHR ''.'', CHR ''Z''})"

lemma padInt_nameChars: "0 \<le> i \<Longrightarrow> list_all nameChar (padInt w i)"
  using showNat_digits [of "nat i"] by (auto simp: padInt_def padNat_def list_all_iff nameChar_def isDigit_def)

lemma FormatName_chars:
  assumes "0 \<le> Year t"
  shows "list_all nameChar (FormatName t)"
proof -
  obtain y m d where dt: "dateOf t = (y, m, d)" by (cases "dateOf t") auto
  have "0 \<le> y" "0 \<le> m" "0 \<le> d" using dateOf_date [OF dt] assms by auto
  moreover have "0 \<le> t mod DayNanos div Second" by (simp add: pos_imp_zdiv_nonneg_iff)
  ultimately show ?thesis
    by (simp add: FormatName_def dt Let_def padInt_nameChars pos_imp_zdiv_nonneg_iff nameChar_def)
qed

end
