(* ===== verification/Identity.thy ===== *)
theory Identity
  imports Go_Prelude "HOL-Library.Word"
begin

section \<open>Installation and snapshot identities\<close>

text \<open>
  \<open>internal/identity/identity.go\<close>: the canonical UUIDs that name an installation, a lineage and a snapshot,
  the making of one from sixteen random bytes, and the reading of an identity file's contents. The
  file operations around them are not modelled; the random bytes and the contents are arguments.
\<close>

unbundle bit_operations_syntax

definition isHex :: "char \<Rightarrow> bool" where
  "isHex c = (isDigit c \<or> ((97 :: nat) \<le> of_char c \<and> of_char c \<le> (102 :: nat)))"

text \<open>\<open>uuidPattern\<close>, one predicate for each character.\<close>

definition uuidPattern :: "(char \<Rightarrow> bool) list" where
  "uuidPattern =
     (let h = isHex; dash = (\<lambda>c. c = CHR ''-'') in
      replicate 8 h @ [dash] @ replicate 4 h @ [dash]
      @ [\<lambda>c. (49 :: nat) \<le> of_char c \<and> of_char c \<le> (56 :: nat)] @ replicate 3 h @ [dash]
      @ [\<lambda>c. c \<in> set ''89ab''] @ replicate 3 h @ [dash] @ replicate 12 h)"

definition Valid :: "string \<Rightarrow> bool" where
  "Valid v = list_all2 (\<lambda>p c. p c) uuidPattern v"

definition hexDigit :: "nat \<Rightarrow> char" where
  "hexDigit n = char_of (if n < 10 then 48 + n else 87 + n)"

definition hexByte :: "8 word \<Rightarrow> string" where
  "hexByte b = [hexDigit (unat (drop_bit 4 b)), hexDigit (unat (b AND 0x0f))]"

definition EncodeToString :: "8 word list \<Rightarrow> string" where
  "EncodeToString bs = concat (map hexByte bs)"

text \<open>\<open>New\<close> on the sixteen bytes \<open>rand.Read\<close> has filled in.\<close>

definition New :: "8 word list \<Rightarrow> string" where
  "New bytes =
     (let data = bytes[6 := (bytes ! 6 AND 0x0f) OR 0x40];
          data = data[8 := (data ! 8 AND 0x3f) OR 0x80];
          v = EncodeToString data in
      take 8 v @ ''-'' @ take 4 (drop 8 v) @ ''-'' @ take 4 (drop 12 v) @ ''-'' @ take 4 (drop 16 v)
      @ ''-'' @ drop 20 v)"

text \<open>What \<open>Read\<close> accepts as the contents of an identity file: the first 38 bytes, less one newline.\<close>

definition readIdentity :: "string \<Rightarrow> string result" where
  "readIdentity contents =
     (let data = take 38 contents;
          v = (if HasSuffix data [CHR 0x0A] then butlast data else data) in
      if \<not> Valid v then Inl (Errorf ''invalid installation identity in %s; explicit recovery required'' [])
      else Inr v)"

subsection \<open>Properties\<close>

lemma Valid_length: "Valid v \<Longrightarrow> length v = 36"
  by (auto simp: Valid_def uuidPattern_def Let_def dest: list_all2_lengthD)

lemma Valid_Nil [simp]: "\<not> Valid []"
  using Valid_length by fastforce

lemma hexDigit_hex: "n < 16 \<Longrightarrow> isHex (hexDigit n)"
  by (simp add: isHex_def hexDigit_def isDigit_def of_char_of)

lemma nibble_bounds: "unat (drop_bit 4 b) < 16" "unat (b AND 0x0f) < 16" for b :: "8 word"
proof -
  have "unat b < 2 ^ LENGTH(8)" by (rule unsigned_less)
  then have "unat b < 256" by simp
  moreover have "unat (drop_bit 4 b) = unat b div 16" unfolding unat_drop_bit_eq by (simp add: drop_bit_nat_def)
  ultimately show "unat (drop_bit 4 b) < 16" by simp
  show "unat (b AND 0x0f) < 16"
    using take_bit_nat_less_exp [of 4 "unat b"] by (simp add: unsigned_and_eq take_bit_eq_mask mask_eq_exp_minus_1)
qed

lemma hexByte_hex: "list_all isHex (hexByte b)"
  by (simp add: hexByte_def hexDigit_hex nibble_bounds)

lemma version_nibble: "unat (drop_bit 4 ((b AND 0x0f) OR 0x40 :: 8 word)) = 4"
proof -
  have "drop_bit 4 ((b AND 0x0f) OR 0x40) = (4 :: 8 word)" by (simp add: drop_bit_and drop_bit_or)
  then show ?thesis by simp
qed

lemma variant_nibble: "unat (drop_bit 4 ((b AND 0x3f) OR 0x80 :: 8 word)) \<in> {8, 9, 10, 11}"
proof -
  define x where "x = drop_bit 4 b AND 3"
  have "drop_bit 4 ((b AND 0x3f) OR 0x80) = x OR 8" by (simp add: drop_bit_and drop_bit_or x_def)
  moreover have "x = take_bit 2 (drop_bit 4 b)" by (simp add: x_def take_bit_eq_mask mask_eq_exp_minus_1)
  then have "unat x < 4" using take_bit_nat_less_exp [of 2 "unat (drop_bit 4 b)"] by (simp add: unsigned_take_bit_eq)
  then have "unat x \<in> {0, 1, 2, 3}" by auto
  then have "x \<in> {0, 1, 2, 3}" by (auto simp: word_unat_eq_iff)
  ultimately show ?thesis by auto
qed

lemma length16: "length xs = 16 \<Longrightarrow>
  \<exists>a0 a1 a2 a3 a4 a5 a6 a7 a8 a9 a10 a11 a12 a13 a14 a15.
    xs = [a0, a1, a2, a3, a4, a5, a6, a7, a8, a9, a10, a11, a12, a13, a14, a15]"
  by (simp add: eval_nat_numeral length_Suc_conv) blast

lemma New_canonical:
  assumes "length bytes = 16"
  shows "Valid (New bytes)"
proof -
  obtain a0 a1 a2 a3 a4 a5 a6 a7 a8 a9 a10 a11 a12 a13 a14 a15 where
    b: "bytes = [a0, a1, a2, a3, a4, a5, a6, a7, a8, a9, a10, a11, a12, a13, a14, a15]"
    using length16 [OF assms] by (elim exE)
  let ?b6 = "(a6 AND 0x0f) OR 0x40 :: 8 word" and ?b8 = "(a8 AND 0x3f) OR 0x80 :: 8 word"
  have hex: "isHex (hexDigit (unat (drop_bit 4 b)))" "isHex (hexDigit (unat (b AND 0x0f)))" for b :: "8 word"
    by (simp_all add: hexDigit_hex nibble_bounds)
  have v4: "(49 :: nat) \<le> of_char (hexDigit (unat (drop_bit 4 ?b6)))" "of_char (hexDigit (unat (drop_bit 4 ?b6))) \<le> (56 :: nat)"
    unfolding version_nibble by (simp_all add: hexDigit_def of_char_of)
  have digits: "hexDigit 8 = CHR ''8''" "hexDigit 9 = CHR ''9''" "hexDigit 10 = CHR ''a''" "hexDigit 11 = CHR ''b''"
    by code_simp+
  have v8: "hexDigit (unat (drop_bit 4 ?b8)) \<in> set ''89ab''"
    using variant_nibble [of a8] digits by (elim insertE emptyE) simp_all
  define n where "n b = hexDigit (unat (drop_bit 4 b))" for b :: "8 word"
  define l where "l b = hexDigit (unat (b AND 0x0f))" for b :: "8 word"
  have "New bytes = [n a0, l a0, n a1, l a1, n a2, l a2, n a3, l a3, CHR ''-'', n a4, l a4, n a5, l a5, CHR ''-'',
      n ?b6, l ?b6, n a7, l a7, CHR ''-'', n ?b8, l ?b8, n a9, l a9, CHR ''-'', n a10, l a10, n a11, l a11, n a12, l a12,
      n a13, l a13, n a14, l a14, n a15, l a15]"
    by (simp add: b New_def EncodeToString_def hexByte_def Let_def n_def l_def)
  then show ?thesis
    using hex v4 v8 unfolding Valid_def uuidPattern_def Let_def n_def [symmetric] l_def [symmetric]
    by (simp add: eval_nat_numeral del: set_simps)
qed


text \<open>
  C13: sixteen random bytes, whatever they are, become a canonical UUID that \<open>Valid\<close> accepts: the version
  and variant bits are forced, the case is lower and the dashes are in place.
\<close>

theorem New_Valid: "length bytes = 16 \<Longrightarrow> Valid (New bytes)"
  by (rule New_canonical)

theorem New_Valid_witness: "length (replicate 16 (0xff :: 8 word)) = 16 \<and> Valid (New (replicate 16 0xff))"
  using New_Valid [of "replicate 16 0xff"] by simp

end
