(* ===== verification/Ownership.thy ===== *)
theory Ownership
  imports Zfs_State Go_Time Identity
begin

section \<open>Snapshot ownership\<close>

text \<open>
  \<open>internal/lifecycle/ownership.go\<close>: the contract between a snapshot's name and the metadata stored on
  it. A snapshot is owned when its name carries the prefix, a timestamp and the start of its UUID,
  and its stored lineage and UUID agree with that name. Ownership is what lets the daemon destroy a
  snapshot, so the main properties are that what the daemon creates is owned, and that nothing
  else is.
\<close>

definition StateNamespace :: string where
  "StateNamespace = propertyNamespace @ ''state:''"

definition SnapshotPrefix :: string where "SnapshotPrefix = ''boomerangz-''"
definition LineageProperty :: string where "LineageProperty = StateNamespace @ ''lineage''"
definition SnapshotProperty :: string where "SnapshotProperty = StateNamespace @ ''snapshot''"

record Metadata =
  md_Lineage :: string
  md_Snapshot :: string
  md_Created :: instant

text \<open>\<open>NewMetadata\<close>, given the identity that \<open>NewID\<close> returns.\<close>

definition NewMetadata :: "string result \<Rightarrow> string \<Rightarrow> instant \<Rightarrow> Metadata result" where
  "NewMetadata newID lineage now =
     (if \<not> Valid lineage \<or> IsZero now \<or> Year now < 1 \<or> Year now > 9999
      then Inl (Errorf ''valid lineage and creation time are required'' [])
      else bindE newID (\<lambda>i. Inr \<lparr>md_Lineage = lineage, md_Snapshot = i, md_Created = now\<rparr>))"

definition metadataName :: "Metadata \<Rightarrow> string" where
  "metadataName m =
     (if \<not> Valid (md_Snapshot m) then []
      else SnapshotPrefix @ FormatName (md_Created m) @ ''-'' @ take 8 (md_Snapshot m))"

definition metadataProperties :: "Metadata \<Rightarrow> (string, string) gomap" where
  "metadataProperties m = mput LineageProperty (md_Lineage m) (mput SnapshotProperty (md_Snapshot m) [])"

record Snapshot =
  sn_Name :: string
  sn_GUID :: nat
  sn_Properties :: "Property list"
  sn_Holds :: "string list"
  sn_Clones :: "string list"
  sn_ResumeRequired :: bool

text \<open>The loop that collects the two stored values.\<close>

fun ownershipValues :: "string \<Rightarrow> (string, string) gomap \<Rightarrow> Property list \<Rightarrow> (string, string) gomap result" where
  "ownershipValues name vals [] = Inr vals"
| "ownershipValues name vals (p # ps) =
     (if p_Name p \<noteq> LineageProperty \<and> p_Name p \<noteq> SnapshotProperty then ownershipValues name vals ps
      else if p_Dataset p \<noteq> name \<or> (p_Source p \<noteq> SourceLocal \<and> p_Source p \<noteq> SourceReceived)
      then Inl (Errorf ''ownership metadata is not stored on snapshot'' [])
      else if mget vals (p_Name p) \<noteq> None then Inl (Errorf ''ambiguous ownership metadata'' [])
      else ownershipValues name (mput (p_Name p) (p_Value p) vals) ps)"

definition Ownership :: "Snapshot \<Rightarrow> string \<Rightarrow> Metadata result" where
  "Ownership snapshot lineage =
     (if \<not> Valid lineage \<or> sn_GUID snapshot = 0
      then Inl (Errorf ''valid lineage and snapshot GUID are required'' [])
      else
        (let (dataset, component, exists) = Cut (sn_Name snapshot) (CHR ''@'') in
         if \<not> exists \<or> validateDataset dataset \<noteq> None \<or> \<not> HasPrefix component SnapshotPrefix
         then Inl (Errorf ''snapshot name does not establish ownership'' [])
         else bindE (ownershipValues (sn_Name snapshot) [] (sn_Properties snapshot)) (\<lambda>vals.
           let storedLineage = mindex vals LineageProperty; storedID = mindex vals SnapshotProperty in
           if storedLineage \<noteq> lineage \<or> \<not> Valid storedID
           then Inl (Errorf ''missing or mismatched ownership UUIDs'' [])
           else
             (let stamp = cutBefore (TrimPrefix component SnapshotPrefix) (CHR ''-'') in
              case ParseName stamp of
                None \<Rightarrow> Inl (Errorf ''invalid ownership creation time'' [])
              | Some created \<Rightarrow>
                  if IsZero created \<or> Year created < 1 \<or> Year created > 9999
                  then Inl (Errorf ''invalid ownership creation time'' [])
                  else
                    (let m = \<lparr>md_Lineage = storedLineage, md_Snapshot = storedID, md_Created = created\<rparr> in
                     if component \<noteq> metadataName m
                     then Inl (Errorf ''snapshot name does not match its metadata'' [])
                     else Inr m)))))"

fun adoptProperties :: "Snapshot \<Rightarrow> string \<Rightarrow> Property list \<Rightarrow> string result" where
  "adoptProperties snapshot lineage [] = Inr lineage"
| "adoptProperties snapshot lineage (p # ps) =
     (if p_Name p \<noteq> LineageProperty \<or> \<not> is_ok (Ownership snapshot (p_Value p))
      then adoptProperties snapshot lineage ps
      else if lineage \<noteq> [] \<and> lineage \<noteq> p_Value p
      then Inl (Errorf ''multiple candidate lineages; explicit resolution is required'' [])
      else adoptProperties snapshot (p_Value p) ps)"

fun adoptSnapshots :: "string \<Rightarrow> Snapshot list \<Rightarrow> string result" where
  "adoptSnapshots lineage [] = Inr lineage"
| "adoptSnapshots lineage (s # ss) =
     bindE (adoptProperties s lineage (sn_Properties s)) (\<lambda>l. adoptSnapshots l ss)"

definition Adopt :: "Snapshot list \<Rightarrow> string result" where
  "Adopt snapshots =
     bindE (adoptSnapshots [] snapshots) (\<lambda>lineage.
       if lineage = [] then Inl (Errorf ''no provable snapshot lineage found'' []) else Inr lineage)"

subsection \<open>What ownership proves\<close>

definition ownershipRows :: "Property list \<Rightarrow> Property list" where
  "ownershipRows ps = filter (\<lambda>p. p_Name p = LineageProperty \<or> p_Name p = SnapshotProperty) ps"

definition storedOn :: "string \<Rightarrow> Property \<Rightarrow> bool" where
  "storedOn name p = (p_Dataset p = name \<and> (p_Source p = SourceLocal \<or> p_Source p = SourceReceived))"

lemma ownershipValues_Inr:
  "ownershipValues name vals ps = Inr v \<longleftrightarrow>
     list_all (storedOn name) (ownershipRows ps) \<and> distinct (map p_Name (ownershipRows ps))
     \<and> (\<forall>p \<in> set (ownershipRows ps). mget vals (p_Name p) = None)
     \<and> v = fold (\<lambda>p. mput (p_Name p) (p_Value p)) (ownershipRows ps) vals"
proof (induction name vals ps rule: ownershipValues.induct)
  case (1 name vals)
  then show ?case by (auto simp: ownershipRows_def)
next
  case (2 name vals p ps)
  show ?case
  proof (cases "p_Name p \<noteq> LineageProperty \<and> p_Name p \<noteq> SnapshotProperty")
    case True
    then show ?thesis using 2(1) by (simp add: ownershipRows_def)
  next
    case False
    then have rows: "ownershipRows (p # ps) = p # ownershipRows ps" by (auto simp: ownershipRows_def)
    have skip: "(p_Name p \<noteq> LineageProperty \<and> p_Name p \<noteq> SnapshotProperty) = False" using False by blast
    have stored: "(p_Dataset p \<noteq> name \<or> (p_Source p \<noteq> SourceLocal \<and> p_Source p \<noteq> SourceReceived)) = (\<not> storedOn name p)"
      by (simp add: storedOn_def)
    note step = ownershipValues.simps(2) [of name vals p ps, unfolded skip stored if_False]
    show ?thesis
    proof (cases "storedOn name p \<and> mget vals (p_Name p) = None")
      case True
      then show ?thesis using 2(2) [unfolded skip stored] unfolding rows step by (auto simp: image_iff)
    next
      case nok: False
      then show ?thesis unfolding rows step by auto
    qed
  qed
qed

lemma mget_fold_rows:
  assumes "distinct (map p_Name rows)"
  shows "mget (fold (\<lambda>p. mput (p_Name p) (p_Value p)) rows []) k = Some x \<longleftrightarrow> (\<exists>p \<in> set rows. p_Name p = k \<and> p_Value p = x)"
proof (cases "k \<in> p_Name ` set rows")
  case True
  then obtain p where p: "p \<in> set rows" "p_Name p = k" by auto
  have "inj_on p_Name (set rows)" using assms by (simp add: distinct_map)
  then show ?thesis
    using gm.get_fold_put [of "[]" p_Name rows p p_Value] p by (auto dest: inj_onD)
next
  case False
  then show ?thesis using gm.get_fold_put_other [of "[]" k p_Name rows p_Value] by auto
qed

lemma cutStamp:
  assumes "0 \<le> Year t"
  shows "cutBefore (TrimPrefix (SnapshotPrefix @ FormatName t @ CHR ''-'' # s) SnapshotPrefix) (CHR ''-'') = FormatName t"
proof -
  have "CHR ''-'' \<notin> set (FormatName t)"
    using FormatName_chars [OF assms] by (auto simp: list_all_iff nameChar_def isDigit_def)
  then show ?thesis by (simp add: cutBefore_append)
qed

definition ownedBy :: "Snapshot \<Rightarrow> string \<Rightarrow> Metadata \<Rightarrow> bool" where
  "ownedBy snapshot lineage m =
     (Valid lineage \<and> md_Lineage m = lineage \<and> Valid (md_Snapshot m)
      \<and> md_Created m \<noteq> 0 \<and> 1 \<le> Year (md_Created m) \<and> Year (md_Created m) \<le> 9999
      \<and> sn_GUID snapshot \<noteq> 0
      \<and> (\<exists>d. validDataset d \<and> sn_Name snapshot = d @ CHR ''@'' # metadataName m)
      \<and> list_all (storedOn (sn_Name snapshot)) (ownershipRows (sn_Properties snapshot))
      \<and> distinct (map p_Name (ownershipRows (sn_Properties snapshot)))
      \<and> (\<exists>p \<in> set (sn_Properties snapshot). p_Name p = LineageProperty \<and> p_Value p = lineage)
      \<and> (\<exists>p \<in> set (sn_Properties snapshot). p_Name p = SnapshotProperty \<and> p_Value p = md_Snapshot m))"

lemma ownershipRows_iff: "p \<in> set (ownershipRows ps) \<longleftrightarrow> p \<in> set ps \<and> (p_Name p = LineageProperty \<or> p_Name p = SnapshotProperty)"
  by (auto simp: ownershipRows_def)

lemma ownedBy_Ownership:
  assumes "ownedBy snapshot lineage m"
  shows "Ownership snapshot lineage = Inr m"
proof -
  obtain d where d: "validDataset d" "sn_Name snapshot = d @ CHR ''@'' # metadataName m"
    using assms by (auto simp: ownedBy_def)
  define rows where "rows = ownershipRows (sn_Properties snapshot)"
  define vals where "vals = fold (\<lambda>p. mput (p_Name p) (p_Value p)) rows []"
  have dist: "distinct (map p_Name rows)" using assms by (simp add: ownedBy_def rows_def)
  have v: "ownershipValues (sn_Name snapshot) [] (sn_Properties snapshot) = Inr vals"
    using assms by (simp add: ownershipValues_Inr ownedBy_def rows_def vals_def)
  have L: "mindex vals LineageProperty = lineage" and S: "mindex vals SnapshotProperty = md_Snapshot m"
    using assms mget_fold_rows [OF dist, of LineageProperty lineage] mget_fold_rows [OF dist, of SnapshotProperty "md_Snapshot m"]
    by (auto simp: mindex_def vals_def rows_def ownershipRows_iff ownedBy_def)
  have cut: "Cut (sn_Name snapshot) (CHR ''@'') = (d, metadataName m, True)"
    using d validDataset_chars by (simp add: Cut_append)
  have name: "metadataName m = SnapshotPrefix @ FormatName (md_Created m) @ CHR ''-'' # take 8 (md_Snapshot m)"
    using assms by (simp add: metadataName_def ownedBy_def)
  then have stamp: "cutBefore (TrimPrefix (metadataName m) SnapshotPrefix) (CHR ''-'') = FormatName (md_Created m)"
    using cutStamp [of "md_Created m"] assms by (simp add: ownedBy_def)
  have "ParseName (FormatName (md_Created m)) = Some (md_Created m)"
    using assms by (intro ParseName_FormatName) (auto simp: ownedBy_def)
  moreover have "HasPrefix (metadataName m) SnapshotPrefix" by (simp add: name)
  moreover have "\<lparr>md_Lineage = lineage, md_Snapshot = md_Snapshot m, md_Created = md_Created m\<rparr> = m"
    using assms by (simp add: ownedBy_def)
  moreover have "Valid lineage" "sn_GUID snapshot \<noteq> 0" "Valid (md_Snapshot m)" "\<not> (md_Created m = 0 \<or> Year (md_Created m) < 1 \<or> Year (md_Created m) > 9999)"
    using assms by (auto simp: ownedBy_def)
  ultimately show ?thesis
    unfolding Ownership_def cut prod.case v bindE_simps Let_def L S stamp IsZero_def using d(1) by simp
qed

lemma Ownership_ownedBy:
  assumes "Ownership snapshot lineage = Inr m"
  shows "ownedBy snapshot lineage m"
proof -
  have 1: "Valid lineage" "sn_GUID snapshot \<noteq> 0"
    using assms by (auto simp: Ownership_def split: if_splits)
  obtain d c ok where cut: "Cut (sn_Name snapshot) (CHR ''@'') = (d, c, ok)" by (cases "Cut (sn_Name snapshot) (CHR ''@'')") auto
  have 2: "ok" "validDataset d"
    using assms 1 unfolding Ownership_def cut by (auto split: if_splits)
  have at: "CHR ''@'' \<in> set (sn_Name snapshot)" using cut 2 by (simp add: Cut_def)
  have name: "sn_Name snapshot = d @ CHR ''@'' # c" using Cut_present [OF at] cut by auto
  obtain vals where v: "ownershipValues (sn_Name snapshot) [] (sn_Properties snapshot) = Inr vals"
    using assms 1 2 unfolding Ownership_def cut by (auto simp: result_iffs split: if_splits)
  define rows where "rows = ownershipRows (sn_Properties snapshot)"
  have rows: "list_all (storedOn (sn_Name snapshot)) rows" "distinct (map p_Name rows)"
    "vals = fold (\<lambda>p. mput (p_Name p) (p_Value p)) rows []"
    using v by (simp_all add: ownershipValues_Inr rows_def)
  have 3: "mindex vals LineageProperty = lineage" "Valid (mindex vals SnapshotProperty)"
    using assms 1 2 v unfolding Ownership_def cut by (auto simp: Let_def split: if_splits)
  obtain t where m: "m = \<lparr>md_Lineage = lineage, md_Snapshot = mindex vals SnapshotProperty, md_Created = t\<rparr>"
    and t: "t \<noteq> 0" "1 \<le> Year t" "Year t \<le> 9999" and c: "c = metadataName m"
    using assms 1 2 v 3 unfolding Ownership_def cut
    by (auto simp: Let_def IsZero_def split: if_splits option.splits)
  have "lineage \<noteq> []" "mindex vals SnapshotProperty \<noteq> []" using 1 3 by auto
  then have "mget vals LineageProperty = Some lineage" "mget vals SnapshotProperty = Some (mindex vals SnapshotProperty)"
    using 3 by (auto simp: mindex_def split: option.splits)
  then have "\<exists>p \<in> set rows. p_Name p = LineageProperty \<and> p_Value p = lineage"
    "\<exists>p \<in> set rows. p_Name p = SnapshotProperty \<and> p_Value p = mindex vals SnapshotProperty"
    unfolding rows(3) mget_fold_rows [OF rows(2)] by blast+
  then have "\<exists>p \<in> set (sn_Properties snapshot). p_Name p = LineageProperty \<and> p_Value p = lineage"
    "\<exists>p \<in> set (sn_Properties snapshot). p_Name p = SnapshotProperty \<and> p_Value p = md_Snapshot m"
    unfolding m by (auto simp: rows_def ownershipRows_iff)
  then show ?thesis
    unfolding ownedBy_def using 1 2 3 m t c name rows(1,2) by (simp add: rows_def)
qed

lemma Ownership_iff: "Ownership snapshot lineage = Inr m \<longleftrightarrow> ownedBy snapshot lineage m"
  using Ownership_ownedBy ownedBy_Ownership by blast

text \<open>
  C3: a snapshot is owned by a lineage, with given metadata, exactly when its name is a valid dataset
  followed by the name that metadata spells, its GUID is known, and the lineage and the snapshot
  UUID are each stored once, on the snapshot itself and nowhere else. So neither a foreign snapshot, nor one
  with a copied name, nor one whose values are inherited, is ever taken as the daemon's own.
\<close>

theorem Ownership_exact:
  "Ownership snapshot lineage = Inr m \<longleftrightarrow>
     Valid lineage \<and> md_Lineage m = lineage \<and> Valid (md_Snapshot m)
     \<and> md_Created m \<noteq> 0 \<and> 1 \<le> Year (md_Created m) \<and> Year (md_Created m) \<le> 9999
     \<and> sn_GUID snapshot \<noteq> 0
     \<and> (\<exists>d. validDataset d \<and> sn_Name snapshot = d @ CHR ''@'' # metadataName m)
     \<and> list_all (storedOn (sn_Name snapshot)) (ownershipRows (sn_Properties snapshot))
     \<and> distinct (map p_Name (ownershipRows (sn_Properties snapshot)))
     \<and> (\<exists>p \<in> set (sn_Properties snapshot). p_Name p = LineageProperty \<and> p_Value p = lineage)
     \<and> (\<exists>p \<in> set (sn_Properties snapshot). p_Name p = SnapshotProperty \<and> p_Value p = md_Snapshot m)"
  unfolding Ownership_iff ownedBy_def ..

lemma metadataName_component:
  assumes "Valid (md_Snapshot m)" "0 \<le> Year (md_Created m)"
  shows "metadataName m \<noteq> []" "\<not> hasSpaceOrControl (metadataName m)"
    "set (metadataName m) \<inter> {CHR ''/'', CHR ''@'', CHR ''#'', CHR '','', CHR ''%''} = {}"
proof -
  define ok where "ok c \<longleftrightarrow> isASCII c \<and> \<not> IsSpace (of_char c) \<and> \<not> IsControl (of_char c)
     \<and> c \<notin> {CHR ''/'', CHR ''@'', CHR ''#'', CHR '','', CHR ''%''}" for c
  have "list_all2 (\<lambda>p c. p c) (take 8 uuidPattern) (take 8 (md_Snapshot m))"
    using assms(1) by (simp add: Valid_def list_all2_takeI)
  moreover have "take 8 uuidPattern = replicate 8 isHex" by (simp add: uuidPattern_def Let_def)
  ultimately have hex: "list_all isHex (take 8 (md_Snapshot m))"
    by (auto simp: list_all2_conv_all_nth list_all_length)
  have mono: "isHex c \<Longrightarrow> ok c" "nameChar c \<Longrightarrow> ok c" for c
    by (auto simp: ok_def isHex_def isDigit_def nameChar_def isASCII_def IsSpace_def IsControl_def)
  have "list_all ok (take 8 (md_Snapshot m))" "list_all ok (FormatName (md_Created m))"
    using hex FormatName_chars [OF assms(2)] mono by (auto simp: list_all_iff)
  moreover have "list_all ok (SnapshotPrefix @ ''-'')"
    by (simp add: ok_def SnapshotPrefix_def isASCII_def IsSpace_def IsControl_def)
  ultimately have ok: "list_all ok (metadataName m)"
    using assms by (simp add: metadataName_def)
  show "metadataName m \<noteq> []" using assms by (simp add: metadataName_def SnapshotPrefix_def)
  have "runes (metadataName m) = map (\<lambda>c. (of_char c, [c])) (metadataName m)"
    using ok by (intro runes_ASCII) (auto simp: list_all_iff ok_def)
  then show "\<not> hasSpaceOrControl (metadataName m)"
    using ok by (auto simp: hasSpaceOrControl_def list_ex_iff list_all_iff ok_def)
  show "set (metadataName m) \<inter> {CHR ''/'', CHR ''@'', CHR ''#'', CHR '','', CHR ''%''} = {}"
    using ok by (auto simp: list_all_iff ok_def)
qed

lemma metadataProperties_eq:
  "metadataProperties m = [(LineageProperty, md_Lineage m), (SnapshotProperty, md_Snapshot m)]"
proof -
  have "LineageProperty < SnapshotProperty"
    by (simp add: LineageProperty_def SnapshotProperty_def StateNamespace_def propertyNamespace_def less_list_code less_char_def)
  then show ?thesis by (simp add: metadataProperties_def)
qed

text \<open>
  C4: metadata the daemon makes names a snapshot that is a valid ZFS snapshot name on every
  valid dataset, and a snapshot created with that name and those properties is recognised as owned,
  with the very same metadata, whatever other properties, holds or clones it has.
\<close>

theorem created_snapshot_owned:
  assumes "NewMetadata (Inr (New bytes)) lineage now = Inr m" and "length bytes = 16"
    and "validDataset d" and "sn_Name snapshot = d @ CHR ''@'' # metadataName m" and "sn_GUID snapshot \<noteq> 0"
    and "ownershipRows (sn_Properties snapshot) =
           map (\<lambda>(k, v). \<lparr>p_Dataset = sn_Name snapshot, p_Name = k, p_Value = v, p_Source = SourceLocal\<rparr>) (metadataProperties m)"
  shows "validateSnapshot (sn_Name snapshot) = None \<and> Ownership snapshot lineage = Inr m"
proof -
  have m: "md_Lineage m = lineage" "md_Snapshot m = New bytes" "md_Created m = now" "Valid lineage"
    and now: "now \<noteq> 0" "1 \<le> Year now" "Year now \<le> 9999"
    using assms(1) by (auto simp: NewMetadata_def IsZero_def split: if_splits)
  have id: "Valid (md_Snapshot m)" using New_canonical assms(2) m by simp
  have "metadataProperties m = [(LineageProperty, lineage), (SnapshotProperty, md_Snapshot m)]"
    using m by (simp add: metadataProperties_eq)
  then have rows: "ownershipRows (sn_Properties snapshot) =
     [\<lparr>p_Dataset = sn_Name snapshot, p_Name = LineageProperty, p_Value = lineage, p_Source = SourceLocal\<rparr>,
      \<lparr>p_Dataset = sn_Name snapshot, p_Name = SnapshotProperty, p_Value = md_Snapshot m, p_Source = SourceLocal\<rparr>]"
    using assms(6) by simp
  have ne: "LineageProperty \<noteq> SnapshotProperty" by (simp add: LineageProperty_def SnapshotProperty_def)
  have mem: "p \<in> set (sn_Properties snapshot)" if "p \<in> set (ownershipRows (sn_Properties snapshot))" for p
    using that by (simp add: ownershipRows_iff)
  have "\<exists>p \<in> set (ownershipRows (sn_Properties snapshot)). p_Name p = LineageProperty \<and> p_Value p = lineage"
    "\<exists>p \<in> set (ownershipRows (sn_Properties snapshot)). p_Name p = SnapshotProperty \<and> p_Value p = md_Snapshot m"
    by (simp_all add: rows)
  then have "\<exists>p \<in> set (sn_Properties snapshot). p_Name p = LineageProperty \<and> p_Value p = lineage"
    "\<exists>p \<in> set (sn_Properties snapshot). p_Name p = SnapshotProperty \<and> p_Value p = md_Snapshot m"
    using mem by blast+
  then have "ownedBy snapshot lineage m"
    unfolding ownedBy_def using m now id assms(3-5) ne by (simp add: rows storedOn_def)
  moreover have "validateSnapshot (sn_Name snapshot) = None"
    unfolding validateSnapshot_iff using assms(3,4) metadataName_component [OF id] m now by auto
  ultimately show ?thesis using ownedBy_Ownership by blast
qed

theorem created_snapshot_owned_witness:
  "\<exists>m snapshot. NewMetadata (Inr (New (replicate 16 0))) (New (replicate 16 1)) Second = Inr m
     \<and> sn_Name snapshot = ''tank@'' @ metadataName m \<and> Ownership snapshot (New (replicate 16 1)) = Inr m"
proof -
  let ?b = "replicate 16 0 :: 8 word list" and ?l = "New (replicate 16 1)"
  let ?m = "\<lparr>md_Lineage = ?l, md_Snapshot = New ?b, md_Created = Second\<rparr>"
  let ?rows = "map (\<lambda>(k, v). \<lparr>p_Dataset = ''tank@'' @ metadataName ?m, p_Name = k, p_Value = v, p_Source = SourceLocal\<rparr>) (metadataProperties ?m)"
  let ?s = "\<lparr>sn_Name = ''tank@'' @ metadataName ?m, sn_GUID = 7, sn_Properties = ?rows, sn_Holds = [], sn_Clones = [], sn_ResumeRequired = False\<rparr>"
  have m: "NewMetadata (Inr (New ?b)) ?l Second = Inr ?m" by code_simp
  have t: "validDataset ''tank''" by code_simp
  have "ownershipRows ?rows = ?rows" by (simp add: ownershipRows_def metadataProperties_eq)
  then have "Ownership ?s ?l = Inr ?m"
    by (intro conjunct2 [OF created_snapshot_owned [OF m _ t]]) simp_all
  moreover have "sn_Name ?s = ''tank@'' @ metadataName ?m" by simp
  ultimately show ?thesis using m by (intro exI conjI)
qed

lemma owned_lineage_stored:
  "is_ok (Ownership s l) \<Longrightarrow> l \<noteq> [] \<and> (\<exists>p \<in> set (sn_Properties s). p_Name p = LineageProperty \<and> p_Value p = l)"
  by (auto simp: is_ok_def Ownership_iff ownedBy_def split: sum.splits)

lemma adoptProperties_Inr:
  "adoptProperties s l ps = Inr l' \<longleftrightarrow>
     (let C = {v. \<exists>p \<in> set ps. p_Name p = LineageProperty \<and> p_Value p = v \<and> is_ok (Ownership s v)} in
      if C = {} then l' = l else C = {l'} \<and> (l = [] \<or> l = l'))"
proof (induction s l ps rule: adoptProperties.induct)
  case (1 s l)
  then show ?case by auto
next
  case (2 s l p ps)
  let ?C = "\<lambda>ps. {v. \<exists>p \<in> set ps. p_Name p = LineageProperty \<and> p_Value p = v \<and> is_ok (Ownership s v)}"
  show ?case
  proof (cases "p_Name p \<noteq> LineageProperty \<or> \<not> is_ok (Ownership s (p_Value p))")
    case True
    then have "?C (p # ps) = ?C ps" by auto
    then show ?thesis using 2(1) [OF True] True by (simp add: Let_def)
  next
    case False
    then have C: "?C (p # ps) = insert (p_Value p) (?C ps)" by auto
    have ne: "p_Value p \<noteq> []" using False owned_lineage_stored by blast
    show ?thesis
    proof (cases "l \<noteq> [] \<and> l \<noteq> p_Value p")
      case True
      then show ?thesis using False C ne by (auto simp: Let_def)
    next
      case ok: False
      then show ?thesis using 2(2) [OF False ok] False ok ne unfolding Let_def C by (auto split: if_splits)
    qed
  qed
qed

lemma unique_union:
  assumes "z \<notin> C \<union> D"
  shows "(\<exists>x. (if C = {} then x = l else C = {x} \<and> (l = z \<or> l = x)) \<and> (if D = {} then l' = x else D = {l'} \<and> (x = z \<or> x = l')))
    \<longleftrightarrow> (if C \<union> D = {} then l' = l else C \<union> D = {l'} \<and> (l = z \<or> l = l'))"
proof (cases "C = {}")
  case False
  show ?thesis
  proof (cases "D = {}")
    case True
    then show ?thesis using False by auto
  next
    case D: False
    have "C \<union> D = {l'} \<longleftrightarrow> C = {l'} \<and> D = {l'}" using False D by (auto simp: Un_singleton_iff)
    moreover have "C = {x} \<Longrightarrow> x \<noteq> z" for x using assms by auto
    ultimately show ?thesis using False D by auto
  qed
qed auto

lemma adoptSnapshots_Inr:
  "adoptSnapshots l ss = Inr l' \<longleftrightarrow>
     (let C = {v. \<exists>s \<in> set ss. is_ok (Ownership s v)} in
      if C = {} then l' = l else C = {l'} \<and> (l = [] \<or> l = l'))"
proof (induction l ss rule: adoptSnapshots.induct)
  case (1 l)
  then show ?case by auto
next
  case (2 l s ss)
  let ?C = "\<lambda>ss. {v. \<exists>s \<in> set ss. is_ok (Ownership s v)}" and ?O = "{v. is_ok (Ownership s v)}"
  have O: "{v. \<exists>p \<in> set (sn_Properties s). p_Name p = LineageProperty \<and> p_Value p = v \<and> is_ok (Ownership s v)} = ?O"
    using owned_lineage_stored by blast
  have C: "?C (s # ss) = ?O \<union> ?C ss" by auto
  have "adoptSnapshots l (s # ss) = Inr l' \<longleftrightarrow>
      (\<exists>x. (if ?O = {} then x = l else ?O = {x} \<and> (l = [] \<or> l = x))
        \<and> (if ?C ss = {} then l' = x else ?C ss = {l'} \<and> (x = [] \<or> x = l')))"
    using 2 by (simp add: result_iffs adoptProperties_Inr Let_def O)
  also have "\<dots> \<longleftrightarrow> (if ?O \<union> ?C ss = {} then l' = l else ?O \<union> ?C ss = {l'} \<and> (l = [] \<or> l = l'))"
    by (rule unique_union) (use owned_lineage_stored in blast)
  finally show ?case unfolding C Let_def .
qed

text \<open>
  C10: adoption names a lineage exactly when some snapshot is owned by it and every owned snapshot
  is owned by that same lineage; candidates that disagree are refused, never chosen between.
\<close>

theorem Adopt_unique:
  "Adopt snapshots = Inr lineage \<longleftrightarrow> {l. \<exists>s. s \<in> set snapshots \<and> is_ok (Ownership s l)} = {lineage}"
proof -
  define C where "C = {l. \<exists>s \<in> set snapshots. is_ok (Ownership s l)}"
  have "[] \<notin> C" using owned_lineage_stored by (auto simp: C_def)
  then have ne: "C = {x} \<Longrightarrow> x \<noteq> []" for x by auto
  have step: "adoptSnapshots [] snapshots = Inr x \<longleftrightarrow> (if C = {} then x = [] else C = {x})" for x
    by (simp add: adoptSnapshots_Inr Let_def C_def)
  have "Adopt snapshots = Inr lineage \<longleftrightarrow> C = {lineage}"
  proof (cases "C = {}")
    case True
    then show ?thesis by (simp add: Adopt_def result_iffs step)
  next
    case False
    have "Adopt snapshots = Inr lineage \<longleftrightarrow> (\<exists>x. C = {x} \<and> x \<noteq> [] \<and> x = lineage)"
      unfolding Adopt_def result_iffs step using False by (intro ex_cong1) simp
    then show ?thesis using ne by blast
  qed
  then show ?thesis by (simp add: C_def Bex_def)
qed

end
