(* ===== verification/Policy_Grid.thy ===== *)
theory Policy_Grid
  imports Go_Prelude
begin

section \<open>Retention grids\<close>

text \<open>
  \<open>internal/policy/grid.go\<close>: the grammar of a snapshot grid such as \<open>12x5m,24x1h,14x1d\<close>, its tiers
  sorted and merged, its canonical text and its horizon. Durations are nanoseconds in an \<open>int64\<close>; the
  products and sums are written with their wrap and shown never to wrap.
\<close>

subsection \<open>Definitions\<close>

definition DefaultGrid :: string where
  "DefaultGrid = ''12x5m,24x1h,14x1d''"

record Bucket =
  bk_Count :: int
  bk_Span :: int

record Grid =
  g_buckets :: "Bucket list"
  g_text :: string
  g_horizon :: int

abbreviation Minute :: int where "Minute \<equiv> 60000000000"

definition gridUnits :: "(string \<times> int) list" where
  "gridUnits =
     [(''y'', 365 * 24 * 60 * Minute), (''mo'', 30 * 24 * 60 * Minute), (''w'', 7 * 24 * 60 * Minute),
      (''d'', 24 * 60 * Minute), (''h'', 60 * Minute), (''m'', Minute)]"

text \<open>\<open>bucketPattern\<close>: digits, an x, digits, a unit, and nothing else.\<close>

definition matchBucket :: "string \<Rightarrow> (string \<times> string \<times> string) option" where
  "matchBucket s =
     (let d1 = takeWhile isDigit s in
      case dropWhile isDigit s of
        x # s2 \<Rightarrow>
          (let d2 = takeWhile isDigit s2; u = dropWhile isDigit s2 in
           if d1 \<noteq> [] \<and> x = CHR ''x'' \<and> d2 \<noteq> [] \<and> u \<in> {''mo'', ''m'', ''h'', ''d'', ''w'', ''y''}
           then Some (d1, d2, u) else None)
      | [] \<Rightarrow> None)"

definition ParseInt :: "nat \<Rightarrow> string \<Rightarrow> int option" where
  "ParseInt bits s =
     (case parseNat s of Some n \<Rightarrow> if n < 2 ^ (bits - 1) then Some (int n) else None | None \<Rightarrow> None)"

definition unitSpan :: "string \<Rightarrow> int" where
  "unitSpan u = (case map_of gridUnits u of Some span \<Rightarrow> span | None \<Rightarrow> 0)"

definition parseBucket :: "int \<Rightarrow> string \<Rightarrow> Bucket result" where
  "parseBucket horizon part =
     (case matchBucket (TrimSpace part) of
        None \<Rightarrow> Inl (Errorf ''invalid grid bucket %q'' [Arg part])
      | Some (d1, d2, u) \<Rightarrow>
          (case ParseInt 32 d1 of
             None \<Rightarrow> Inl (Errorf ''invalid grid count %q'' [Arg d1])
           | Some count \<Rightarrow>
               if count \<le> 0 then Inl (Errorf ''invalid grid count %q'' [Arg d1])
               else (case ParseInt 64 d2 of
                   None \<Rightarrow> Inl (Errorf ''invalid grid duration %q'' [Arg (d2 @ u)])
                 | Some amount \<Rightarrow>
                     if amount \<le> 0 \<or> amount > MaxInt64 div unitSpan u
                     then Inl (Errorf ''invalid grid duration %q'' [Arg (d2 @ u)])
                     else
                       (let span = i64 (amount * unitSpan u) in
                        if count > i64 (MaxInt64 - horizon) div span
                        then Inl (Errorf ''grid horizon overflows time.Duration'' [])
                        else Inr \<lparr>bk_Count = count, bk_Span = span\<rparr>))))"

fun parseBuckets :: "int \<Rightarrow> string list \<Rightarrow> (int \<times> Bucket list) result" where
  "parseBuckets horizon [] = Inr (horizon, [])"
| "parseBuckets horizon (part # parts) =
     bindE (parseBucket horizon part) (\<lambda>b.
       bindE (parseBuckets (i64 (horizon + i64 (bk_Count b * bk_Span b))) parts) (\<lambda>(h, bs).
         Inr (h, b # bs)))"

text \<open>The merge loop: \<open>merged\<close> is kept with its last element first.\<close>

fun mergeBuckets :: "Bucket list \<Rightarrow> Bucket list \<Rightarrow> Bucket list" where
  "mergeBuckets merged [] = rev merged"
| "mergeBuckets merged (b # bs) =
     (case merged of
        l # ls \<Rightarrow>
          (if bk_Span l = bk_Span b
           then mergeBuckets (l\<lparr>bk_Count := i64 (bk_Count l + bk_Count b)\<rparr> # ls) bs
           else mergeBuckets (b # merged) bs)
      | [] \<Rightarrow> mergeBuckets [b] bs)"

definition bucketText :: "Bucket \<Rightarrow> string list" where
  "bucketText b =
     (case find (\<lambda>(_, span). bk_Span b mod span = 0) gridUnits of
        Some (name, span) \<Rightarrow>
          [showInt (bk_Count b) @ ''x'' @ showInt (bk_Span b div span) @ name]
      | None \<Rightarrow> [])"

definition ParseGrid :: "string \<Rightarrow> Grid result" where
  "ParseGrid v =
     bindE (parseBuckets 0 (Split v (CHR '',''))) (\<lambda>(h, bs).
       (let merged = mergeBuckets [] (sort_key bk_Span bs) in
        Inr \<lparr>g_buckets = merged, g_text = Join (concat (map bucketText merged)) '','', g_horizon = h\<rparr>))"

definition Cadence :: "Grid \<Rightarrow> int" where
  "Cadence g = (case g_buckets g of [] \<Rightarrow> 0 | b # _ \<Rightarrow> bk_Span b)"

definition Horizon :: "Grid \<Rightarrow> int" where
  "Horizon g = g_horizon g"

subsection \<open>Well-formed grids\<close>

definition wfBucket :: "Bucket \<Rightarrow> bool" where
  "wfBucket b = (0 < bk_Count b \<and> 0 < bk_Span b \<and> bk_Span b mod Minute = 0)"

definition covered :: "Bucket list \<Rightarrow> int" where
  "covered bs = sum_list (map (\<lambda>b. bk_Count b * bk_Span b) bs)"

definition wfGrid :: "Grid \<Rightarrow> bool" where
  "wfGrid g =
     (g_buckets g \<noteq> [] \<and> list_all wfBucket (g_buckets g) \<and> sorted_wrt (\<lambda>a b. bk_Span a < bk_Span b) (g_buckets g)
      \<and> g_horizon g = covered (g_buckets g) \<and> g_horizon g \<le> MaxInt64)"

lemma covered_simps [simp]: "covered [] = 0" "covered (b # bs) = bk_Count b * bk_Span b + covered bs"
  "covered (xs @ ys) = covered xs + covered ys" "covered (rev xs) = covered xs"
  by (simp_all add: covered_def rev_map [symmetric])

lemma covered_nonneg: "list_all wfBucket bs \<Longrightarrow> 0 \<le> covered bs"
  by (induction bs) (auto simp: wfBucket_def)

lemma wfBucket_Minute: "wfBucket b \<Longrightarrow> Minute \<le> bk_Span b"
  by (auto simp: wfBucket_def zmod_eq_0_iff)

lemma wfBucket_covered: "wfBucket b \<Longrightarrow> bk_Count b * Minute \<le> bk_Count b * bk_Span b"
  using wfBucket_Minute by (auto simp: wfBucket_def intro: mult_left_mono)

lemma unitSpan_units: "u \<in> {''mo'', ''m'', ''h'', ''d'', ''w'', ''y''} \<Longrightarrow> 0 < unitSpan u \<and> unitSpan u mod Minute = 0"
  by (auto simp: unitSpan_def gridUnits_def)

lemma matchBucket_unit: "matchBucket s = Some (d1, d2, u) \<Longrightarrow> u \<in> {''mo'', ''m'', ''h'', ''d'', ''w'', ''y''}"
  by (simp add: matchBucket_def Let_def split: list.splits if_splits)

lemma parseBucket_Inr:
  assumes "parseBucket h part = Inr b" "0 \<le> h" "h \<le> MaxInt64"
  shows "wfBucket b \<and> h + bk_Count b * bk_Span b \<le> MaxInt64"
proof -
  obtain d1 d2 u count amount where u: "matchBucket (TrimSpace part) = Some (d1, d2, u)"
    and c: "0 < count" and a: "0 < amount" "amount \<le> MaxInt64 div unitSpan u"
    and le: "count \<le> i64 (MaxInt64 - h) div i64 (amount * unitSpan u)"
    and b: "b = \<lparr>bk_Count = count, bk_Span = i64 (amount * unitSpan u)\<rparr>"
    using assms(1) unfolding parseBucket_def
    by (auto simp: Let_def not_le not_less split: option.splits if_splits)
  note unit = unitSpan_units [OF matchBucket_unit [OF u]]
  have "amount * unitSpan u \<le> MaxInt64" using unit a(2) le_div_mult by blast
  moreover have "0 < amount * unitSpan u" using a(1) unit by simp
  ultimately have span: "i64 (amount * unitSpan u) = amount * unitSpan u" by (intro i64_id) auto
  have "i64 (MaxInt64 - h) = MaxInt64 - h" using assms by (intro i64_id) auto
  then have "count * (amount * unitSpan u) \<le> MaxInt64 - h"
    using le \<open>0 < amount * unitSpan u\<close> le_div_mult unfolding span by metis
  moreover have "amount * unitSpan u mod Minute = 0" using unit by (simp add: mod_eq_0_iff_dvd)
  ultimately show ?thesis using b c \<open>0 < amount * unitSpan u\<close> by (simp add: wfBucket_def span)
qed

lemma parseBuckets_Inr:
  "parseBuckets h parts = Inr (h', bs) \<Longrightarrow> 0 \<le> h \<Longrightarrow> h \<le> MaxInt64 \<Longrightarrow>
     list_all wfBucket bs \<and> h' = h + covered bs \<and> h' \<le> MaxInt64 \<and> length bs = length parts"
proof (induction h parts arbitrary: h' bs rule: parseBuckets.induct)
  case (2 h part parts)
  then obtain b bs' where b: "parseBucket h part = Inr b" and bs: "bs = b # bs'"
    and rest: "parseBuckets (i64 (h + i64 (bk_Count b * bk_Span b))) parts = Inr (h', bs')"
    by (auto simp: result_iffs)
  note wf = parseBucket_Inr [OF b 2(3,4)]
  then have "0 < bk_Count b * bk_Span b" by (simp add: wfBucket_def)
  then have "i64 (h + i64 (bk_Count b * bk_Span b)) = h + bk_Count b * bk_Span b"
    using wf 2(3) by simp
  then show ?case using 2(1) [OF rest] wf bs \<open>0 < bk_Count b * bk_Span b\<close> 2(3) by auto
qed simp

lemma count_bound: "wfBucket b \<Longrightarrow> bk_Count b * bk_Span b \<le> MaxInt64 \<Longrightarrow> bk_Count b \<le> 153722867"
  using wfBucket_covered [of b] by linarith

lemma mergeBuckets_wf:
  "list_all wfBucket merged \<Longrightarrow> list_all wfBucket bs \<Longrightarrow> covered merged + covered bs \<le> MaxInt64 \<Longrightarrow>
   sorted_wrt (\<lambda>a b. bk_Span b < bk_Span a) merged \<Longrightarrow> sorted (map bk_Span bs) \<Longrightarrow>
   (merged \<noteq> [] \<longrightarrow> (\<forall>b \<in> set bs. bk_Span (hd merged) \<le> bk_Span b)) \<Longrightarrow>
   list_all wfBucket (mergeBuckets merged bs)
   \<and> sorted_wrt (\<lambda>a b. bk_Span a < bk_Span b) (mergeBuckets merged bs)
   \<and> covered (mergeBuckets merged bs) = covered merged + covered bs
   \<and> bk_Span ` set (mergeBuckets merged bs) = bk_Span ` (set merged \<union> set bs)"
proof (induction merged bs rule: mergeBuckets.induct)
  case (1 merged)
  then show ?case by (simp add: sorted_wrt_rev)
next
  case (2 merged b bs)
  show ?case
  proof (cases merged)
    case Nil
    show ?thesis using 2(1) [OF Nil] 2(4-) unfolding Nil by simp
  next
    case (Cons l ls)
    show ?thesis
    proof (cases "bk_Span l = bk_Span b")
      case True
      have nn: "0 \<le> covered ls" "0 \<le> covered bs" using 2(4,5) Cons by (simp_all add: covered_nonneg)
      have wf: "wfBucket l" "wfBucket b" using 2(4,5) Cons by auto
      have pos: "0 < bk_Count l * bk_Span l" "0 < bk_Count b * bk_Span b" using wf by (simp_all add: wfBucket_def)
      have "bk_Count l * bk_Span l \<le> MaxInt64" "bk_Count b * bk_Span b \<le> MaxInt64"
        using 2(6) Cons nn pos by simp_all
      note count_bound [OF wf(1) this(1)] count_bound [OF wf(2) this(2)]
      then have sum: "i64 (bk_Count l + bk_Count b) = bk_Count l + bk_Count b"
        using wf by (intro i64_id) (auto simp: wfBucket_def)
      let ?l = "l\<lparr>bk_Count := bk_Count l + bk_Count b\<rparr>"
      have "wfBucket ?l" using wf by (simp add: wfBucket_def)
      moreover have "covered (?l # ls) = covered merged + bk_Count b * bk_Span b"
        using Cons True by (simp add: algebra_simps)
      ultimately show ?thesis
        using 2(2) [OF Cons True] 2(4-) Cons True by (auto simp: sum)
    next
      case False
      then have "bk_Span l < bk_Span b" using 2(9) Cons by force
      then have "\<forall>y \<in> set ls. bk_Span y < bk_Span b" using 2(7) Cons by auto
      then show ?thesis
        using 2(3) [OF Cons False] 2(4-) \<open>bk_Span l < bk_Span b\<close> unfolding Cons by (simp add: False insert_commute)
    qed
  qed
qed

lemma covered_sort [simp]: "covered (sort_key f bs) = covered bs"
proof -
  have "sum_list (map h (insort_key f x xs)) = h x + sum_list (map h xs)" for h :: "Bucket \<Rightarrow> int" and x xs
    by (induction xs) auto
  then show ?thesis unfolding covered_def by (induction bs) auto
qed

lemma ParseGrid_parts:
  assumes "ParseGrid v = Inr g"
  obtains h bs where "parseBuckets 0 (Split v (CHR '','')) = Inr (h, bs)"
    "g_buckets g = mergeBuckets [] (sort_key bk_Span bs)" "g_horizon g = h"
    "g_text g = Join (concat (map bucketText (g_buckets g))) '',''"
  using assms by (auto simp: ParseGrid_def result_iffs Let_def)

lemma ParseGrid_wf:
  assumes "ParseGrid v = Inr g"
  shows "wfGrid g"
proof -
  obtain h bs where p: "parseBuckets 0 (Split v (CHR '','')) = Inr (h, bs)"
    and g: "g_buckets g = mergeBuckets [] (sort_key bk_Span bs)" "g_horizon g = h"
    by (rule ParseGrid_parts [OF assms])
  have wf: "list_all wfBucket bs" "h = covered bs" "h \<le> MaxInt64" "bs \<noteq> []"
    using parseBuckets_Inr [OF p] by auto
  have "sort_key bk_Span bs \<noteq> []" using wf(4) by (metis set_empty set_sort)
  then have "bk_Span ` set (mergeBuckets [] (sort_key bk_Span bs)) \<noteq> {}"
    using mergeBuckets_wf [of "[]" "sort_key bk_Span bs"] wf by (simp add: list_all_iff)
  then show ?thesis
    using mergeBuckets_wf [of "[]" "sort_key bk_Span bs"] wf unfolding wfGrid_def g
    by (auto simp: list_all_iff)
qed

lemma mergeBuckets_strict:
  "sorted_wrt (\<lambda>a b. bk_Span a < bk_Span b) (rev merged @ bs) \<Longrightarrow> mergeBuckets merged bs = rev merged @ bs"
proof (induction merged bs rule: mergeBuckets.induct)
  case (2 merged b bs)
  show ?case
  proof (cases merged)
    case Nil
    then show ?thesis using 2(1) [OF Nil] 2(4) by simp
  next
    case (Cons l ls)
    then have "bk_Span l \<noteq> bk_Span b" using 2(4) by (force simp: sorted_wrt_append)
    then show ?thesis using 2(3) [OF Cons] 2(4) Cons by simp
  qed
qed simp

lemma ParseInt_showInt: "0 \<le> i \<Longrightarrow> i < 2 ^ (bits - 1) \<Longrightarrow> ParseInt bits (showInt i) = Some i"
  by (simp add: ParseInt_def showInt_def zless_nat_eq_int_zless)

lemma takeWhile_digits: "list_all isDigit ds \<Longrightarrow> \<not> isDigit x \<Longrightarrow>
    takeWhile isDigit (ds @ x # s) = ds \<and> dropWhile isDigit (ds @ x # s) = x # s"
  by (induction ds) auto

lemma matchBucket_text:
  assumes "list_all isDigit d1" "d1 \<noteq> []" "list_all isDigit d2" "d2 \<noteq> []"
    and "u \<in> {''mo'', ''m'', ''h'', ''d'', ''w'', ''y''}"
  shows "matchBucket (d1 @ ''x'' @ d2 @ u) = Some (d1, d2, u)"
proof -
  have "u \<noteq> [] \<and> \<not> isDigit (hd u)" using assms(5) by (elim insertE) (simp_all add: isDigit_def)
  then obtain x xs where u: "u = x # xs" "\<not> isDigit x" by (cases u) auto
  have "\<not> isDigit (CHR ''x'')" by (simp add: isDigit_def)
  then show ?thesis using assms takeWhile_digits [OF assms(1)] takeWhile_digits [OF assms(3) u(2)]
    unfolding matchBucket_def u by (simp del: insert_iff)
qed

lemma showInt_digits: "0 \<le> i \<Longrightarrow> list_all isDigit (showInt i) \<and> showInt i \<noteq> []"
  using showNat_digits by (simp add: showInt_def)

lemma digit_visible: "isDigit c \<Longrightarrow> isASCII c \<and> \<not> IsSpace (of_char c)"
  by (auto simp: isDigit_def isASCII_def IsSpace_def)

lemma TrimSpace_text:
  assumes "list_all isDigit d1" "list_all isDigit d2" and "u \<in> {''mo'', ''m'', ''h'', ''d'', ''w'', ''y''}"
  shows "TrimSpace (d1 @ ''x'' @ d2 @ u) = d1 @ ''x'' @ d2 @ u"
proof (rule TrimSpace_visible)
  have "list_all (\<lambda>c. isASCII c \<and> \<not> IsSpace (of_char c)) (''x'' @ u)"
    using assms(3) by (elim insertE) (simp_all add: isASCII_def IsSpace_def)
  then show "list_all (\<lambda>c. isASCII c \<and> \<not> IsSpace (of_char c)) (d1 @ ''x'' @ d2 @ u)"
    using assms(1,2) digit_visible by (auto simp: list_all_iff)
qed

lemma bucketText_unit:
  assumes "wfBucket b"
  obtains u where "u \<in> {''mo'', ''m'', ''h'', ''d'', ''w'', ''y''}" "bk_Span b mod unitSpan u = 0"
    "bucketText b = [showInt (bk_Count b) @ ''x'' @ showInt (bk_Span b div unitSpan u) @ u]"
proof (cases "find (\<lambda>(_, span). bk_Span b mod span = 0) gridUnits")
  case None
  have m: "(''m'', Minute) \<in> set gridUnits" by (simp add: gridUnits_def)
  have "\<not> (case (''m'', Minute) of (_, span) \<Rightarrow> bk_Span b mod span = 0)"
    using None m unfolding find_None_iff by meson
  then show thesis using assms by (simp add: wfBucket_def)
next
  case (Some r)
  obtain u span where r: "r = (u, span)" by (cases r)
  have mem: "(u, span) \<in> set gridUnits" and zero: "bk_Span b mod span = 0"
    using find_SomeD [OF Some] r by auto
  have "u \<in> {''mo'', ''m'', ''h'', ''d'', ''w'', ''y''} \<and> span = unitSpan u"
    using mem unfolding unitSpan_def gridUnits_def by (simp, elim disjE) simp_all
  then show thesis using that [of u] Some r zero by (simp add: bucketText_def del: insert_iff)
qed

lemma parseBucket_text:
  assumes "wfBucket b" and "0 \<le> h" "h + bk_Count b * bk_Span b \<le> MaxInt64"
  shows "\<exists>s. bucketText b = [s] \<and> CHR '','' \<notin> set s \<and> parseBucket h s = Inr b"
proof -
  obtain u where u: "u \<in> {''mo'', ''m'', ''h'', ''d'', ''w'', ''y''}" "bk_Span b mod unitSpan u = 0"
    and shown: "bucketText b = [showInt (bk_Count b) @ ''x'' @ showInt (bk_Span b div unitSpan u) @ u]"
    by (rule bucketText_unit [OF assms(1)])
  note unit = unitSpan_units [OF u(1)]
  let ?a = "bk_Span b div unitSpan u" and ?s = "showInt (bk_Count b) @ ''x'' @ showInt (bk_Span b div unitSpan u) @ u"
  have span: "?a * unitSpan u = bk_Span b" using u(2) by auto
  have pos: "0 < bk_Count b" "0 < bk_Span b" using assms(1) by (simp_all add: wfBucket_def)
  have a: "0 < ?a" using span pos unit by (metis zero_less_mult_pos2)
  have le: "bk_Count b * bk_Span b \<le> MaxInt64 - h" using assms by simp
  then have c: "bk_Count b \<le> 153722867" using count_bound assms by simp
  have "1 * bk_Span b \<le> bk_Count b * bk_Span b" using pos by (intro mult_right_mono) auto
  then have s: "bk_Span b \<le> MaxInt64" using le assms(2) by simp
  have "?a \<le> MaxInt64 div unitSpan u" using s unit by (intro zdiv_mono1) auto
  moreover have "bk_Count b * bk_Span b div bk_Span b \<le> (MaxInt64 - h) div bk_Span b"
    by (rule zdiv_mono1 [OF le pos(2)])
  moreover have "?a * 1 \<le> ?a * unitSpan u" using a unit by (intro mult_left_mono) auto
  moreover have "i64 (MaxInt64 - h) = MaxInt64 - h" using assms(2) le mult_pos_pos [OF pos] by (intro i64_id) simp_all
  ultimately have "parseBucket h ?s = Inr b"
    using TrimSpace_text [of "showInt (bk_Count b)" "showInt ?a" u] matchBucket_text [of "showInt (bk_Count b)" "showInt ?a" u]
      showInt_digits [of "bk_Count b"] showInt_digits [of ?a] ParseInt_showInt [of "bk_Count b" 32] ParseInt_showInt [of ?a 64]
      u pos a c s span
    by (simp add: parseBucket_def del: insert_iff)
  moreover have "CHR '','' \<notin> set ?s"
    using showInt_digits [of "bk_Count b"] showInt_digits [of ?a] pos a u(1)
    by (auto simp: list_all_iff isDigit_def)
  ultimately show ?thesis using shown by blast
qed

lemma parseBuckets_text:
  "list_all wfBucket bs \<Longrightarrow> 0 \<le> h \<Longrightarrow> h + covered bs \<le> MaxInt64 \<Longrightarrow>
   parseBuckets h (concat (map bucketText bs)) = Inr (h + covered bs, bs)
   \<and> length (concat (map bucketText bs)) = length bs
   \<and> (\<forall>s \<in> set (concat (map bucketText bs)). CHR '','' \<notin> set s)"
proof (induction bs arbitrary: h)
  case (Cons b bs)
  have nn: "0 \<le> covered bs" using Cons.prems by (simp add: covered_nonneg)
  have wf: "wfBucket b" using Cons.prems by simp
  have pos: "0 < bk_Count b * bk_Span b" using wf by (simp add: wfBucket_def)
  obtain s where s: "bucketText b = [s]" "CHR '','' \<notin> set s" "parseBucket h s = Inr b"
    using parseBucket_text [OF wf Cons.prems(2)] Cons.prems nn by auto
  have "i64 (h + i64 (bk_Count b * bk_Span b)) = h + bk_Count b * bk_Span b"
    using pos nn Cons.prems by simp
  then show ?case using Cons.IH [of "h + bk_Count b * bk_Span b"] Cons.prems pos s by (simp add: add.assoc)
qed simp

lemma wfGrid_reparse:
  assumes "wfGrid g"
  shows "ParseGrid (Join (concat (map bucketText (g_buckets g))) '','') =
    Inr \<lparr>g_buckets = g_buckets g, g_text = Join (concat (map bucketText (g_buckets g))) '','', g_horizon = g_horizon g\<rparr>"
proof -
  let ?bs = "g_buckets g" and ?parts = "concat (map bucketText (g_buckets g))"
  have wf: "list_all wfBucket ?bs" "covered ?bs \<le> MaxInt64" "?bs \<noteq> []" "g_horizon g = covered ?bs"
    and strict: "sorted_wrt (\<lambda>a b. bk_Span a < bk_Span b) ?bs"
    using assms by (auto simp: wfGrid_def)
  have p: "parseBuckets 0 ?parts = Inr (covered ?bs, ?bs)" "length ?parts = length ?bs"
    "\<forall>s \<in> set ?parts. CHR '','' \<notin> set s"
    using parseBuckets_text [OF wf(1), of 0] wf(2) by simp_all
  have split: "Split (Join ?parts '','') (CHR '','') = ?parts"
    using p(2,3) wf(3) by (intro Split_Join) (metis length_0_conv, blast)
  have "sorted (map bk_Span ?bs)"
    using strict by (simp add: sorted_map sorted_wrt_mono_rel [OF _ strict])
  then have "sort_key bk_Span ?bs = ?bs" by (simp add: sorted_sort_id sort_key_id_if_sorted)
  moreover have "mergeBuckets [] ?bs = ?bs" using mergeBuckets_strict [of "[]"] strict by simp
  ultimately show ?thesis unfolding ParseGrid_def split p(1) by (simp add: Let_def wf(4))
qed

text \<open>
  C8: whatever a grid is parsed from, its tiers have strictly increasing spans, each a positive
  multiple of a minute with a positive count; the horizon is the exact sum of count times span, which
  fits a \<open>time.Duration\<close>, so no product or sum has wrapped; and the cadence is the smallest span.
\<close>

theorem parsed_grid_well_formed:
  assumes "ParseGrid v = Inr g"
  shows "wfGrid g \<and> Horizon g = (\<Sum>b \<leftarrow> g_buckets g. bk_Count b * bk_Span b)
    \<and> 0 < Cadence g \<and> Cadence g \<le> Horizon g \<and> Horizon g \<le> MaxInt64
    \<and> (\<forall>b \<in> set (g_buckets g). Cadence g \<le> bk_Span b)"
proof -
  note wf = ParseGrid_wf [OF assms]
  obtain b bs where bs: "g_buckets g = b # bs" using wf by (auto simp: wfGrid_def neq_Nil_conv)
  have b: "0 < bk_Count b" "0 < bk_Span b" and rest: "list_all wfBucket bs"
    and lt: "\<forall>c \<in> set bs. bk_Span b < bk_Span c"
    using wf bs by (auto simp: wfGrid_def wfBucket_def)
  have "1 * bk_Span b \<le> bk_Count b * bk_Span b" using b by (intro mult_right_mono) auto
  then have "bk_Span b \<le> bk_Count b * bk_Span b + covered bs" using covered_nonneg [OF rest] by linarith
  moreover have "Horizon g = covered (b # bs)" "Horizon g \<le> MaxInt64"
    using wf bs by (simp_all add: wfGrid_def Horizon_def)
  moreover have "Cadence g = bk_Span b" using bs by (simp add: Cadence_def)
  ultimately show ?thesis
    using wf b lt covered_nonneg [OF rest] by (simp add: bs covered_def [symmetric] less_imp_le)
qed

theorem parsed_grid_well_formed_witness:
  "\<exists>g. ParseGrid DefaultGrid = Inr g \<and> wfGrid g \<and> Cadence g = 5 * Minute \<and> Horizon g \<le> MaxInt64"
proof -
  have "(case ParseGrid DefaultGrid of Inr g \<Rightarrow> Cadence g = 5 * Minute | _ \<Rightarrow> False)" by code_simp
  then obtain g where "ParseGrid DefaultGrid = Inr g" "Cadence g = 5 * Minute" by (auto split: sum.splits)
  then show ?thesis using parsed_grid_well_formed [of DefaultGrid g] by blast
qed

text \<open>
  C7: the canonical text of a parsed grid parses, to the very same grid. Formatting and parsing
  are inverse on grids, whatever order, spacing, units or duplicate tiers the policy was written with.
\<close>

theorem grid_text_roundtrip:
  assumes "ParseGrid v = Inr g"
  shows "ParseGrid (g_text g) = Inr g"
proof -
  have "g_text g = Join (concat (map bucketText (g_buckets g))) '',''"
    by (rule ParseGrid_parts [OF assms])
  then show ?thesis using wfGrid_reparse [OF ParseGrid_wf [OF assms]] by simp
qed

theorem grid_text_roundtrip_witness:
  "\<exists>g. ParseGrid '' 24x60m,2x1h, 4x7d'' = Inr g \<and> g_text g = ''26x1h,4x1w'' \<and> ParseGrid ''26x1h,4x1w'' = Inr g"
proof -
  have "(case ParseGrid '' 24x60m,2x1h, 4x7d'' of Inr g \<Rightarrow> g_text g = ''26x1h,4x1w'' | _ \<Rightarrow> False)" by code_simp
  then obtain g where g: "ParseGrid '' 24x60m,2x1h, 4x7d'' = Inr g" "g_text g = ''26x1h,4x1w''"
    by (auto split: sum.splits)
  show ?thesis using grid_text_roundtrip [OF g(1)] g by auto
qed

end
