(* ===== verification/Prune.thy ===== *)
theory Prune
  imports Ownership Policy_Grid "HOL-Library.Product_Lexorder" "HOL-Library.Multiset"
begin

section \<open>Pruning by the retention grid\<close>

text \<open>
  \<open>internal/lifecycle/prune.go\<close>: which of a dataset's snapshots a retention grid destroys, and whether a
  new snapshot is due. \<open>PlanPrune\<close> is written loop by loop; the properties give its decision as a
  condition on the snapshots alone, and show what survives it.
\<close>

subsection \<open>Definitions\<close>

record Decision =
  dc_Snapshot :: string
  dc_GUID :: nat
  dc_Destroy :: bool
  dc_Reason :: string

record candidate =
  ca_snapshot :: Snapshot
  ca_created :: instant
  ca_owned :: bool

definition toCandidate :: "string \<Rightarrow> Snapshot \<Rightarrow> candidate" where
  "toCandidate lineage s =
     (case Ownership s lineage of
        Inr m \<Rightarrow> \<lparr>ca_snapshot = s, ca_created = md_Created m, ca_owned = True\<rparr>
      | Inl _ \<Rightarrow> \<lparr>ca_snapshot = s, ca_created = 0, ca_owned = False\<rparr>)"

fun pruneItems ::
  "string \<Rightarrow> string \<Rightarrow> string list \<Rightarrow> instant \<Rightarrow> Snapshot list \<Rightarrow> (instant \<times> candidate list) result" where
  "pruneItems dataset lineage seen anchor [] = Inr (anchor, [])"
| "pruneItems dataset lineage seen anchor (s # ss) =
     (if \<not> HasPrefix (sn_Name s) (dataset @ ''@'') \<or> sn_Name s \<in> set seen
      then Inl (Errorf ''duplicate or out-of-scope snapshot %q'' [Arg (sn_Name s)])
      else
        (let item = toCandidate lineage s;
             anchor' = (if ca_owned item \<and> ca_created item > anchor then ca_created item else anchor) in
         bindE (pruneItems dataset lineage (sn_Name s # seen) anchor' ss) (\<lambda>(a, items). Inr (a, item # items))))"

definition candidateKey :: "candidate \<Rightarrow> int \<times> string" where
  "candidateKey c = (ca_created c, sn_Name (ca_snapshot c))"

fun newestOwned :: "nat \<Rightarrow> int \<Rightarrow> candidate list \<Rightarrow> int" where
  "newestOwned i newest [] = newest"
| "newestOwned i newest (c # cs) = newestOwned (Suc i) (if ca_owned c then int i else newest) cs"

text \<open>The window an age falls in: the tier and the index in it.\<close>

fun gridWindow :: "int \<Rightarrow> nat \<Rightarrow> int \<Rightarrow> Bucket list \<Rightarrow> (nat \<times> int) option" where
  "gridWindow age grp offset [] = None"
| "gridWindow age grp offset (b # bs) =
     (let till = i64 (offset + i64 (bk_Count b * bk_Span b)) in
      if age \<ge> offset \<and> age < till then Some (grp, (age - offset) div bk_Span b)
      else gridWindow age (Suc grp) till bs)"

definition decideOwned ::
  "Bucket list \<Rightarrow> instant \<Rightarrow> bool \<Rightarrow> (nat \<times> int) list \<Rightarrow> candidate \<Rightarrow> (nat \<times> int) list \<times> bool \<times> string" where
  "decideOwned buckets anchor isNewest winners c =
     (let s = ca_snapshot c;
          (winners', d) =
            (case gridWindow (Sub anchor (ca_created c)) 0 0 buckets of
               None \<Rightarrow> (winners, True, ''older than retention grid'')
             | Some key \<Rightarrow>
                 (if key \<notin> set winners then (key # winners, False, ''oldest snapshot in retention window'')
                  else (winners, True, ''newer duplicate in retention window'')));
          d = (if isNewest then (False, ''newest owned snapshot'') else d);
          d = (if sn_Holds s \<noteq> [] then (False, ''snapshot has holds'') else d);
          d = (if sn_Clones s \<noteq> [] then (False, ''snapshot has clones'') else d);
          d = (if sn_ResumeRequired s then (False, ''snapshot is required by resumable receive'') else d)
      in (winners', d))"

fun decideItems ::
  "Bucket list \<Rightarrow> instant \<Rightarrow> int \<Rightarrow> nat \<Rightarrow> (nat \<times> int) list \<Rightarrow> candidate list \<Rightarrow> Decision list" where
  "decideItems buckets anchor newest i winners [] = []"
| "decideItems buckets anchor newest i winners (c # cs) =
     (let s = ca_snapshot c;
          (winners', destroy, reason) =
            (if ca_owned c then decideOwned buckets anchor (int i = newest) winners c
             else (winners, False, ''foreign or unproven ownership''))
      in \<lparr>dc_Snapshot = sn_Name s, dc_GUID = sn_GUID s, dc_Destroy = destroy, dc_Reason = reason\<rparr>
         # decideItems buckets anchor newest (Suc i) winners' cs)"

definition PlanPrune :: "string \<Rightarrow> string \<Rightarrow> Grid \<Rightarrow> Snapshot list \<Rightarrow> Decision list result" where
  "PlanPrune dataset lineage grid snapshots =
     failIf (validateDataset dataset)
       (if \<not> Valid lineage \<or> Cadence grid \<le> 0 then Inl (Errorf ''valid lineage and grid are required'' [])
        else bindE (pruneItems dataset lineage [] 0 snapshots) (\<lambda>(anchor, items).
          let items = sort_key candidateKey items in
          Inr (sort_key dc_Snapshot
                (decideItems (g_buckets grid) anchor (newestOwned 0 (-1) items) 0 [] items))))"

fun newestCreated :: "string \<Rightarrow> string \<Rightarrow> instant \<Rightarrow> Snapshot list \<Rightarrow> instant result" where
  "newestCreated dataset lineage newest [] = Inr newest"
| "newestCreated dataset lineage newest (s # ss) =
     (if \<not> HasPrefix (sn_Name s) (dataset @ ''@'') then Inl (Errorf ''out-of-scope snapshot %q'' [Arg (sn_Name s)])
      else newestCreated dataset lineage
        (case Ownership s lineage of
           Inr m \<Rightarrow> if md_Created m > newest then md_Created m else newest
         | Inl _ \<Rightarrow> newest) ss)"

definition SnapshotDue :: "instant \<Rightarrow> string \<Rightarrow> string \<Rightarrow> Grid \<Rightarrow> Snapshot list \<Rightarrow> bool result" where
  "SnapshotDue now dataset lineage grid snapshots =
     failIf (validateDataset dataset)
       (if \<not> Valid lineage \<or> Cadence grid \<le> 0 \<or> IsZero now
        then Inl (Errorf ''valid time, lineage, and grid are required'' [])
        else bindE (newestCreated dataset lineage 0 snapshots) (\<lambda>newest.
          Inr (IsZero newest \<or> Sub now newest > Cadence grid)))"

subsection \<open>The loops as conditions on the snapshots\<close>

lemma pruneItems_Inr:
  "pruneItems dataset lineage seen anchor ss = Inr (a, items) \<Longrightarrow>
     items = map (toCandidate lineage) ss
     \<and> a = fold (\<lambda>c t. if ca_owned c \<and> ca_created c > t then ca_created c else t) items anchor
     \<and> distinct (map sn_Name ss) \<and> set seen \<inter> sn_Name ` set ss = {}
     \<and> (\<forall>s \<in> set ss. HasPrefix (sn_Name s) (dataset @ ''@''))"
proof (induction dataset lineage seen anchor ss arbitrary: a items rule: pruneItems.induct)
  case (2 dataset lineage seen anchor s ss)
  have g: "HasPrefix (sn_Name s) (dataset @ ''@'')" "sn_Name s \<notin> set seen"
    using 2(2) by (auto split: if_splits)
  let ?c = "toCandidate lineage s"
  let ?a = "if ca_owned ?c \<and> ca_created ?c > anchor then ca_created ?c else anchor"
  obtain items' where rest: "pruneItems dataset lineage (sn_Name s # seen) ?a ss = Inr (a, items')" and items: "items = ?c # items'"
    using 2(2) g by (auto simp: Let_def result_iffs)
  show ?case using 2(1) [OF _ refl refl rest] g items by auto
qed simp

definition retentionWindow :: "Grid \<Rightarrow> instant \<Rightarrow> instant \<Rightarrow> (nat \<times> int) option" where
  "retentionWindow grid anchor created = gridWindow (Sub anchor created) 0 0 (g_buckets grid)"

definition keptAnyway :: "Snapshot \<Rightarrow> bool" where
  "keptAnyway s = (sn_Holds s \<noteq> [] \<or> sn_Clones s \<noteq> [] \<or> sn_ResumeRequired s)"

definition windowTaken :: "Bucket list \<Rightarrow> instant \<Rightarrow> (nat \<times> int) set \<Rightarrow> candidate \<Rightarrow> bool" where
  "windowTaken buckets anchor W c =
     (case gridWindow (Sub anchor (ca_created c)) 0 0 buckets of None \<Rightarrow> True | Some k \<Rightarrow> k \<in> W)"

definition windowSet :: "Bucket list \<Rightarrow> instant \<Rightarrow> candidate \<Rightarrow> (nat \<times> int) set" where
  "windowSet buckets anchor c =
     (if ca_owned c then set_option (gridWindow (Sub anchor (ca_created c)) 0 0 buckets) else {})"

lemma decideOwned_result:
  assumes "decideOwned buckets anchor isNewest winners c = (w, d, r)"
  shows "set w = set winners \<union> set_option (gridWindow (Sub anchor (ca_created c)) 0 0 buckets)
    \<and> (d \<longleftrightarrow> \<not> isNewest \<and> \<not> keptAnyway (ca_snapshot c) \<and> windowTaken buckets anchor (set winners) c)"
  using assms unfolding decideOwned_def windowTaken_def keptAnyway_def
  by (auto simp: Let_def split: option.splits if_splits prod.splits)

lemma decideItems_length [simp]: "length (decideItems b a n i w cs) = length cs"
  by (induction b a n i w cs rule: decideItems.induct) (auto simp: Let_def split: prod.splits)

lemma decideItems_nth:
  "j < length cs \<Longrightarrow>
   dc_Snapshot (decideItems b a n i w cs ! j) = sn_Name (ca_snapshot (cs ! j))
   \<and> dc_GUID (decideItems b a n i w cs ! j) = sn_GUID (ca_snapshot (cs ! j))
   \<and> (dc_Destroy (decideItems b a n i w cs ! j) \<longleftrightarrow>
        ca_owned (cs ! j) \<and> int (i + j) \<noteq> n \<and> \<not> keptAnyway (ca_snapshot (cs ! j))
        \<and> windowTaken b a (set w \<union> (\<Union>c \<in> set (take j cs). windowSet b a c)) (cs ! j))"
proof (induction b a n i w cs arbitrary: j rule: decideItems.induct)
  case (2 b a n i w c cs)
  obtain w' d r where step: "(if ca_owned c then decideOwned b a (int i = n) w c else (w, False, ''foreign or unproven ownership'')) = (w', d, r)"
    by (cases "if ca_owned c then decideOwned b a (int i = n) w c else (w, False, ''foreign or unproven ownership'')") auto
  have eq: "decideItems b a n i w (c # cs) =
      \<lparr>dc_Snapshot = sn_Name (ca_snapshot c), dc_GUID = sn_GUID (ca_snapshot c), dc_Destroy = d, dc_Reason = r\<rparr>
      # decideItems b a n (Suc i) w' cs"
    using step by (simp only: decideItems.simps Let_def prod.case)
  have w': "set w' = set w \<union> windowSet b a c"
    and d: "d \<longleftrightarrow> ca_owned c \<and> int i \<noteq> n \<and> \<not> keptAnyway (ca_snapshot c) \<and> windowTaken b a (set w) c"
    using step decideOwned_result [of b a "int i = n" w c w' d r] by (auto simp: windowSet_def split: if_splits)
  show ?case
  proof (cases j)
    case 0
    then show ?thesis unfolding eq using d by simp
  next
    case (Suc j')
    then show ?thesis unfolding eq using 2(1) [OF refl step [symmetric] refl, where j = j'] 2(2) w' by (simp add: Un_assoc)
  qed
qed simp

lemma newestOwned_none: "\<forall>c \<in> set cs. \<not> ca_owned c \<Longrightarrow> newestOwned i n cs = n"
  by (induction i n cs rule: newestOwned.induct) auto

lemma newestOwned_some: "\<exists>c \<in> set cs. ca_owned c \<Longrightarrow> int i \<le> newestOwned i n cs"
proof (induction i n cs rule: newestOwned.induct)
  case (2 i n c cs)
  show ?case
  proof (cases "\<exists>c \<in> set cs. ca_owned c")
    case True
    then show ?thesis using 2(1) by auto
  next
    case False
    then show ?thesis using 2(2) by (simp add: newestOwned_none)
  qed
qed simp

lemma newestOwned_iff:
  "j < length cs \<Longrightarrow> ca_owned (cs ! j) \<Longrightarrow>
     int (i + j) = newestOwned i n cs \<longleftrightarrow> (\<forall>c \<in> set (drop (Suc j) cs). \<not> ca_owned c)"
proof (induction i n cs arbitrary: j rule: newestOwned.induct)
  case (2 i n c cs)
  show ?case
  proof (cases j)
    case 0
    then show ?thesis
      using 2(3) newestOwned_none [of cs "Suc i" "int i"] newestOwned_some [of cs "Suc i" "int i"] by fastforce
  next
    case (Suc k)
    then show ?thesis using 2(1) [of k] 2(2,3) by simp
  qed
qed simp

lemma strictly_sorted_split:
  assumes "sorted_wrt (\<lambda>a b. f a < (f b :: 'k :: linorder)) xs" "j < length xs"
  shows "set (take j xs) = {x \<in> set xs. f x < f (xs ! j)}" "set (drop (Suc j) xs) = {x \<in> set xs. f (xs ! j) < f x}"
proof -
  have xs: "xs = take j xs @ xs ! j # drop (Suc j) xs" using assms(2) by (rule id_take_nth_drop)
  have "sorted_wrt (\<lambda>a b. f a < f b) (take j xs @ xs ! j # drop (Suc j) xs)" using assms(1) xs by simp
  then have lt: "\<forall>x \<in> set (take j xs). f x < f (xs ! j)" "\<forall>x \<in> set (drop (Suc j) xs). f (xs ! j) < f x"
    by (auto simp: sorted_wrt_append)
  have set: "set xs = set (take j xs) \<union> {xs ! j} \<union> set (drop (Suc j) xs)"
    by (subst xs) auto
  show "set (take j xs) = {x \<in> set xs. f x < f (xs ! j)}"
    using lt by (subst set) (auto dest: less_trans)
  show "set (drop (Suc j) xs) = {x \<in> set xs. f (xs ! j) < f x}"
    using lt by (subst set) (auto dest: less_trans)
qed

lemma strict_sort_key:
  assumes "distinct (map f xs)"
  shows "sorted_wrt (\<lambda>a b. f a < (f b :: 'k :: linorder)) (sort_key f xs)"
proof -
  have "sorted (map f (sort_key f xs))" by simp
  moreover have "distinct (map f (sort_key f xs))"
    using assms by (simp add: distinct_map)
  ultimately have "sorted_wrt (<) (map f (sort_key f xs))" by (simp add: strict_sorted_iff)
  then show ?thesis by (simp add: sorted_wrt_map)
qed

subsection \<open>What pruning destroys\<close>

definition snapKey :: "string \<Rightarrow> Snapshot \<Rightarrow> int \<times> string" where
  "snapKey lineage s = candidateKey (toCandidate lineage s)"

definition owned :: "string \<Rightarrow> Snapshot \<Rightarrow> bool" where
  "owned lineage s = is_ok (Ownership s lineage)"

definition createdAt :: "string \<Rightarrow> Snapshot \<Rightarrow> instant" where
  "createdAt lineage s = ca_created (toCandidate lineage s)"

definition newestInstant :: "string \<Rightarrow> Snapshot list \<Rightarrow> instant" where
  "newestInstant lineage ss = Max (insert 0 {createdAt lineage s | s. s \<in> set ss \<and> owned lineage s})"

definition windowOf :: "string \<Rightarrow> Grid \<Rightarrow> Snapshot list \<Rightarrow> Snapshot \<Rightarrow> (nat \<times> int) option" where
  "windowOf lineage grid ss s = retentionWindow grid (newestInstant lineage ss) (createdAt lineage s)"

definition prunable :: "string \<Rightarrow> Grid \<Rightarrow> Snapshot list \<Rightarrow> Snapshot \<Rightarrow> bool" where
  "prunable lineage grid ss s =
     (owned lineage s \<and> \<not> keptAnyway s
      \<and> (\<exists>s' \<in> set ss. owned lineage s' \<and> snapKey lineage s < snapKey lineage s')
      \<and> (windowOf lineage grid ss s = None
         \<or> (\<exists>s' \<in> set ss. owned lineage s' \<and> snapKey lineage s' < snapKey lineage s
              \<and> windowOf lineage grid ss s' = windowOf lineage grid ss s)))"

lemma toCandidate_simps [simp]:
  "ca_snapshot (toCandidate lineage s) = s" "ca_owned (toCandidate lineage s) = owned lineage s"
  "ca_created (toCandidate lineage s) = createdAt lineage s"
  by (auto simp: toCandidate_def owned_def createdAt_def split: sum.splits)

lemma createdAt_owned: "Ownership s lineage = Inr m \<Longrightarrow> createdAt lineage s = md_Created m \<and> owned lineage s"
  by (simp add: createdAt_def toCandidate_def owned_def)

lemma Max_insert_max: "finite S \<Longrightarrow> Max (insert (max a b) S) = Max (insert a (insert (b :: int) S))"
  by (cases "S = {}") (simp_all add: max.assoc)

lemma fold_newest:
  "fold (\<lambda>c t. if ca_owned c \<and> ca_created c > t then ca_created c else t) (map (toCandidate lineage) ss) a
   = Max (insert a {createdAt lineage s | s. s \<in> set ss \<and> owned lineage s})"
proof (induction ss arbitrary: a)
  case (Cons s ss)
  let ?S = "{createdAt lineage x | x. x \<in> set ss \<and> owned lineage x}"
  let ?f = "\<lambda>c t. if ca_owned c \<and> ca_created c > t then ca_created c else t"
  show ?case
  proof (cases "owned lineage s")
    case True
    then have "{createdAt lineage x | x. x \<in> set (s # ss) \<and> owned lineage x} = insert (createdAt lineage s) ?S" by auto
    moreover have "?f (toCandidate lineage s) a = max a (createdAt lineage s)" using True by simp
    then have "fold ?f (map (toCandidate lineage) (s # ss)) a = Max (insert (max a (createdAt lineage s)) ?S)"
      using Cons.IH by (simp del: toCandidate_simps)
    ultimately show ?thesis by (simp only: Max_insert_max finite_set finite_image_set Collect_mem_eq) (simp add: Max_insert_max)
  next
    case False
    then have "{createdAt lineage x | x. x \<in> set (s # ss) \<and> owned lineage x} = ?S" by auto
    then show ?thesis using Cons.IH False by simp
  qed
qed simp

lemma PlanPrune_parts:
  assumes "PlanPrune dataset lineage grid ss = Inr ds"
  obtains cs where "cs = sort_key candidateKey (map (toCandidate lineage) ss)" "distinct (map sn_Name ss)"
    "sorted_wrt (\<lambda>a b. candidateKey a < candidateKey b) cs"
    "ds = sort_key dc_Snapshot (decideItems (g_buckets grid) (newestInstant lineage ss) (newestOwned 0 (-1) cs) 0 [] cs)"
proof -
  obtain a items where p: "pruneItems dataset lineage [] 0 ss = Inr (a, items)"
    and ds: "ds = sort_key dc_Snapshot (decideItems (g_buckets grid) a (newestOwned 0 (-1) (sort_key candidateKey items)) 0 [] (sort_key candidateKey items))"
    using assms by (auto simp: PlanPrune_def result_iffs Let_def split: if_splits)
  note parts = pruneItems_Inr [OF p]
  have "distinct (map candidateKey (map (toCandidate lineage) ss))"
  proof -
    have "map snd (map candidateKey (map (toCandidate lineage) ss)) = map sn_Name ss"
      by (simp add: candidateKey_def)
    then show ?thesis using parts by (metis distinct_map)
  qed
  from strict_sort_key [OF this] show thesis
    using that parts ds by (simp add: fold_newest newestInstant_def)
qed

lemma decision_of:
  assumes "PlanPrune dataset lineage grid ss = Inr ds" and "s \<in> set ss"
  obtains d where "d \<in> set ds" "dc_Snapshot d = sn_Name s" "dc_GUID d = sn_GUID s" "dc_Destroy d \<longleftrightarrow> prunable lineage grid ss s"
proof -
  obtain cs where cs: "cs = sort_key candidateKey (map (toCandidate lineage) ss)" and dist: "distinct (map sn_Name ss)"
    and strict: "sorted_wrt (\<lambda>a b. candidateKey a < candidateKey b) cs"
    and ds: "ds = sort_key dc_Snapshot (decideItems (g_buckets grid) (newestInstant lineage ss) (newestOwned 0 (-1) cs) 0 [] cs)"
    by (rule PlanPrune_parts [OF assms(1)])
  have set_cs: "set cs = toCandidate lineage ` set ss" by (simp add: cs)
  then obtain j where j: "j < length cs" "cs ! j = toCandidate lineage s" using assms(2) by (metis imageI in_set_conv_nth)
  let ?d = "decideItems (g_buckets grid) (newestInstant lineage ss) (newestOwned 0 (-1) cs) 0 [] cs ! j"
  have in_ds: "?d \<in> set ds" using j by (simp add: ds)
  have before: "set (take j cs) = {c \<in> set cs. candidateKey c < snapKey lineage s}"
    and after: "set (drop (Suc j) cs) = {c \<in> set cs. snapKey lineage s < candidateKey c}"
    using strictly_sorted_split [OF strict j(1)] by (simp_all add: j snapKey_def)
  have newest: "owned lineage s \<Longrightarrow> (int j = newestOwned 0 (-1) cs) \<longleftrightarrow>
      \<not> (\<exists>s' \<in> set ss. owned lineage s' \<and> snapKey lineage s < snapKey lineage s')"
    using newestOwned_iff [OF j(1), of 0 "-1"] by (auto simp: j after set_cs snapKey_def)
  have earlier: "(\<Union>c \<in> set (take j cs). W c) = (\<Union>s' \<in> {s' \<in> set ss. snapKey lineage s' < snapKey lineage s}. W (toCandidate lineage s'))"
    for W :: "candidate \<Rightarrow> (nat \<times> int) set"
    unfolding before set_cs by (auto simp: snapKey_def)
  have taken: "windowTaken (g_buckets grid) (newestInstant lineage ss) (\<Union>c \<in> set (take j cs). windowSet (g_buckets grid) (newestInstant lineage ss) c) (cs ! j)
      \<longleftrightarrow> windowOf lineage grid ss s = None \<or> (\<exists>s' \<in> set ss. owned lineage s' \<and> snapKey lineage s' < snapKey lineage s
              \<and> windowOf lineage grid ss s' = windowOf lineage grid ss s)"
    unfolding earlier windowTaken_def windowOf_def retentionWindow_def j
    by (auto simp: windowSet_def split: option.splits if_splits)
  note nth = decideItems_nth [OF j(1), of "g_buckets grid" "newestInstant lineage ss" "newestOwned 0 (-1) cs" 0 "[]"]
  have "dc_Destroy ?d \<longleftrightarrow> prunable lineage grid ss s"
    using nth newest taken unfolding prunable_def j by auto
  then show thesis using that in_ds nth j by simp
qed

lemma decisions_names:
  assumes "PlanPrune dataset lineage grid ss = Inr ds"
  shows "map dc_Snapshot ds = sort (map sn_Name ss) \<and> distinct (map dc_Snapshot ds)"
proof -
  obtain cs where cs: "cs = sort_key candidateKey (map (toCandidate lineage) ss)" and dist: "distinct (map sn_Name ss)"
    and ds: "ds = sort_key dc_Snapshot (decideItems (g_buckets grid) (newestInstant lineage ss) (newestOwned 0 (-1) cs) 0 [] cs)"
    by (rule PlanPrune_parts [OF assms])
  let ?r = "decideItems (g_buckets grid) (newestInstant lineage ss) (newestOwned 0 (-1) cs) 0 [] cs"
  have "map dc_Snapshot ?r = map (\<lambda>c. sn_Name (ca_snapshot c)) cs"
    by (rule nth_equalityI) (simp_all add: decideItems_nth)
  moreover have "mset (map (\<lambda>c. sn_Name (ca_snapshot c)) cs) = mset (map sn_Name ss)"
    by (simp add: cs multiset.map_comp comp_def)
  moreover have "mset (map dc_Snapshot ds) = mset (map dc_Snapshot ?r)" unfolding ds by simp
  ultimately have m: "mset (map dc_Snapshot ds) = mset (map sn_Name ss)" by simp
  have "sorted (map dc_Snapshot ds)" by (simp add: ds)
  then have "map dc_Snapshot ds = sort (map sn_Name ss)" using properties_for_sort [OF m] by simp
  then show ?thesis using dist by simp
qed

text \<open>
  C1: when pruning is planned at all, there is one decision for each snapshot, under its name and GUID, and
  the decision is to destroy exactly when the snapshot is owned, has no hold, no clone and no resumable
  receive depending on it, some owned snapshot is newer, and it is either older than the whole grid or an owned
  snapshot older than it lies in the same retention window.
\<close>

theorem PlanPrune_destroys_exactly:
  assumes "PlanPrune dataset lineage grid snapshots = Inr decisions" and "s \<in> set snapshots"
  shows "map dc_Snapshot decisions = sort (map sn_Name snapshots)
    \<and> (\<exists>d \<in> set decisions. dc_Snapshot d = sn_Name s \<and> dc_GUID d = sn_GUID s
         \<and> (dc_Destroy d \<longleftrightarrow>
              owned lineage s \<and> sn_Holds s = [] \<and> sn_Clones s = [] \<and> \<not> sn_ResumeRequired s
              \<and> (\<exists>s' \<in> set snapshots. owned lineage s' \<and> snapKey lineage s < snapKey lineage s')
              \<and> (windowOf lineage grid snapshots s = None
                 \<or> (\<exists>s' \<in> set snapshots. owned lineage s' \<and> snapKey lineage s' < snapKey lineage s
                      \<and> windowOf lineage grid snapshots s' = windowOf lineage grid snapshots s))))"
proof -
  obtain d where "d \<in> set decisions" "dc_Snapshot d = sn_Name s" "dc_GUID d = sn_GUID s"
    "dc_Destroy d \<longleftrightarrow> prunable lineage grid snapshots s"
    by (rule decision_of [OF assms])
  then show ?thesis
    using decisions_names [OF assms(1)] unfolding prunable_def keptAnyway_def by blast
qed

lemma least_and_greatest:
  assumes "finite S" "S \<noteq> {}"
  obtains x y where "x \<in> S" "\<forall>z \<in> S. f x \<le> (f z :: 'k :: linorder)" "y \<in> S" "\<forall>z \<in> S. f z \<le> f y"
proof -
  have "Min (f ` S) \<in> f ` S" "Max (f ` S) \<in> f ` S" using assms by simp_all
  then obtain x y where x: "x \<in> S" "f x = Min (f ` S)" and y: "y \<in> S" "f y = Max (f ` S)" by auto
  then have "\<forall>z \<in> S. f x \<le> f z" "\<forall>z \<in> S. f z \<le> f y" using assms(1) by simp_all
  with x(1) y(1) show thesis using that by blast
qed

definition survives :: "string \<Rightarrow> Snapshot list \<Rightarrow> Decision list \<Rightarrow> Snapshot \<Rightarrow> bool" where
  "survives lineage ss ds s =
     (s \<in> set ss \<and> owned lineage s \<and> (\<forall>d \<in> set ds. dc_Snapshot d = sn_Name s \<longrightarrow> \<not> dc_Destroy d))"

lemma not_prunable_survives:
  assumes plan: "PlanPrune dataset lineage grid ss = Inr ds" and s: "s \<in> set ss" "owned lineage s"
    and np: "\<not> prunable lineage grid ss s"
  shows "survives lineage ss ds s"
proof -
  obtain d where d: "d \<in> set ds" "dc_Snapshot d = sn_Name s" "dc_Destroy d \<longleftrightarrow> prunable lineage grid ss s"
    by (rule decision_of [OF plan s(1)])
  have "distinct (map dc_Snapshot ds)" using decisions_names [OF plan] by blast
  then have uniq: "d' = d" if "d' \<in> set ds" "dc_Snapshot d' = sn_Name s" for d'
    using that d inj_onD [of dc_Snapshot "set ds" d' d] by (simp add: distinct_map)
  have "\<not> dc_Destroy d'" if "d' \<in> set ds" "dc_Snapshot d' = sn_Name s" for d'
    unfolding uniq [OF that] using d(3) np by blast
  then show ?thesis using s by (simp add: survives_def)
qed

text \<open>
  C2: carrying a plan out never loses what the policy promises. If a dataset has an owned snapshot,
  an owned snapshot at the newest instant survives, so a replica keeps the base of its next incremental; and every
  retention window that held an owned snapshot still holds one, its oldest.
\<close>

theorem PlanPrune_keeps_newest_and_windows:
  assumes "PlanPrune dataset lineage grid snapshots = Inr decisions"
    and "s \<in> set snapshots" and "owned lineage s"
  shows "(\<exists>n. survives lineage snapshots decisions n
            \<and> (\<forall>s' \<in> set snapshots. owned lineage s' \<longrightarrow> createdAt lineage s' \<le> createdAt lineage n))
    \<and> (windowOf lineage grid snapshots s \<noteq> None \<longrightarrow>
         (\<exists>w. survives lineage snapshots decisions w
            \<and> windowOf lineage grid snapshots w = windowOf lineage grid snapshots s
            \<and> (\<forall>s' \<in> set snapshots. owned lineage s' \<and> windowOf lineage grid snapshots s' = windowOf lineage grid snapshots s
                 \<longrightarrow> createdAt lineage w \<le> createdAt lineage s')))"
proof (intro conjI impI)
  let ?O = "{s' \<in> set snapshots. owned lineage s'}"
  have key: "snapKey lineage a \<le> snapKey lineage b \<Longrightarrow> createdAt lineage a \<le> createdAt lineage b" for a b
    by (auto simp: snapKey_def candidateKey_def less_eq_prod_def)
  have O: "finite ?O" "?O \<noteq> {}" using assms(2,3) by auto
  then obtain n where n: "n \<in> ?O" "\<forall>y \<in> ?O. snapKey lineage y \<le> snapKey lineage n"
    by (rule least_and_greatest [of ?O "snapKey lineage"])
  then have "\<not> prunable lineage grid snapshots n" by (auto simp: prunable_def not_less)
  then show "\<exists>n. survives lineage snapshots decisions n
            \<and> (\<forall>s' \<in> set snapshots. owned lineage s' \<longrightarrow> createdAt lineage s' \<le> createdAt lineage n)"
    using not_prunable_survives [OF assms(1)] n key by blast
  let ?W = "{s' \<in> ?O. windowOf lineage grid snapshots s' = windowOf lineage grid snapshots s}"
  assume some: "windowOf lineage grid snapshots s \<noteq> None"
  have "finite ?W" "?W \<noteq> {}" using assms(2,3) by auto
  then obtain w where w: "w \<in> ?W" "\<forall>y \<in> ?W. snapKey lineage w \<le> snapKey lineage y"
    by (rule least_and_greatest [of ?W "snapKey lineage"])
  then have "\<not> prunable lineage grid snapshots w" using some by (auto simp: prunable_def not_less)
  then show "\<exists>w. survives lineage snapshots decisions w
            \<and> windowOf lineage grid snapshots w = windowOf lineage grid snapshots s
            \<and> (\<forall>s' \<in> set snapshots. owned lineage s' \<and> windowOf lineage grid snapshots s' = windowOf lineage grid snapshots s
                 \<longrightarrow> createdAt lineage w \<le> createdAt lineage s')"
    using not_prunable_survives [OF assms(1)] w key by blast
qed

subsection \<open>Concrete snapshots\<close>

definition exLineage :: string where
  "exLineage = ''01010101-0101-4101-8101-010101010101''"

definition exSnapshot :: "instant \<Rightarrow> nat \<Rightarrow> Snapshot" where
  "exSnapshot t g =
     (let m = \<lparr>md_Lineage = exLineage, md_Snapshot = exLineage, md_Created = t\<rparr>;
          name = ''tank@'' @ metadataName m in
      \<lparr>sn_Name = name, sn_GUID = g,
       sn_Properties = map (\<lambda>(k, v). \<lparr>p_Dataset = name, p_Name = k, p_Value = v, p_Source = SourceLocal\<rparr>) (metadataProperties m),
       sn_Holds = [], sn_Clones = [], sn_ResumeRequired = False\<rparr>)"

definition exGrid :: Grid where
  "exGrid = \<lparr>g_buckets = [\<lparr>bk_Count = 2, bk_Span = 60 * Minute\<rparr>], g_text = ''2x1h'', g_horizon = 120 * Minute\<rparr>"

definition exSnapshots :: "Snapshot list" where
  "exSnapshots = [exSnapshot (1000 * Minute) 3, exSnapshot (1001 * Minute) 4]"

lemma ex_plan: "is_ok (PlanPrune ''tank'' exLineage exGrid exSnapshots)"
  and ex_owned: "owned exLineage (exSnapshot (1001 * Minute) 4)"
  by code_simp+

theorem PlanPrune_destroys_exactly_witness:
  "\<exists>ds. PlanPrune ''tank'' exLineage exGrid exSnapshots = Inr ds
     \<and> (\<exists>d \<in> set ds. dc_Snapshot d = sn_Name (exSnapshot (1001 * Minute) 4) \<and> dc_GUID d = 4)"
proof -
  obtain ds where ds: "PlanPrune ''tank'' exLineage exGrid exSnapshots = Inr ds"
    using ex_plan by (auto simp: is_ok_def split: sum.splits)
  have s: "exSnapshot (1001 * Minute) 4 \<in> set exSnapshots" by (simp add: exSnapshots_def)
  have "sn_GUID (exSnapshot (1001 * Minute) 4) = 4" by code_simp
  then show ?thesis using PlanPrune_destroys_exactly [OF ds s] ds by metis
qed

theorem PlanPrune_keeps_newest_and_windows_witness:
  "\<exists>ds n. PlanPrune ''tank'' exLineage exGrid exSnapshots = Inr ds \<and> survives exLineage exSnapshots ds n"
proof -
  obtain ds where ds: "PlanPrune ''tank'' exLineage exGrid exSnapshots = Inr ds"
    using ex_plan by (auto simp: is_ok_def split: sum.splits)
  have s: "exSnapshot (1001 * Minute) 4 \<in> set exSnapshots" by (simp add: exSnapshots_def)
  show ?thesis using PlanPrune_keeps_newest_and_windows [OF ds s ex_owned] ds by blast
qed

lemma newestCreated_Inr:
  "newestCreated dataset lineage t ss = Inr n \<Longrightarrow>
     n = fold (\<lambda>c t. if ca_owned c \<and> ca_created c > t then ca_created c else t) (map (toCandidate lineage) ss) t"
proof (induction dataset lineage t ss rule: newestCreated.induct)
  case (2 dataset lineage t s ss)
  have "(case Ownership s lineage of Inr m \<Rightarrow> if md_Created m > t then md_Created m else t | Inl _ \<Rightarrow> t)
      = (if owned lineage s \<and> createdAt lineage s > t then createdAt lineage s else t)"
    by (auto simp: owned_def createdAt_def toCandidate_def split: sum.splits)
  then show ?case using 2 by (auto split: if_splits)
qed simp

lemma owned_created_pos: "owned lineage s \<Longrightarrow> 0 < createdAt lineage s"
proof -
  assume "owned lineage s"
  then obtain m where m: "Ownership s lineage = Inr m" by (auto simp: owned_def is_ok_def split: sum.splits)
  then have y: "1 \<le> Year (md_Created m)" "md_Created m \<noteq> 0" by (auto simp: Ownership_iff ownedBy_def)
  have "0 \<le> md_Created m div DayNanos"
  proof (rule ccontr)
    assume neg: "\<not> 0 \<le> md_Created m div DayNanos"
    have "daysBefore 1 = 0" by (simp add: daysBefore_def)
    then have "0 \<le> daysBefore (Year (md_Created m))" using daysBefore_mono [OF y(1)] by simp
    then show False using yearOfDay_bounds [of "md_Created m div DayNanos"] neg by (simp add: Year_def)
  qed
  then have "0 \<le> md_Created m" by (simp add: pos_imp_zdiv_nonneg_iff)
  then show ?thesis using createdAt_owned [OF m] y by simp
qed

text \<open>
  C11: a snapshot is due exactly when every owned snapshot is older than the cadence: a snapshot exactly
  one cadence old is not yet due, and a dataset with no owned snapshot is due at once.
\<close>

theorem SnapshotDue_iff_all_older:
  assumes "SnapshotDue now dataset lineage grid snapshots = Inr due"
  shows "due \<longleftrightarrow> (\<forall>s \<in> set snapshots. owned lineage s \<longrightarrow> Cadence grid < Sub now (createdAt lineage s))"
proof -
  let ?S = "{createdAt lineage s | s. s \<in> set snapshots \<and> owned lineage s}"
  obtain n where n: "newestCreated dataset lineage 0 snapshots = Inr n" and due: "due \<longleftrightarrow> n = 0 \<or> Cadence grid < Sub now n"
    using assms by (auto simp: SnapshotDue_def result_iffs IsZero_def split: if_splits)
  have n_def: "n = Max (insert 0 ?S)" using newestCreated_Inr [OF n] by (simp add: fold_newest)
  have le: "x \<le> n" if "x \<in> ?S" for x unfolding n_def using that by simp
  have mono: "Cadence grid < Sub now y" if "Cadence grid < Sub now z" "y \<le> z" for y z
    using that by (auto simp: Sub_def)
  show ?thesis
  proof (cases "?S = {}")
    case True
    have "n = 0" unfolding n_def True by simp
    then have "due" using due by simp
    then show ?thesis using True by blast
  next
    case False
    then have "n \<in> ?S"
    proof -
      have "n \<in> insert 0 ?S" unfolding n_def by (rule Max_in) auto
      moreover obtain x where "x \<in> ?S" using False by blast
      then have "0 < n" using le owned_created_pos by fastforce
      ultimately show ?thesis by auto
    qed
    then obtain s where s: "s \<in> set snapshots" "owned lineage s" "n = createdAt lineage s" by blast
    then have "n \<noteq> 0" using owned_created_pos by fastforce
    then show ?thesis using due s le mono by blast
  qed
qed

theorem SnapshotDue_iff_all_older_witness:
  "\<exists>due. SnapshotDue (2000 * Minute) ''tank'' exLineage exGrid [exSnapshot (1000 * Minute) 3] = Inr due
     \<and> (due \<longleftrightarrow> (\<forall>s \<in> {exSnapshot (1000 * Minute) 3}. owned exLineage s \<longrightarrow> Cadence exGrid < Sub (2000 * Minute) (createdAt exLineage s)))"
proof -
  have "is_ok (SnapshotDue (2000 * Minute) ''tank'' exLineage exGrid [exSnapshot (1000 * Minute) 3])" by code_simp
  then obtain due where d: "SnapshotDue (2000 * Minute) ''tank'' exLineage exGrid [exSnapshot (1000 * Minute) 3] = Inr due"
    by (auto simp: is_ok_def split: sum.splits)
  show ?thesis using SnapshotDue_iff_all_older [OF d] d by simp
qed

end
