(* ===== verification/Policy_Resolve.thy ===== *)
theory Policy_Resolve
  imports Policy_Grid Zfs_State
begin

section \<open>Effective policy\<close>

text \<open>
  \<open>internal/policy/resolve.go\<close>: the policy of one dataset, from the values its parent resolved and the
  properties stored on it. \<open>Effective\<close> keeps its errors and warnings as values in the order the code
  appends them; the final \<open>slices.Sort\<close> of the two lists only orders the texts that are shown and is not
  modelled. \<open>Clone\<close> copies slices and maps, which values do not need.
\<close>

subsection \<open>Definitions\<close>

abbreviation Namespace :: string where "Namespace \<equiv> propertyNamespace"

record PValue =
  v_Value :: string
  v_Dataset :: string

record Flags =
  f_LargeBlocks :: bool
  f_Compressed :: bool
  f_EmbeddedData :: bool
  f_Raw :: bool
  f_Props :: bool
  f_Replicate :: bool

record Effective =
  e_Enabled :: bool
  e_Grid :: Grid
  e_Remote :: "string list"
  e_Local :: "string list"
  e_Incremental :: string
  e_Requested :: Flags
  e_Send :: Flags
  e_SetProperties :: "(string, string) gomap"
  e_IgnoreProperties :: "string list"
  e_Discard :: string
  e_Values :: "(string, PValue) gomap"
  e_Warnings :: "go_error list"
  e_Errors :: "go_error list"

definition policyValid :: "Effective \<Rightarrow> bool" where
  "policyValid p = (e_Errors p = [])"

definition IsPublic :: "string \<Rightarrow> bool" where
  "IsPublic name = (HasPrefix name Namespace \<and> \<not> HasPrefix name (Namespace @ ''state:''))"

definition zeroGrid :: Grid where
  "zeroGrid = \<lparr>g_buckets = [], g_text = [], g_horizon = 0\<rparr>"

text \<open>\<open>p.Values[Namespace+key].Value\<close>, empty when the key is missing.\<close>

definition valueOf :: "(string, PValue) gomap \<Rightarrow> string \<Rightarrow> string" where
  "valueOf vals key = (case mget vals (Namespace @ key) of Some v \<Rightarrow> v_Value v | None \<Rightarrow> [])"

definition toggle :: "(string, PValue) gomap \<Rightarrow> string \<Rightarrow> bool \<times> go_error list" where
  "toggle vals key =
     (valueOf vals key = ''on'',
      if valueOf vals key \<noteq> ''on'' \<and> valueOf vals key \<noteq> ''off''
      then [Errorf ''%s must be on or off'' [Arg key]] else [])"

fun collectTargets :: "string list \<Rightarrow> string list \<Rightarrow> string list result" where
  "collectTargets targets [] = Inr targets"
| "collectTargets targets (part # parts) =
     (let target = TrimSpace part in
      if target = [] then Inl (Errorf ''target list contains an empty entry'' [])
      else collectTargets (if target \<in> set targets then targets else targets @ [target]) parts)"

definition ParseTargets :: "string \<Rightarrow> string list result" where
  "ParseTargets v = collectTargets [] (Split v (CHR '',''))"

definition targets :: "(string, PValue) gomap \<Rightarrow> string \<Rightarrow> string list \<times> go_error list" where
  "targets vals key =
     (case mget vals (Namespace @ key) of
        None \<Rightarrow> ([], [])
      | Some v \<Rightarrow>
          (case ParseTargets (v_Value v) of
             Inl e \<Rightarrow> ([], [Errorf ''%s: %w'' [Arg key, Wrap e]])
           | Inr ts \<Rightarrow> (ts, [])))"

definition defaults :: "bool \<Rightarrow> (string \<times> string) list" where
  "defaults encrypted =
     [(''enabled'', ''off''), (''policy'', DefaultGrid), (''large_blocks'', ''on''), (''compressed'', ''on''),
      (''raw'', if encrypted then ''on'' else ''off''), (''props'', ''off''), (''incremental'', ''all''),
      (''replicate'', ''off''), (''discard'', ''off'')]"

definition inheritValues :: "Effective option \<Rightarrow> (string, PValue) gomap" where
  "inheritValues parent =
     (case parent of
        None \<Rightarrow> []
      | Some p \<Rightarrow> fold (\<lambda>(k, v) m. if v_Dataset v \<noteq> [] then mput k v m else m) (e_Values p) [])"

definition storedValues :: "Dataset \<Rightarrow> Property list \<Rightarrow> (string, PValue) gomap \<Rightarrow> (string, PValue) gomap" where
  "storedValues dataset stored vals =
     fold (\<lambda>p m.
       if p_Dataset p = ds_Name dataset \<and> p_Source p = SourceLocal \<and> IsPublic (p_Name p)
       then mput (p_Name p) \<lparr>v_Value = p_Value p, v_Dataset = ds_Name dataset\<rparr> m else m) stored vals"

definition defaultValues :: "bool \<Rightarrow> (string, PValue) gomap \<Rightarrow> (string, PValue) gomap" where
  "defaultValues encrypted vals =
     fold (\<lambda>(key, v) m.
       if mget m (Namespace @ key) = None then mput (Namespace @ key) \<lparr>v_Value = v, v_Dataset = []\<rparr> m else m)
       (defaults encrypted) vals"

definition unknownKeys :: "bool \<Rightarrow> (string, PValue) gomap \<Rightarrow> go_error list" where
  "unknownKeys encrypted vals =
     concat (map (\<lambda>key.
       let name = TrimPrefix key Namespace in
       if map_of (defaults encrypted) name = None \<and> name \<noteq> ''remote'' \<and> name \<noteq> ''local''
          \<and> \<not> HasPrefix name ''set_prop:'' \<and> \<not> HasPrefix name ''ignore_prop:''
       then [Errorf ''unknown public property %s'' [Arg key]] else []) (mkeys vals))"

text \<open>The loop of \<open>receiveProperties\<close> over the keys in order: the overrides, the exclusions, the errors.\<close>

definition receiveStep ::
  "(string, PValue) gomap \<Rightarrow> string \<Rightarrow> (string, string) gomap \<times> string list \<times> go_error list \<Rightarrow>
   (string, string) gomap \<times> string list \<times> go_error list" where
  "receiveStep vals key acc =
     (let (sets, ignores, errs) = acc;
          name = TrimPrefix key Namespace; (kind, target, dynamic) = Cut name (CHR '':'') in
      if \<not> dynamic \<or> (kind \<noteq> ''set_prop'' \<and> kind \<noteq> ''ignore_prop'') then acc
      else if target = [] \<or> HasPrefix target Namespace \<or> ContainsAny target ''='' \<or> hasSpaceOrControl target
      then (sets, ignores, errs @ [Errorf ''invalid or reserved receive property: %s'' [Arg target]])
      else if kind = ''set_prop'' then
        (mput target (case mget vals key of Some v \<Rightarrow> v_Value v | None \<Rightarrow> []) sets, ignores, errs)
      else
        (let (on, es) = toggle vals name in
         (sets, if on then ignores @ [target] else ignores, errs @ es)))"

definition receiveLoop ::
  "(string, PValue) gomap \<Rightarrow> (string, string) gomap \<times> string list \<times> go_error list" where
  "receiveLoop vals = fold (receiveStep vals) (mkeys vals) ([], [], [])"

definition validateRawReceive :: "(string, string) gomap \<Rightarrow> string list \<Rightarrow> go_error list" where
  "validateRawReceive sets ignores =
     concat (map (\<lambda>key.
       (if mget sets key \<noteq> None then [Errorf ''raw encrypted stream cannot override %s'' [Arg key]] else [])
       @ (if key \<in> set ignores then [Errorf ''raw encrypted stream cannot exclude %s'' [Arg key]] else []))
       [''encryption'', ''keyformat'', ''pbkdf2iters''])"

definition isEncrypted :: "Dataset \<Rightarrow> bool" where
  "isEncrypted dataset = (ds_EncryptionRoot dataset \<noteq> [] \<and> ds_EncryptionRoot dataset \<noteq> ''-'')"

text \<open>The checks and choices of \<open>Resolve\<close>, in the order it makes them.\<close>

definition policyGrid :: "(string, PValue) gomap \<Rightarrow> Grid \<times> go_error list" where
  "policyGrid vals =
     (case ParseGrid (valueOf vals ''policy'') of
        Inl e \<Rightarrow> (zeroGrid, [Errorf ''policy: %w'' [Wrap e]])
      | Inr g \<Rightarrow> (g, []))"

definition remoteErrors :: "string list \<Rightarrow> string list \<Rightarrow> go_error list" where
  "remoteErrors remotes remote =
     concat (map (\<lambda>r. if r \<notin> set remotes then [Errorf ''unknown remote %q'' [Arg r]] else []) remote)"

definition localErrors :: "string list \<Rightarrow> go_error list" where
  "localErrors loc =
     concat (map (\<lambda>l. case validateDataset l of Some e \<Rightarrow> [Errorf ''local: %w'' [Wrap e]] | None \<Rightarrow> []) loc)"

definition incrementalErrors :: "string \<Rightarrow> go_error list" where
  "incrementalErrors incremental =
     (if incremental \<noteq> ''all'' \<and> incremental \<noteq> ''latest'' then [Errorf ''incremental must be all or latest'' []] else [])"

definition requestedFlags :: "(string, PValue) gomap \<Rightarrow> Flags" where
  "requestedFlags vals =
     \<lparr>f_LargeBlocks = fst (toggle vals ''large_blocks''), f_Compressed = fst (toggle vals ''compressed''),
      f_EmbeddedData = False, f_Raw = fst (toggle vals ''raw''), f_Props = fst (toggle vals ''props''),
      f_Replicate = fst (toggle vals ''replicate'')\<rparr>"

definition flagErrors :: "(string, PValue) gomap \<Rightarrow> go_error list" where
  "flagErrors vals =
     concat (map (\<lambda>key. snd (toggle vals key)) [''large_blocks'', ''compressed'', ''raw'', ''props'', ''replicate''])"

definition effectiveSend :: "bool \<Rightarrow> Flags \<Rightarrow> Flags \<times> go_error list" where
  "effectiveSend encrypted requested =
     (let send = (if f_Replicate requested then requested\<lparr>f_Props := True\<rparr> else requested) in
      if f_Raw send \<and> \<not> encrypted then
        (send\<lparr>f_LargeBlocks := True, f_Compressed := True, f_EmbeddedData := True\<rparr>,
         if \<not> f_LargeBlocks requested \<or> \<not> f_Compressed requested
         then [Errorf ''raw sends of unencrypted data imply large_blocks and compressed'' []] else [])
      else (send, []))"

definition replicateErrors :: "bool \<Rightarrow> Flags \<Rightarrow> go_error list" where
  "replicateErrors encrypted send =
     (if f_Replicate send \<and> encrypted \<and> \<not> f_Raw send
      then [Errorf ''encrypted recursive replication requires raw=on'' []] else [])"

definition discardErrors :: "string \<Rightarrow> go_error list" where
  "discardErrors discard =
     (if discard \<noteq> ''off'' \<and> discard \<noteq> ''first'' \<and> discard \<noteq> ''all''
      then [Errorf ''discard must be off, first, or all'' []] else [])"

text \<open>\<open>receiveProperties\<close>: overrides, remaining exclusions, warnings, errors.\<close>

definition receiveProperties ::
  "(string, PValue) gomap \<Rightarrow> bool \<Rightarrow> Flags \<Rightarrow>
   (string, string) gomap \<times> string list \<times> go_error list \<times> go_error list" where
  "receiveProperties vals encrypted send =
     (let (sets, ignores, errs) = receiveLoop vals;
          kept = filter (\<lambda>k. mget sets k = None) ignores;
          warns = map (\<lambda>k. Errorf ''set_prop wins over ignore_prop for %s'' [Arg k]) (filter (\<lambda>k. mget sets k \<noteq> None) ignores)
      in (sets, kept, warns, errs @ (if f_Raw send \<and> encrypted then validateRawReceive sets kept else [])))"

definition Resolve :: "Dataset \<Rightarrow> Effective option \<Rightarrow> Property list \<Rightarrow> string list \<Rightarrow> Effective" where
  "Resolve dataset parent stored remotes =
     (let encrypted = isEncrypted dataset;
          vals = defaultValues encrypted (storedValues dataset stored (inheritValues parent));
          (enabled, enabledErrs) = toggle vals ''enabled'';
          (grid, gridErrs) = policyGrid vals;
          (remote, remoteErrs) = targets vals ''remote'';
          (loc, localErrs) = targets vals ''local'';
          incremental = valueOf vals ''incremental'';
          requested = requestedFlags vals;
          (send, warns) = effectiveSend encrypted requested;
          discard = valueOf vals ''discard'';
          (sets, kept, receiveWarns, receiveErrs) = receiveProperties vals encrypted send
      in \<lparr>e_Enabled = enabled, e_Grid = grid, e_Remote = remote, e_Local = loc, e_Incremental = incremental,
          e_Requested = requested, e_Send = send, e_SetProperties = sets, e_IgnoreProperties = kept,
          e_Discard = discard, e_Values = vals, e_Warnings = warns @ receiveWarns,
          e_Errors = unknownKeys encrypted vals @ enabledErrs @ gridErrs @ remoteErrs @ localErrs
            @ remoteErrors remotes remote @ localErrors loc @ incrementalErrors incremental @ flagErrors vals
            @ replicateErrors encrypted send @ discardErrors discard @ receiveErrs\<rparr>)"

definition ForReplicationScope :: "Effective \<Rightarrow> bool \<Rightarrow> string \<Rightarrow> Effective" where
  "ForReplicationScope p rootEncrypted encryptedDescendant =
     (if \<not> f_Replicate (e_Send p) \<or> encryptedDescendant = [] then p
      else if \<not> f_Raw (e_Send p)
              \<and> (case mget (e_Values p) (Namespace @ ''raw'') of Some v \<Rightarrow> v_Dataset v | None \<Rightarrow> []) \<noteq> []
      then p\<lparr>e_Errors := e_Errors p @ [Errorf ''encrypted replication descendant %s requires raw=on; explicit raw setting forbids automatic selection'' [Arg encryptedDescendant]]\<rparr>
      else
        (let p =
           (if \<not> f_Raw (e_Send p) then
              (let p = p\<lparr>e_Send := (e_Send p)\<lparr>f_Raw := True\<rparr>,
                         e_Warnings := e_Warnings p @ [Errorf ''raw enabled automatically for encrypted replication descendant %s'' [Arg encryptedDescendant]]\<rparr>
               in if \<not> rootEncrypted then
                    p\<lparr>e_Send := (e_Send p)\<lparr>f_LargeBlocks := True, f_Compressed := True, f_EmbeddedData := True\<rparr>,
                      e_Warnings := e_Warnings p
                        @ (if \<not> f_LargeBlocks (e_Requested p) \<or> \<not> f_Compressed (e_Requested p)
                           then [Errorf ''raw sends of unencrypted data imply large_blocks and compressed'' []] else [])\<rparr>
                  else p)
            else p) in
         p\<lparr>e_Errors := remdups (e_Errors p @ validateRawReceive (e_SetProperties p) (e_IgnoreProperties p)),
           e_Warnings := remdups (e_Warnings p)\<rparr>))"

subsection \<open>The fields of a resolved policy\<close>

abbreviation resolvedValues :: "Dataset \<Rightarrow> Effective option \<Rightarrow> Property list \<Rightarrow> (string, PValue) gomap" where
  "resolvedValues dataset parent stored \<equiv>
     defaultValues (isEncrypted dataset) (storedValues dataset stored (inheritValues parent))"

lemma Resolve_fields:
  "e_Values (Resolve dataset parent stored remotes) = resolvedValues dataset parent stored"
  "e_SetProperties (Resolve dataset parent stored remotes) = fst (receiveLoop (resolvedValues dataset parent stored))"
  "e_IgnoreProperties (Resolve dataset parent stored remotes) =
     filter (\<lambda>k. mget (fst (receiveLoop (resolvedValues dataset parent stored))) k = None)
       (fst (snd (receiveLoop (resolvedValues dataset parent stored))))"
  "e_Incremental (Resolve dataset parent stored remotes) = valueOf (resolvedValues dataset parent stored) ''incremental''"
  "e_Discard (Resolve dataset parent stored remotes) = valueOf (resolvedValues dataset parent stored) ''discard''"
  "e_Remote (Resolve dataset parent stored remotes) = fst (targets (resolvedValues dataset parent stored) ''remote'')"
  "e_Local (Resolve dataset parent stored remotes) = fst (targets (resolvedValues dataset parent stored) ''local'')"
  "e_Grid (Resolve dataset parent stored remotes) = fst (policyGrid (resolvedValues dataset parent stored))"
  "e_Send (Resolve dataset parent stored remotes) =
     fst (effectiveSend (isEncrypted dataset) (requestedFlags (resolvedValues dataset parent stored)))"
  by (simp_all add: Resolve_def Let_def case_prod_beta receiveProperties_def)

lemma inheritValues_mem:
  assumes "mget (inheritValues parent) k = Some v"
  shows "\<exists>q. parent = Some q \<and> (k, v) \<in> set (e_Values q) \<and> v_Dataset v \<noteq> []"
proof -
  have "mget (fold (\<lambda>(k, v) m. if v_Dataset v \<noteq> [] then mput k v m else m) es m) k = Some v \<Longrightarrow>
      mget m k = Some v \<or> ((k, v) \<in> set es \<and> v_Dataset v \<noteq> [])" for es m
  proof (induction es arbitrary: m)
    case (Cons e es)
    obtain k' v' where e: "e = (k', v')" by (cases e)
    then have "mget (if v_Dataset v' \<noteq> [] then mput k' v' m else m) k = Some v \<or> ((k, v) \<in> set es \<and> v_Dataset v \<noteq> [])"
      using Cons by simp
    then show ?case using e by (cases "v_Dataset v' = []"; cases "k = k'") auto
  qed simp
  from this [of _ "[]"] show ?thesis using assms by (auto simp: inheritValues_def split: option.splits)
qed

lemma storedValues_mem:
  "mget (storedValues dataset stored m) k = Some v \<Longrightarrow> mget m k = Some v \<or>
     (v_Dataset v = ds_Name dataset \<and> IsPublic k \<and>
      \<lparr>p_Dataset = ds_Name dataset, p_Name = k, p_Value = v_Value v, p_Source = SourceLocal\<rparr> \<in> set stored)"
proof (induction stored arbitrary: m)
  case (Cons p ps)
  let ?m = "if p_Dataset p = ds_Name dataset \<and> p_Source p = SourceLocal \<and> IsPublic (p_Name p)
     then mput (p_Name p) \<lparr>v_Value = p_Value p, v_Dataset = ds_Name dataset\<rparr> m else m"
  have "storedValues dataset (p # ps) m = storedValues dataset ps ?m" by (simp add: storedValues_def)
  then have or: "mget ?m k = Some v \<or> (v_Dataset v = ds_Name dataset \<and> IsPublic k \<and>
      \<lparr>p_Dataset = ds_Name dataset, p_Name = k, p_Value = v_Value v, p_Source = SourceLocal\<rparr> \<in> set ps)"
    using Cons.IH [of ?m] Cons.prems by simp
  show ?case
  proof (cases "p_Dataset p = ds_Name dataset \<and> p_Source p = SourceLocal \<and> IsPublic (p_Name p) \<and> p_Name p = k")
    case True
    then have "p = \<lparr>p_Dataset = ds_Name dataset, p_Name = k, p_Value = p_Value p, p_Source = SourceLocal\<rparr>" by (cases p) simp
    then show ?thesis using or True by (auto split: if_splits)
  next
    case False
    then show ?thesis using or by (auto split: if_splits)
  qed
qed (simp add: storedValues_def)

lemma defaultValues_mem:
  assumes "mget (defaultValues encrypted m) k = Some v"
  shows "mget m k = Some v \<or> (v_Dataset v = [] \<and> (\<exists>key. (key, v_Value v) \<in> set (defaults encrypted) \<and> k = Namespace @ key))"
proof -
  have "mget (fold (\<lambda>(key, v) m. if mget m (Namespace @ key) = None then mput (Namespace @ key) \<lparr>v_Value = v, v_Dataset = []\<rparr> m else m) ds m) k = Some v \<Longrightarrow>
      mget m k = Some v \<or> (v_Dataset v = [] \<and> (\<exists>key. (key, v_Value v) \<in> set ds \<and> k = Namespace @ key))" for ds m
    by (induction ds arbitrary: m) (fastforce split: if_splits)+
  from this [of "defaults encrypted" m] show ?thesis using assms by (simp add: defaultValues_def)
qed

text \<open>
  C15: every value of a resolved policy is one of three things: a public property set locally on the dataset itself, a
  value the parent's policy had from a local setting, or a default. Received properties and the
  program's own state never become policy.
\<close>

theorem Resolve_values_are_local:
  assumes "mget (e_Values (Resolve dataset parent stored remotes)) k = Some v"
  shows "(v_Dataset v = ds_Name dataset \<and> IsPublic k
            \<and> \<lparr>p_Dataset = ds_Name dataset, p_Name = k, p_Value = v_Value v, p_Source = SourceLocal\<rparr> \<in> set stored)
    \<or> (\<exists>q. parent = Some q \<and> (k, v) \<in> set (e_Values q) \<and> v_Dataset v \<noteq> [])
    \<or> (v_Dataset v = [] \<and> (\<exists>key. (key, v_Value v) \<in> set (defaults (isEncrypted dataset)) \<and> k = Namespace @ key))"
  using assms defaultValues_mem storedValues_mem inheritValues_mem unfolding Resolve_fields by meson

definition exDataset :: Dataset where
  "exDataset = \<lparr>ds_Name = ''tank'', ds_Type = Filesystem, ds_EncryptionRoot = ''-''\<rparr>"

theorem Resolve_values_are_local_witness:
  "mget (e_Values (Resolve exDataset None [] [])) (Namespace @ ''raw'') = Some \<lparr>v_Value = ''off'', v_Dataset = []\<rparr>
   \<and> (\<exists>key. (key, ''off'') \<in> set (defaults (isEncrypted exDataset)) \<and> Namespace @ ''raw'' = Namespace @ key)"
proof -
  have m: "mget (e_Values (Resolve exDataset None [] [])) (Namespace @ ''raw'') = Some \<lparr>v_Value = ''off'', v_Dataset = []\<rparr>"
    unfolding Resolve_fields by code_simp
  then show ?thesis using Resolve_values_are_local [OF m] by (simp add: exDataset_def)
qed

definition goodTarget :: "string \<Rightarrow> bool" where
  "goodTarget t = (t \<noteq> [] \<and> \<not> HasPrefix t Namespace \<and> CHR ''='' \<notin> set t \<and> \<not> hasSpaceOrControl t)"

lemma receiveStep_good:
  assumes "\<forall>k \<in> set (mkeys (fst acc)) \<union> set (fst (snd acc)). goodTarget k"
  shows "\<forall>k \<in> set (mkeys (fst (receiveStep vals key acc))) \<union> set (fst (snd (receiveStep vals key acc))). goodTarget k"
proof -
  obtain sets ignores errs where acc: "acc = (sets, ignores, errs)" by (cases acc)
  obtain kind target dynamic where cut: "Cut (TrimPrefix key Namespace) (CHR '':'') = (kind, target, dynamic)"
    by (cases "Cut (TrimPrefix key Namespace) (CHR '':'')") auto
  have good: "\<not> (target = [] \<or> HasPrefix target Namespace \<or> ContainsAny target ''='' \<or> hasSpaceOrControl target) \<Longrightarrow> goodTarget target"
    by (auto simp: goodTarget_def ContainsAny_def list_ex_iff)
  show ?thesis using assms good
    unfolding receiveStep_def acc Let_def prod.case cut
    by (simp add: case_prod_beta mput_keys)
qed

lemma receiveLoop_good:
  "\<forall>k \<in> set (mkeys (fst (receiveLoop vals))) \<union> set (fst (snd (receiveLoop vals))). goodTarget k"
proof -
  have "\<forall>k \<in> set (mkeys (fst acc)) \<union> set (fst (snd acc)). goodTarget k \<Longrightarrow>
      \<forall>k \<in> set (mkeys (fst (fold (receiveStep vals) keys acc))) \<union> set (fst (snd (fold (receiveStep vals) keys acc))). goodTarget k"
    for keys acc
  proof (induction keys arbitrary: acc)
    case (Cons key keys)
    show ?case using Cons.IH [OF receiveStep_good [OF Cons.prems]] by simp
  qed simp
  from this [of "([], [], [])"] show ?thesis by (simp add: receiveLoop_def mkeys_def)
qed

lemma Resolve_errors:
  "e_Errors (Resolve dataset parent stored remotes) =
     (let vals = resolvedValues dataset parent stored; encrypted = isEncrypted dataset;
          p = Resolve dataset parent stored remotes in
      unknownKeys encrypted vals @ snd (toggle vals ''enabled'') @ snd (policyGrid vals) @ snd (targets vals ''remote'')
      @ snd (targets vals ''local'') @ remoteErrors remotes (e_Remote p) @ localErrors (e_Local p)
      @ incrementalErrors (e_Incremental p) @ flagErrors vals @ replicateErrors encrypted (e_Send p)
      @ discardErrors (e_Discard p) @ snd (snd (receiveLoop vals))
      @ (if f_Raw (e_Send p) \<and> encrypted then validateRawReceive (e_SetProperties p) (e_IgnoreProperties p) else []))"
  unfolding Let_def Resolve_fields by (simp add: Resolve_def Let_def case_prod_beta receiveProperties_def)

lemma no_error_iffs:
  "snd (policyGrid vals) = [] \<longleftrightarrow> ParseGrid (valueOf vals ''policy'') = Inr (fst (policyGrid vals))"
  "remoteErrors remotes rs = [] \<longleftrightarrow> (\<forall>r \<in> set rs. r \<in> set remotes)"
  "localErrors ls = [] \<longleftrightarrow> (\<forall>l \<in> set ls. validDataset l)"
  "incrementalErrors i = [] \<longleftrightarrow> i \<in> {''all'', ''latest''}"
  "replicateErrors encrypted send = [] \<longleftrightarrow> (f_Replicate send \<and> encrypted \<longrightarrow> f_Raw send)"
  "discardErrors d = [] \<longleftrightarrow> d \<in> {ReceiveExact, ReceiveDropFirst, ReceiveDropAll}"
  "validateRawReceive sets ignores = [] \<longleftrightarrow>
     (\<forall>k \<in> {''encryption'', ''keyformat'', ''pbkdf2iters''}. mget sets k = None \<and> k \<notin> set ignores)"
  by (auto simp: policyGrid_def remoteErrors_def localErrors_def incrementalErrors_def replicateErrors_def discardErrors_def
      discard_defs validateRawReceive_def split: sum.splits option.splits)

text \<open>
  C14: a policy without errors can be acted on. Its grid is well formed, its remotes are configured and its
  local targets are dataset names; no override or exclusion names a reserved property, no property is both set and
  excluded; an encrypted dataset replicates recursively only raw, and a raw encrypted stream never overrides or
  excludes the encryption parameters.
\<close>

theorem valid_policy_is_safe:
  assumes "policyValid (Resolve dataset parent stored remotes)"
  shows "let p = Resolve dataset parent stored remotes in
     wfGrid (e_Grid p) \<and> e_Incremental p \<in> {''all'', ''latest''}
     \<and> e_Discard p \<in> {ReceiveExact, ReceiveDropFirst, ReceiveDropAll}
     \<and> set (e_Remote p) \<subseteq> set remotes \<and> list_all validDataset (e_Local p)
     \<and> list_all goodTarget (mkeys (e_SetProperties p) @ e_IgnoreProperties p)
     \<and> set (mkeys (e_SetProperties p)) \<inter> set (e_IgnoreProperties p) = {}
     \<and> (isEncrypted dataset \<and> f_Replicate (e_Send p) \<longrightarrow> f_Raw (e_Send p))
     \<and> (isEncrypted dataset \<and> f_Raw (e_Send p) \<longrightarrow>
          {''encryption'', ''keyformat'', ''pbkdf2iters''} \<inter> (set (mkeys (e_SetProperties p)) \<union> set (e_IgnoreProperties p)) = {})"
proof -
  define p where "p = Resolve dataset parent stored remotes"
  have e: "e_Errors (Resolve dataset parent stored remotes) = []" using assms by (simp add: policyValid_def)
  note parts = e [unfolded Resolve_errors Let_def append_is_Nil_conv no_error_iffs, folded p_def]
  have "wfGrid (e_Grid p)" using parts ParseGrid_wf by (auto simp: p_def Resolve_fields)
  moreover have "list_all goodTarget (mkeys (e_SetProperties p) @ e_IgnoreProperties p)"
    using receiveLoop_good [of "resolvedValues dataset parent stored"] by (auto simp: p_def Resolve_fields list_all_iff)
  moreover have "set (mkeys (e_SetProperties p)) \<inter> set (e_IgnoreProperties p) = {}"
    by (auto simp: p_def Resolve_fields mget_None_iff)
  moreover have "f_Raw (e_Send p) \<Longrightarrow> isEncrypted dataset \<Longrightarrow>
      {''encryption'', ''keyformat'', ''pbkdf2iters''} \<inter> (set (mkeys (e_SetProperties p)) \<union> set (e_IgnoreProperties p)) = {}"
    using parts by (simp add: no_error_iffs mget_None_iff)
  ultimately show ?thesis using parts unfolding p_def [symmetric] Let_def by (auto simp: list_all_iff)
qed

theorem valid_policy_is_safe_witness:
  "policyValid (Resolve exDataset None [] []) \<and> wfGrid (e_Grid (Resolve exDataset None [] []))"
proof -
  have v: "policyValid (Resolve exDataset None [] [])"
    by code_simp
  show ?thesis using valid_policy_is_safe [OF v] v by (simp add: Let_def)
qed

text \<open>
  C16: when a recursive replication root has an encrypted descendant, a policy that stays valid sends raw and leaves
  the encryption parameters alone; and an explicit \<open>raw=off\<close> is never silently overridden, it makes the policy invalid.
\<close>

theorem replication_scope_sends_raw:
  assumes "f_Replicate (e_Send p)" and "encryptedDescendant \<noteq> []"
  shows "(policyValid (ForReplicationScope p rootEncrypted encryptedDescendant) \<longrightarrow> f_Raw (e_Send (ForReplicationScope p rootEncrypted encryptedDescendant)) \<and> f_Replicate (e_Send (ForReplicationScope p rootEncrypted encryptedDescendant))
            \<and> {''encryption'', ''keyformat'', ''pbkdf2iters''} \<inter> (set (mkeys (e_SetProperties (ForReplicationScope p rootEncrypted encryptedDescendant))) \<union> set (e_IgnoreProperties (ForReplicationScope p rootEncrypted encryptedDescendant))) = {})
    \<and> (\<not> f_Raw (e_Send p) \<and> (\<exists>v. mget (e_Values p) (Namespace @ ''raw'') = Some v \<and> v_Dataset v \<noteq> []) \<longrightarrow> \<not> policyValid (ForReplicationScope p rootEncrypted encryptedDescendant))"
proof -
  have raw: "validateRawReceive s i = [] \<longleftrightarrow> {''encryption'', ''keyformat'', ''pbkdf2iters''} \<inter> (set (mkeys s) \<union> set i) = {}" for s i
    by (auto simp: no_error_iffs mget_None_iff)
  have nil: "remdups xs = [] \<longleftrightarrow> xs = []" for xs :: "go_error list" by simp
  show ?thesis
  proof (cases "f_Raw (e_Send p)")
    case True
    then show ?thesis using assms(1,2)
      unfolding policyValid_def ForReplicationScope_def Let_def raw [symmetric] by simp
  next
    case False
    show ?thesis
    proof (cases "(case mget (e_Values p) (Namespace @ ''raw'') of Some v \<Rightarrow> v_Dataset v | None \<Rightarrow> []) = []")
      case True
      then show ?thesis using assms(1,2) False
        unfolding policyValid_def ForReplicationScope_def Let_def raw [symmetric]
        by (simp split: option.splits)
    next
      case expl: False
      then show ?thesis using assms(1,2) False unfolding policyValid_def ForReplicationScope_def by simp
    qed
  qed
qed

definition exReplicating :: Effective where
  "exReplicating =
     \<lparr>e_Enabled = True, e_Grid = zeroGrid, e_Remote = [], e_Local = [], e_Incremental = ''all'',
      e_Requested = \<lparr>f_LargeBlocks = True, f_Compressed = True, f_EmbeddedData = False, f_Raw = False, f_Props = False, f_Replicate = True\<rparr>,
      e_Send = \<lparr>f_LargeBlocks = True, f_Compressed = True, f_EmbeddedData = False, f_Raw = False, f_Props = True, f_Replicate = True\<rparr>,
      e_SetProperties = [], e_IgnoreProperties = [], e_Discard = ''off'', e_Values = [], e_Warnings = [], e_Errors = []\<rparr>"

theorem replication_scope_sends_raw_witness:
  "f_Replicate (e_Send exReplicating) \<and> policyValid (ForReplicationScope exReplicating False ''tank/secret'')
   \<and> f_Raw (e_Send (ForReplicationScope exReplicating False ''tank/secret''))"
proof -
  have r: "f_Replicate (e_Send exReplicating)" "''tank/secret'' \<noteq> []" by (simp_all add: exReplicating_def)
  have v: "policyValid (ForReplicationScope exReplicating False ''tank/secret'')" by code_simp
  show ?thesis using replication_scope_sends_raw [OF r, of False] r v by blast
qed

end
