(* ===== verification/Go_Json.thy ===== *)
theory Go_Json
  imports Go_Time Identity
begin

section \<open>JSON records\<close>

text \<open>
  What the program uses of Go's \<open>encoding/json\<close> and of the RFC 3339 form of \<open>time\<close>: the records it stores as properties of
  a dataset. Reading follows the decoder: the scanner's grammar with its depth limit, strings kept as written and unquoted
  where they are used (surrogate pairs joined, bytes that are not UTF-8 replaced), keys matched exactly or by case
  folding, and what is left after a value judged by \<open>More\<close>. Writing follows \<open>Marshal\<close>, which escapes what is unsafe in HTML.
  The recursion of the parser is bounded by fuel, the length of the input, which every call at least matches.
\<close>

subsection \<open>RFC 3339\<close>

definition appendNano :: "int \<Rightarrow> string" where
  "appendNano ns = (if ns = 0 then [] else CHR ''.'' # rev (dropWhile (\<lambda>c. c = CHR ''0'') (rev (padInt 9 ns))))"

definition FormatRFC3339 :: "instant \<Rightarrow> string" where
  "FormatRFC3339 t =
     (let (y, m, d) = dateOf t; n = t mod DayNanos; s = n div Second in
      padInt 4 y @ ''-'' @ padInt 2 m @ ''-'' @ padInt 2 d @ ''T''
      @ padInt 2 (s div 3600) @ '':'' @ padInt 2 (s div 60 mod 60) @ '':'' @ padInt 2 (s mod 60)
      @ appendNano (n mod Second) @ ''Z'')"

text \<open>\<open>parseUint\<close> of a field of fixed width.\<close>

definition getField :: "nat \<Rightarrow> int \<Rightarrow> int \<Rightarrow> string \<Rightarrow> (int \<times> string) option" where
  "getField w lo hi s =
     (if length s < w \<or> \<not> list_all isDigit (take w s) then None
      else inRange lo hi (Some (int (digitsVal (take w s)), drop w s)))"

definition getNanos :: "string \<Rightarrow> int \<times> string" where
  "getNanos s =
     (case s of
        p # r \<Rightarrow>
          (let ds = takeWhile isDigit r in
           if p = CHR ''.'' \<and> ds \<noteq> []
           then (int (digitsVal (take 9 ds)) * 10 ^ (9 - length (take 9 ds)), dropWhile isDigit r)
           else (0, s))
      | [] \<Rightarrow> (0, s))"

definition getZone :: "string \<Rightarrow> int option" where
  "getZone s =
     (if s = ''Z'' then Some 0
      else
        (case s of
           sign # r \<Rightarrow>
             bindO (getField 2 0 23 r) (\<lambda>(hr, r).
             bindO (skipChar (CHR '':'') r) (\<lambda>r.
             bindO (getField 2 0 59 r) (\<lambda>(mm, r).
               if r \<noteq> [] \<or> (sign \<noteq> CHR ''-'' \<and> sign \<noteq> CHR ''+'') then None
               else Some (if sign = CHR ''-'' then - ((hr * 60 + mm) * 60) else (hr * 60 + mm) * 60))))
         | [] \<Rightarrow> None))"

definition ParseRFC3339 :: "string \<Rightarrow> instant option" where
  "ParseRFC3339 s =
     bindO (getField 4 0 9999 s) (\<lambda>(y, s).
     bindO (skipChar (CHR ''-'') s) (\<lambda>s.
     bindO (getField 2 1 12 s) (\<lambda>(m, s).
     bindO (skipChar (CHR ''-'') s) (\<lambda>s.
     bindO (getField 2 1 (monthLens y ! nat (m - 1)) s) (\<lambda>(d, s).
     bindO (skipChar (CHR ''T'') s) (\<lambda>s.
     bindO (getField 2 0 23 s) (\<lambda>(hh, s).
     bindO (skipChar (CHR '':'') s) (\<lambda>s.
     bindO (getField 2 0 59 s) (\<lambda>(mm, s).
     bindO (skipChar (CHR '':'') s) (\<lambda>s.
     bindO (getField 2 0 59 s) (\<lambda>(ss, s).
       let (ns, s) = getNanos s in
       bindO (getZone s) (\<lambda>offset. Some (Date y m d hh mm ss ns - offset * Second)))))))))))))"

subsection \<open>Values\<close>

text \<open>A number and a string are kept as written, a string without its quotes.\<close>

datatype json = JNull | JBool bool | JNum string | JStr string | JArr "json list" | JObj "(string \<times> json) list"

abbreviation quoteChar :: char where "quoteChar \<equiv> CHR 0x22"
abbreviation backslash :: char where "backslash \<equiv> CHR 0x5C"

definition isJsonSpace :: "char \<Rightarrow> bool" where
  "isJsonSpace c = (c = CHR '' '' \<or> c = CHR 0x09 \<or> c = CHR 0x0D \<or> c = CHR 0x0A)"

definition skipSpace :: "string \<Rightarrow> string" where
  "skipSpace s = dropWhile isJsonSpace s"

definition isHexDigit :: "char \<Rightarrow> bool" where
  "isHexDigit c = (isHex c \<or> ((65 :: nat) \<le> of_char c \<and> of_char c \<le> (70 :: nat)))"

text \<open>A string literal after its opening quote: what it holds, and what follows it.\<close>

fun scanString :: "string \<Rightarrow> (string \<times> string) option" where
  "scanString [] = None"
| "scanString (c # s) =
     (if c = quoteChar then Some ([], s)
      else if c = backslash then
        (case s of
           [] \<Rightarrow> None
         | e # s' \<Rightarrow>
             if e \<in> {quoteChar, backslash, CHR ''/'', CHR ''b'', CHR ''f'', CHR ''n'', CHR ''r'', CHR ''t''}
             then map_option (\<lambda>(r, rest). (c # e # r, rest)) (scanString s')
             else if e = CHR ''u'' then
               (case s' of
                  h1 # h2 # h3 # h4 # s'' \<Rightarrow>
                    if list_all isHexDigit [h1, h2, h3, h4]
                    then map_option (\<lambda>(r, rest). (c # e # h1 # h2 # h3 # h4 # r, rest)) (scanString s'')
                    else None
                | _ \<Rightarrow> None)
             else None)
      else if of_char c < (0x20 :: nat) then None
      else map_option (\<lambda>(r, rest). (c # r, rest)) (scanString s))"

definition scanDigits :: "string \<Rightarrow> (string \<times> string) option" where
  "scanDigits s = (if takeWhile isDigit s = [] then None else Some (takeWhile isDigit s, dropWhile isDigit s))"

definition scanInt :: "string \<Rightarrow> (string \<times> string) option" where
  "scanInt s = (case s of c # r \<Rightarrow> if c = CHR ''0'' then Some (''0'', r) else scanDigits s | [] \<Rightarrow> None)"

definition scanFrac :: "string \<Rightarrow> (string \<times> string) option" where
  "scanFrac s =
     (case s of
        c # r \<Rightarrow> if c = CHR ''.'' then map_option (\<lambda>(ds, rest). (c # ds, rest)) (scanDigits r) else Some ([], s)
      | [] \<Rightarrow> Some ([], s))"

definition scanExp :: "string \<Rightarrow> (string \<times> string) option" where
  "scanExp s =
     (case s of
        c # r \<Rightarrow>
          if c = CHR ''e'' \<or> c = CHR ''E'' then
            (case r of
               x # r' \<Rightarrow>
                 if x = CHR ''+'' \<or> x = CHR ''-'' then map_option (\<lambda>(ds, rest). (c # x # ds, rest)) (scanDigits r')
                 else map_option (\<lambda>(ds, rest). (c # ds, rest)) (scanDigits r)
             | [] \<Rightarrow> None)
          else Some ([], s)
      | [] \<Rightarrow> Some ([], s))"

definition scanNumber :: "string \<Rightarrow> (string \<times> string) option" where
  "scanNumber s =
     (let (sign, s) = (case s of c # r \<Rightarrow> if c = CHR ''-'' then ([c], r) else ([], s) | [] \<Rightarrow> ([], s)) in
      bindO (scanInt s) (\<lambda>(i, s). bindO (scanFrac s) (\<lambda>(f, s). bindO (scanExp s) (\<lambda>(e, s). Some (sign @ i @ f @ e, s)))))"

definition scanWord :: "string \<Rightarrow> json \<Rightarrow> string \<Rightarrow> (json \<times> string) option" where
  "scanWord w v s = (if HasPrefix s w then Some (v, drop (length w) s) else None)"

abbreviation maxNestingDepth :: nat where "maxNestingDepth \<equiv> 10000"

fun scanValue :: "nat \<Rightarrow> nat \<Rightarrow> string \<Rightarrow> (json \<times> string) option"
  and scanElements :: "nat \<Rightarrow> nat \<Rightarrow> string \<Rightarrow> (json list \<times> string) option"
  and scanMembers :: "nat \<Rightarrow> nat \<Rightarrow> string \<Rightarrow> ((string \<times> json) list \<times> string) option" where
  "scanValue 0 depth s = None"
| "scanValue (Suc n) depth s =
     (case skipSpace s of
        [] \<Rightarrow> None
      | c # r \<Rightarrow>
          if c = CHR ''{'' then
            (if depth \<ge> maxNestingDepth then None
             else
               (case skipSpace r of
                  [] \<Rightarrow> None
                | c' # r' \<Rightarrow>
                    if c' = CHR ''}'' then Some (JObj [], r')
                    else map_option (\<lambda>(ms, rest). (JObj ms, rest)) (scanMembers n (Suc depth) r)))
          else if c = CHR ''['' then
            (if depth \<ge> maxNestingDepth then None
             else
               (case skipSpace r of
                  [] \<Rightarrow> None
                | c' # r' \<Rightarrow>
                    if c' = CHR '']'' then Some (JArr [], r')
                    else map_option (\<lambda>(vs, rest). (JArr vs, rest)) (scanElements n (Suc depth) r)))
          else if c = quoteChar then map_option (\<lambda>(raw, rest). (JStr raw, rest)) (scanString r)
          else if c = CHR ''t'' then scanWord ''true'' (JBool True) (c # r)
          else if c = CHR ''f'' then scanWord ''false'' (JBool False) (c # r)
          else if c = CHR ''n'' then scanWord ''null'' JNull (c # r)
          else map_option (\<lambda>(lit, rest). (JNum lit, rest)) (scanNumber (c # r)))"
| "scanElements 0 depth s = None"
| "scanElements (Suc n) depth s =
     bindO (scanValue n depth s) (\<lambda>(v, s).
       (case skipSpace s of
          [] \<Rightarrow> None
        | c # r \<Rightarrow>
            if c = CHR '','' then map_option (\<lambda>(vs, rest). (v # vs, rest)) (scanElements n depth r)
            else if c = CHR '']'' then Some ([v], r)
            else None))"
| "scanMembers 0 depth s = None"
| "scanMembers (Suc n) depth s =
     (case skipSpace s of
        [] \<Rightarrow> None
      | q # r \<Rightarrow>
          if q \<noteq> quoteChar then None
          else
            bindO (scanString r) (\<lambda>(key, s).
              (case skipSpace s of
                 [] \<Rightarrow> None
               | colon # r \<Rightarrow>
                   if colon \<noteq> CHR '':'' then None
                   else
                     bindO (scanValue n depth r) (\<lambda>(v, s).
                       (case skipSpace s of
                          [] \<Rightarrow> None
                        | c # r \<Rightarrow>
                            if c = CHR '','' then map_option (\<lambda>(ms, rest). ((key, v) # ms, rest)) (scanMembers n depth r)
                            else if c = CHR ''}'' then Some ([(key, v)], r)
                            else None)))))"

text \<open>\<open>Decode\<close> reads one value and leaves the rest; \<open>Unmarshal\<close> wants only white space after it.\<close>

definition decodeValue :: "string \<Rightarrow> (json \<times> string) option" where
  "decodeValue s = scanValue (Suc (length s)) 0 s"

definition More :: "string \<Rightarrow> bool" where
  "More rest = (case skipSpace rest of [] \<Rightarrow> False | c # _ \<Rightarrow> c \<noteq> CHR '']'' \<and> c \<noteq> CHR ''}'')"

definition unmarshalValue :: "string \<Rightarrow> json option" where
  "unmarshalValue s = bindO (decodeValue s) (\<lambda>(v, rest). if skipSpace rest = [] then Some v else None)"

subsection \<open>Strings\<close>

definition hexVal :: "char \<Rightarrow> nat" where
  "hexVal c = (let n = of_char c :: nat in if n \<le> 57 then n - 48 else if n \<le> 70 then n - 55 else n - 87)"

definition EncodeRune :: "nat \<Rightarrow> string" where
  "EncodeRune r =
     (if r < 0x80 then [char_of r]
      else if r < 0x800 then [char_of (0xC0 + r div 64), char_of (0x80 + r mod 64)]
      else if r < 0x10000 then [char_of (0xE0 + r div 4096), char_of (0x80 + r div 64 mod 64), char_of (0x80 + r mod 64)]
      else [char_of (0xF0 + r div 262144), char_of (0x80 + r div 4096 mod 64), char_of (0x80 + r div 64 mod 64), char_of (0x80 + r mod 64)])"

abbreviation replacement :: string where "replacement \<equiv> [CHR 0xEF, CHR 0xBF, CHR 0xBD]"

definition hex4 :: "char \<Rightarrow> char \<Rightarrow> char \<Rightarrow> char \<Rightarrow> nat" where
  "hex4 a b c d = ((hexVal a * 16 + hexVal b) * 16 + hexVal c) * 16 + hexVal d"

definition unquoteEscape :: "char \<Rightarrow> string" where
  "unquoteEscape e =
     (if e = CHR ''b'' then [CHR 0x08] else if e = CHR ''f'' then [CHR 0x0C] else if e = CHR ''n'' then [CHR 0x0A]
      else if e = CHR ''r'' then [CHR 0x0D] else if e = CHR ''t'' then [CHR 0x09] else [e])"

text \<open>
  \<open>unquote\<close> on the runes of a literal the scanner has accepted. \<open>getu4\<close> reads a hexadecimal escape; \<open>unquoteStep\<close> gives what the first
  rune becomes and how many of those after it are read with it.
\<close>

definition getu4 :: "nat list \<Rightarrow> nat option" where
  "getu4 rs =
     (case rs of
        b # u # h1 # h2 # h3 # h4 # _ \<Rightarrow>
          if b = 0x5C \<and> u = 0x75 \<and> list_all (\<lambda>k. k < 0x80 \<and> isHexDigit (char_of k)) [h1, h2, h3, h4]
          then Some (hex4 (char_of h1) (char_of h2) (char_of h3) (char_of h4)) else None
      | _ \<Rightarrow> None)"

definition unquoteStep :: "nat \<times> string \<Rightarrow> nat list \<Rightarrow> string \<times> nat" where
  "unquoteStep x rest =
     (let (r, bs) = x in
      if r = 0x5C then
        (case getu4 (r # rest) of
           Some rr \<Rightarrow>
             if 0xD800 \<le> rr \<and> rr < 0xE000 then
               (case getu4 (drop 5 rest) of
                  Some rr1 \<Rightarrow>
                    if rr < 0xDC00 \<and> 0xDC00 \<le> rr1 \<and> rr1 < 0xE000
                    then (EncodeRune ((rr - 0xD800) * 1024 + (rr1 - 0xDC00) + 0x10000), 11)
                    else (replacement, 5)
                | None \<Rightarrow> (replacement, 5))
             else (EncodeRune rr, 5)
         | None \<Rightarrow> (case rest of e # _ \<Rightarrow> (unquoteEscape (char_of e), 1) | [] \<Rightarrow> ([], 0)))
      else if r = 0xFFFD \<and> length bs = 1 then (replacement, 0)
      else (bs, 0))"

function unquoteRunes :: "(nat \<times> string) list \<Rightarrow> string" where
  "unquoteRunes [] = []"
| "unquoteRunes (x # rest) =
     fst (unquoteStep x (map fst rest)) @ unquoteRunes (drop (snd (unquoteStep x (map fst rest))) rest)"
  by pat_completeness auto
termination
  by (relation "measure length") auto

definition unquote :: "string \<Rightarrow> string" where
  "unquote raw = unquoteRunes (runes raw)"

text \<open>\<open>appendString\<close> with the escapes of \<open>Marshal\<close>.\<close>

definition escapeRune :: "nat \<times> string \<Rightarrow> string" where
  "escapeRune x =
     (let (r, bs) = x in
      if r < 0x80 then
        (if r = 0x22 \<or> r = 0x5C then [backslash, char_of r]
         else if r = 0x08 then [backslash, CHR ''b''] else if r = 0x0C then [backslash, CHR ''f'']
         else if r = 0x0A then [backslash, CHR ''n''] else if r = 0x0D then [backslash, CHR ''r'']
         else if r = 0x09 then [backslash, CHR ''t'']
         else if r < 0x20 \<or> r = 0x3C \<or> r = 0x3E \<or> r = 0x26
         then [backslash, CHR ''u'', CHR ''0'', CHR ''0'', hexDigit (r div 16), hexDigit (r mod 16)]
         else [char_of r])
      else if r = 0xFFFD \<and> length bs = 1 then backslash # ''ufffd''
      else if r = 0x2028 \<or> r = 0x2029 then backslash # ''u202'' @ [hexDigit (r mod 16)]
      else bs)"

definition quoteString :: "string \<Rightarrow> string" where
  "quoteString s = quoteChar # concat (map escapeRune (runes s)) @ [quoteChar]"

subsection \<open>Structs\<close>

text \<open>\<open>foldName\<close>, as far as it matters for keys that are ASCII: the long s and the Kelvin sign fold to S and K.\<close>

definition foldRune :: "nat \<Rightarrow> nat" where
  "foldRune r = (if 97 \<le> r \<and> r \<le> 122 then r - 32 else if r = 0x17F then 0x53 else if r = 0x212A then 0x4B else r)"

definition foldName :: "string \<Rightarrow> nat list" where
  "foldName s = map (foldRune \<circ> fst) (runes s)"

definition findField :: "string list \<Rightarrow> string \<Rightarrow> string option" where
  "findField fields key = (if key \<in> set fields then Some key else find (\<lambda>f. foldName f = foldName key) fields)"

text \<open>
  Decoding an object into a struct of type \<open>'r\<close>: \<open>set f v r\<close> stores the value of field \<open>f\<close>, or is None on a type error; a key that
  names no field is an error when \<open>strict\<close> (\<open>DisallowUnknownFields\<close>). null leaves the struct as it is.
\<close>

definition decodeStruct :: "bool \<Rightarrow> string list \<Rightarrow> (string \<Rightarrow> json \<Rightarrow> 'r \<Rightarrow> 'r option) \<Rightarrow> json \<Rightarrow> 'r \<Rightarrow> 'r option" where
  "decodeStruct strict fields store v r =
     (case v of
        JNull \<Rightarrow> Some r
      | JObj ms \<Rightarrow>
          foldl (\<lambda>acc (key, x). bindO acc (\<lambda>r.
            (case findField fields (unquote key) of
               Some f \<Rightarrow> store f x r
             | None \<Rightarrow> if strict then None else Some r))) (Some r) ms
      | _ \<Rightarrow> None)"

definition storeString :: "json \<Rightarrow> string \<Rightarrow> string option" where
  "storeString v old = (case v of JStr raw \<Rightarrow> Some (unquote raw) | JNull \<Rightarrow> Some old | _ \<Rightarrow> None)"

definition storeBool :: "json \<Rightarrow> bool \<Rightarrow> bool option" where
  "storeBool v old = (case v of JBool b \<Rightarrow> Some b | JNull \<Rightarrow> Some old | _ \<Rightarrow> None)"

definition storeUint64 :: "json \<Rightarrow> nat \<Rightarrow> nat option" where
  "storeUint64 v old = (case v of JNum lit \<Rightarrow> ParseUint64 lit | JNull \<Rightarrow> Some old | _ \<Rightarrow> None)"

definition storeTime :: "json \<Rightarrow> instant \<Rightarrow> instant option" where
  "storeTime v old = (case v of JStr raw \<Rightarrow> ParseRFC3339 raw | JNull \<Rightarrow> Some old | _ \<Rightarrow> None)"

text \<open>The text of a struct, from the texts of the fields that are not omitted.\<close>

definition marshalStruct :: "(string \<times> string) list \<Rightarrow> string" where
  "marshalStruct fields = ''{'' @ Join (map (\<lambda>(k, v). quoteString k @ '':'' @ v) fields) '','' @ ''}''"

subsection \<open>A time reads back\<close>

lemma getField_padInt:
  assumes "0 \<le> i" "i < 10 ^ w" "0 < w" "lo \<le> i" "i \<le> hi"
  shows "getField w lo hi (padInt w i @ rest) = Some (i, rest)"
  using padInt_digits [OF assms(1-3)] assms(4,5) by (simp add: getField_def)

lemma digitsVal_trailing: "digitsVal (ds @ replicate k (CHR ''0'')) = digitsVal ds * 10 ^ k"
proof (induction k)
  case (Suc k)
  have "digitsVal (ds @ replicate (Suc k) (CHR ''0'')) = digitsVal ((ds @ replicate k (CHR ''0'')) @ [CHR ''0''])"
    by (metis append_assoc replicate_append_same replicate_Suc)
  also have "\<dots> = digitsVal ds * 10 ^ Suc k" by (simp only: digitsVal_snoc Suc.IH) (simp add: digitVal_def)
  finally show ?case .
qed simp

lemma trim_zeros: obtains k where "s = rev (dropWhile (\<lambda>c. c = CHR ''0'') (rev s)) @ replicate k (CHR ''0'')"
proof -
  let ?z = "takeWhile (\<lambda>c. c = CHR ''0'') (rev s)"
  have z: "rev ?z = replicate (length ?z) (CHR ''0'')" by (rule replicate_eqI) (auto dest: set_takeWhileD)
  have "rev s = ?z @ dropWhile (\<lambda>c. c = CHR ''0'') (rev s)" by simp
  then have "rev (rev s) = rev (dropWhile (\<lambda>c. c = CHR ''0'') (rev s)) @ rev ?z" by (metis rev_append)
  then show thesis using that z by simp
qed

lemma getNanos_append:
  assumes "0 \<le> n" "n < Second"
  shows "getNanos (appendNano n @ ''Z'') = (n, ''Z'')"
proof (cases "n = 0")
  case True
  then show ?thesis by (simp add: appendNano_def getNanos_def)
next
  case False
  have p: "length (padInt 9 n) = 9" "list_all isDigit (padInt 9 n)" "int (digitsVal (padInt 9 n)) = n"
    using padInt_digits [of n 9] assms by simp_all
  define ds where "ds = rev (dropWhile (\<lambda>c. c = CHR ''0'') (rev (padInt 9 n)))"
  obtain k where k: "padInt 9 n = ds @ replicate k (CHR ''0'')" unfolding ds_def by (rule trim_zeros)
  have len: "length ds + k = 9" using p(1) k by simp
  have digits: "list_all isDigit ds" using p(2) k by simp
  have val: "int (digitsVal ds) * 10 ^ k = n" using p(3) k by (simp add: digitsVal_trailing)
  then have "ds \<noteq> []" using False by (auto simp: digitsVal_def)
  moreover have "takeWhile isDigit (ds @ ''Z'') = ds" "dropWhile isDigit (ds @ ''Z'') = ''Z''"
    using digits by (auto simp: list_all_iff takeWhile_append2 dropWhile_append2 isDigit_def)
  moreover have "9 - length ds = k" using len by simp
  ultimately show ?thesis
    using False val len by (simp add: appendNano_def ds_def [symmetric] getNanos_def Let_def)
qed

lemma ParseRFC3339_FormatRFC3339:
  assumes "0 \<le> Year t" "Year t \<le> 9999"
  shows "ParseRFC3339 (FormatRFC3339 t) = Some t"
proof -
  obtain y m d where dt: "dateOf t = (y, m, d)" by (cases "dateOf t") auto
  define n where "n = t mod DayNanos"
  define s where "s = n div Second"
  note date = dateOf_date [OF dt]
  have fmt: "FormatRFC3339 t = padInt 4 y @ CHR ''-'' # padInt 2 m @ CHR ''-'' # padInt 2 d @ CHR ''T'' # padInt 2 (s div 3600)
      @ CHR '':'' # padInt 2 (s div 60 mod 60) @ CHR '':'' # padInt 2 (s mod 60) @ appendNano (n mod Second) @ ''Z''"
    by (simp add: FormatRFC3339_def dt n_def s_def Let_def)
  have bounds: "0 \<le> s div 3600" "s div 3600 \<le> 23" "0 \<le> s div 60 mod 60" "s div 60 mod 60 \<le> 59" "0 \<le> s mod 60" "s mod 60 \<le> 59"
    "0 \<le> n mod Second" "n mod Second < Second" "Date y m d (s div 3600) (s div 60 mod 60) (s mod 60) (n mod Second) = t"
    using clock_fields [OF dt] unfolding n_def s_def .
  have y: "0 \<le> y" "y < 10 ^ 4" "y \<le> 9999" using date assms by auto
  have m: "0 \<le> m" "m < 10 ^ 2" "1 \<le> m" "m \<le> 12" and d: "0 \<le> d" "d < 10 ^ 2" "1 \<le> d" "d \<le> monthLens y ! nat (m - 1)"
    using date by auto
  have w: "(0 :: nat) < 4" "(0 :: nat) < 2" by simp_all
  have b: "i < 10 ^ 2" if "i \<le> 59" for i :: int using that by simp
  have b': "i < 10 ^ 2" if "i \<le> 23" for i :: int using that by simp
  note fields = getField_padInt [OF y(1,2) w(1) y(1) y(3)] getField_padInt [OF m(1,2) w(2) m(3,4)] getField_padInt [OF d(1,2) w(2) d(3,4)]
    getField_padInt [OF bounds(1) b' [OF bounds(2)] w(2) bounds(1,2)] getField_padInt [OF bounds(3) b [OF bounds(4)] w(2) bounds(3,4)]
    getField_padInt [OF bounds(5) b [OF bounds(6)] w(2) bounds(5,6)]
  have z: "getZone ''Z'' = Some 0" by (simp add: getZone_def)
  show ?thesis unfolding ParseRFC3339_def fmt
    by (simp only: fields bindO_simps prod.case skipChar_Cons getNanos_append [OF bounds(7,8)] Let_def z bounds(9) mult_zero_left diff_zero)
qed
subsection \<open>A string reads back\<close>

abbreviation escapeChar :: "char \<Rightarrow> string" where
  "escapeChar c \<equiv> escapeRune (of_char c, [c])"

lemma hexVal_hexDigit: "n < 16 \<Longrightarrow> hexVal (hexDigit n) = n"
  by (auto simp: hexVal_def hexDigit_def Let_def of_char_of)

lemma hexDigit_scans: "n < 16 \<Longrightarrow> isHexDigit (hexDigit n) \<and> isASCII (hexDigit n)"
  using hexDigit_hex [of n] by (auto simp: isHexDigit_def isASCII_def hexDigit_def of_char_of)

lemma char_of_quote: "char_of (34 :: nat) = quoteChar" "char_of (92 :: nat) = backslash" "char_of (48 :: nat) = CHR ''0''"
  by code_simp+

lemma escapeChar_cases:
  assumes "isASCII c"
  obtains (plain) "escapeChar c = [c]" "c \<noteq> quoteChar" "c \<noteq> backslash" "\<not> of_char c < (0x20 :: nat)"
  | (short) e where "escapeChar c = [backslash, e]" "e \<in> {quoteChar, backslash, CHR ''b'', CHR ''f'', CHR ''n'', CHR ''r'', CHR ''t''}"
      "unquoteEscape e = [c]"
  | (hex) "escapeChar c = [backslash, CHR ''u'', CHR ''0'', CHR ''0'', hexDigit (of_char c div 16), hexDigit (of_char c mod 16)]"
proof -
  define r where "r = (of_char c :: nat)"
  have c: "c = char_of r" by (simp add: r_def)
  have r: "r < 0x80" using assms by (simp add: r_def isASCII_def)
  consider "r \<in> {0x22, 0x5C, 0x08, 0x0C, 0x0A, 0x0D, 0x09}" | "r \<notin> {0x22, 0x5C, 0x08, 0x0C, 0x0A, 0x0D, 0x09}" "r < 0x20 \<or> r = 0x3C \<or> r = 0x3E \<or> r = 0x26"
    | "r \<notin> {0x22, 0x5C}" "\<not> r < 0x20" "r \<noteq> 0x3C" "r \<noteq> 0x3E" "r \<noteq> 0x26"
    by auto
  then show thesis
  proof cases
    case 1
    have e: "r = of_char q \<Longrightarrow> c = q" for q by (simp add: r_def)
    have "c \<in> {quoteChar, backslash, CHR 0x08, CHR 0x0C, CHR 0x0A, CHR 0x0D, CHR 0x09}"
      using 1 e [of quoteChar] e [of backslash] e [of "CHR 0x08"] e [of "CHR 0x0C"] e [of "CHR 0x0A"] e [of "CHR 0x0D"] e [of "CHR 0x09"]
      by auto
    then show thesis
      using short [of quoteChar] short [of backslash] short [of "CHR ''b''"] short [of "CHR ''f''"] short [of "CHR ''n''"]
        short [of "CHR ''r''"] short [of "CHR ''t''"]
      by (elim insertE emptyE) (simp_all add: escapeRune_def unquoteEscape_def char_of_quote)
  next
    case 2
    then show thesis using hex r by (simp add: escapeRune_def r_def)
  next
    case 3
    then have "escapeChar c = [c]" using r by (simp add: escapeRune_def r_def)
    moreover have "c \<noteq> quoteChar" "c \<noteq> backslash" using 3 by (auto simp: r_def)
    ultimately show thesis using plain 3 by (simp add: r_def)
  qed
qed

lemma scanString_escape:
  assumes "isASCII c"
  shows "scanString (escapeChar c @ s) = map_option (\<lambda>(raw, rest). (escapeChar c @ raw, rest)) (scanString s)"
  using assms
proof (cases rule: escapeChar_cases)
  case plain
  then show ?thesis by (cases "scanString s") auto
next
  case (short e)
  then show ?thesis by (cases "scanString s") auto
next
  case hex
  have n: "of_char c div 16 < (16 :: nat)" "of_char c mod 16 < (16 :: nat)" using assms by (simp_all add: isASCII_def less_mult_imp_div_less)
  have "isHexDigit (CHR ''0'')" by (simp add: isHexDigit_def isHex_def isDigit_def)
  then show ?thesis using hex hexDigit_scans [OF n(1)] hexDigit_scans [OF n(2)] by (cases "scanString s") auto
qed
lemma escapeChar_ASCII:
  assumes "isASCII c"
  shows "list_all isASCII (escapeChar c)"
  using assms
proof (cases rule: escapeChar_cases)
  case (short e)
  then show ?thesis by (auto simp: isASCII_def)
next
  case hex
  have n: "of_char c div 16 < (16 :: nat)" "of_char c mod 16 < (16 :: nat)" using assms by (simp_all add: isASCII_def less_mult_imp_div_less)
  then show ?thesis using hex hexDigit_scans by (simp add: isASCII_def)
qed (use assms in simp)

lemma unquote_escape:
  assumes "isASCII c"
  shows "unquoteRunes (map (\<lambda>c. (of_char c, [c])) (escapeChar c) @ rest) = c # unquoteRunes rest"
  using assms
proof (cases rule: escapeChar_cases)
  case plain
  then have "of_char c \<noteq> (0x5C :: nat)" using char_of_quote(2) by (metis char_of_char)
  moreover have "of_char c \<noteq> (0xFFFD :: nat)" using assms by (simp add: isASCII_def)
  ultimately show ?thesis using plain by (simp add: unquoteStep_def)
next
  case (short e)
  then have "of_char e \<noteq> (0x75 :: nat)" by auto
  then show ?thesis using short by (simp add: unquoteStep_def getu4_def split: list.split)
next
  case hex
  let ?h = "hexDigit (of_char c div 16)" and ?l = "hexDigit (of_char c mod 16)"
  have n: "of_char c div 16 < (16 :: nat)" "of_char c mod 16 < (16 :: nat)" "of_char c < (0x80 :: nat)"
    using assms by (simp_all add: isASCII_def less_mult_imp_div_less)
  have z: "isHexDigit (CHR ''0'')" "hexVal (CHR ''0'') = 0" by (simp_all add: isHexDigit_def isHex_def isDigit_def hexVal_def)
  have v: "hex4 (CHR ''0'') (CHR ''0'') ?h ?l = of_char c" using n by (simp add: hex4_def z hexVal_hexDigit)
  have u: "getu4 (of_char backslash # of_char (CHR ''u'') # of_char (CHR ''0'') # of_char (CHR ''0'') # of_char ?h # of_char ?l # rs) = Some (of_char c)" for rs
    using hexDigit_scans [OF n(1)] hexDigit_scans [OF n(2)] z v
    unfolding getu4_def by (simp add: isASCII_def char_of_char [of "CHR ''0''", simplified])
  show ?thesis
    using hex u n by (simp add: unquoteStep_def EncodeRune_def)
qed

lemma quoteString_scans:
  assumes "list_all isASCII s"
  shows "scanString (concat (map escapeChar s) @ quoteChar # rest) = Some (concat (map escapeChar s), rest)"
    and "unquote (concat (map escapeChar s)) = s"
proof -
  show "scanString (concat (map escapeChar s) @ quoteChar # rest) = Some (concat (map escapeChar s), rest)"
    using assms by (induction s) (simp_all add: scanString_escape)
  have "list_all isASCII (concat (map escapeChar s))"
    using assms by (induction s) (simp_all add: escapeChar_ASCII)
  then have "unquote (concat (map escapeChar s)) = unquoteRunes (map (\<lambda>c. (of_char c, [c])) (concat (map escapeChar s)))"
    by (simp add: unquote_def runes_ASCII)
  also have "\<dots> = s" using assms by (induction s) (simp_all add: unquote_escape)
  finally show "unquote (concat (map escapeChar s)) = s" .
qed

lemma quoteString_ASCII: "list_all isASCII s \<Longrightarrow> quoteString s = quoteChar # concat (map escapeChar s) @ [quoteChar]"
  by (simp add: quoteString_def runes_ASCII comp_def)
subsection \<open>A struct reads back\<close>

text \<open>A text that the scanner reads as a value wherever a struct continues or ends after it.\<close>

definition scansTo :: "string \<Rightarrow> json \<Rightarrow> bool" where
  "scansTo v j \<longleftrightarrow> (\<forall>n d c rest. c \<in> {CHR '','', CHR ''}''} \<longrightarrow> scanValue (Suc n) d (v @ c # rest) = Some (j, c # rest))"

lemma skipSpace_Cons [simp]: "\<not> isJsonSpace c \<Longrightarrow> skipSpace (c # s) = c # s"
  by (simp add: skipSpace_def)

lemma scansTo_string: "list_all isASCII s \<Longrightarrow> scansTo (quoteString s) (JStr (concat (map escapeChar s)))"
  by (simp add: scansTo_def quoteString_ASCII quoteString_scans isJsonSpace_def)

lemma scanString_plain:
  "list_all (\<lambda>c. c \<noteq> quoteChar \<and> c \<noteq> backslash \<and> \<not> of_char c < (0x20 :: nat)) s \<Longrightarrow> scanString (s @ quoteChar # rest) = Some (s, rest)"
  by (induction s) auto

lemma scansTo_plain:
  "list_all (\<lambda>c. c \<noteq> quoteChar \<and> c \<noteq> backslash \<and> \<not> of_char c < (0x20 :: nat)) s \<Longrightarrow> scansTo (quoteChar # s @ [quoteChar]) (JStr s)"
  by (simp add: scansTo_def scanString_plain isJsonSpace_def)

lemma scansTo_bool: "scansTo ''true'' (JBool True)" "scansTo ''false'' (JBool False)"
  by (simp_all add: scansTo_def isJsonSpace_def scanWord_def HasPrefix_def)

lemma showNat_hd: "0 < n \<Longrightarrow> hd (showNat n) \<noteq> CHR ''0''"
proof (induction n rule: showNat.induct)
  case (1 n)
  show ?case
  proof (cases "n < 10")
    case True
    have "of_char (digitChar n) \<noteq> (48 :: nat)" using True 1(2) by (simp add: digitChar_def of_char_of)
    then show ?thesis using True by (subst showNat.simps) auto
  next
    case False
    then have "hd (showNat (n div 10)) \<noteq> CHR ''0''" using 1(1) by simp
    then show ?thesis using False showNat_digits [of "n div 10"] by (subst showNat.simps) (simp add: hd_append)
  qed
qed

lemma scansTo_nat: "scansTo (showNat n) (JNum (showNat n))"
  unfolding scansTo_def
proof (intro allI impI)
  fix m d c rest
  assume c: "c \<in> {CHR '','', CHR ''}''}"
  obtain x xs where s: "showNat n = x # xs" using showNat_digits [of n] by (cases "showNat n") auto
  have digits: "isDigit x" "list_all isDigit xs" using showNat_digits [of n] s by simp_all
  have nc: "\<not> isDigit c" using c by (auto simp: isDigit_def)
  have tw: "takeWhile isDigit (xs @ c # rest) = xs" "dropWhile isDigit (xs @ c # rest) = c # rest"
    using digits nc by (simp_all add: list_all_iff takeWhile_append2 dropWhile_append2)
  have i: "scanInt (x # xs @ c # rest) = Some (x # xs, c # rest)"
  proof (cases "n = 0")
    case True
    then have "x # xs = ''0''" using s by (simp add: showNat.simps digitChar_def char_of_quote)
    then show ?thesis by (simp add: scanInt_def)
  next
    case False
    then show ?thesis using showNat_hd [of n] s digits tw by (simp add: scanInt_def scanDigits_def)
  qed
  have fe: "scanFrac (c # rest) = Some ([], c # rest)" "scanExp (c # rest) = Some ([], c # rest)"
    using c by (auto simp: scanFrac_def scanExp_def)
  have "x \<noteq> CHR ''-''" using digits by (auto simp: isDigit_def)
  then have num: "scanNumber (x # xs @ c # rest) = Some (x # xs, c # rest)" by (simp add: scanNumber_def i fe)
  have "\<not> isJsonSpace x" "x \<notin> {CHR ''{'', CHR ''['', quoteChar, CHR ''t'', CHR ''f'', CHR ''n''}"
    using digits by (auto simp: isDigit_def isJsonSpace_def)
  then show "scanValue (Suc m) d (showNat n @ c # rest) = Some (JNum (showNat n), c # rest)"
    using num by (simp add: s)
qed

lemma scanMembers_Join:
  assumes "fs \<noteq> []" "list_all (\<lambda>(k, v, j). list_all isASCII k \<and> scansTo v j) fs" "length fs \<le> n"
  shows "scanMembers (Suc n) d (Join (map (\<lambda>(k, v, j). quoteString k @ '':'' @ v) fs) '','' @ CHR ''}'' # rest)
    = Some (map (\<lambda>(k, v, j). (concat (map escapeChar k), j)) fs, rest)"
  using assms
proof (induction fs arbitrary: n)
  case (Cons f fs)
  obtain k v j where f: "f = (k, v, j)" by (cases f)
  with Cons.prems have kv: "list_all isASCII k" "scansTo v j" by simp_all
  from Cons.prems obtain m where n: "n = Suc m" "length fs \<le> m" by (cases n) auto
  have head: "scanMembers (Suc n) d (quoteString k @ '':'' @ v @ c # s) =
      (if c = CHR '','' then map_option (\<lambda>(ms, r). ((concat (map escapeChar k), j) # ms, r)) (scanMembers n d s)
       else Some ([(concat (map escapeChar k), j)], s))" if "c \<in> {CHR '','', CHR ''}''}" for c s
    using kv that n(1) by (auto simp: quoteString_ASCII quoteString_scans isJsonSpace_def scansTo_def)
  show ?case
  proof (cases fs)
    case Nil
    then show ?thesis using head [of "CHR ''}''" rest] by (simp add: f)
  next
    case (Cons g gs)
    with Cons.IH [of m] Cons.prems n
    have "scanMembers (Suc m) d (Join (map (\<lambda>(k, v, j). quoteString k @ '':'' @ v) fs) '','' @ CHR ''}'' # rest)
      = Some (map (\<lambda>(k, v, j). (concat (map escapeChar k), j)) fs, rest)" by simp
    with head [of "CHR '',''" "Join (map (\<lambda>(k, v, j). quoteString k @ '':'' @ v) fs) '','' @ CHR ''}'' # rest"]
    show ?thesis using n(1) by (simp add: f Cons)
  qed
qed simp

lemma length_Join_ge: "list_all (\<lambda>x. x \<noteq> []) xs \<Longrightarrow> length xs \<le> length (Join xs sep)"
proof (induction xs sep rule: Join.induct)
  case (3 x y ys sep)
  then show ?case by (cases x) auto
qed (auto simp: Suc_le_eq)

lemma decode_marshal:
  assumes "fs \<noteq> []" "list_all (\<lambda>(k, v, j). list_all isASCII k \<and> scansTo v j) fs"
  shows "decodeValue (marshalStruct (map (\<lambda>(k, v, j). (k, v)) fs)) = Some (JObj (map (\<lambda>(k, v, j). (concat (map escapeChar k), j)) fs), [])"
proof -
  define J where "J = Join (map (\<lambda>(k, v, j). quoteString k @ '':'' @ v) fs) '',''"
  have src: "marshalStruct (map (\<lambda>(k, v, j). (k, v)) fs) = CHR ''{'' # J @ ''}''"
    by (simp add: J_def marshalStruct_def comp_def case_prod_beta')
  have "length fs \<le> length J"
    using length_Join_ge [of "map (\<lambda>(k, v, j). quoteString k @ '':'' @ v) fs" "'',''"] by (simp add: J_def quoteString_def list_all_iff case_prod_beta')
  from scanMembers_Join [OF assms le_SucI [OF this], of "Suc 0" "[]"]
  have members: "scanMembers (Suc (Suc (length J))) (Suc 0) (J @ ''}'') = Some (map (\<lambda>(k, v, j). (concat (map escapeChar k), j)) fs, [])"
    by (simp only: J_def)
  have "\<exists>r. J = quoteChar # r" using assms(1) by (cases fs; cases "tl fs") (auto simp: J_def quoteString_def case_prod_beta)
  then obtain r where r: "J = quoteChar # r" ..
  have first: "skipSpace (J @ ''}'') = quoteChar # r @ ''}''" by (simp add: r isJsonSpace_def)
  have brace: "\<not> isJsonSpace (CHR ''{'')" by (simp add: isJsonSpace_def)
  have fuel: "Suc (length (CHR ''{'' # J @ ''}'')) = Suc (Suc (Suc (length J)))" by simp
  show ?thesis unfolding src decodeValue_def fuel scanValue.simps(2) skipSpace_Cons [OF brace] list.case first members
    by (simp add: members)
qed
lemma decodeStruct_fields:
  assumes "list_all (\<lambda>(k, v, j). k \<in> set names \<and> list_all isASCII k) fs"
  shows "decodeStruct strict names store (JObj (map (\<lambda>(k, v, j). (concat (map escapeChar k), j)) fs)) r
    = foldl (\<lambda>acc (k, v, j). bindO acc (store k j)) (Some r) fs"
proof -
  have "foldl (\<lambda>acc (key, x). bindO acc (\<lambda>r. case findField names (unquote key) of Some f \<Rightarrow> store f x r
          | None \<Rightarrow> if strict then None else Some r)) a (map (\<lambda>(k, v, j). (concat (map escapeChar k), j)) fs)
      = foldl (\<lambda>acc (k, v, j). bindO acc (store k j)) a fs" for a
    using assms
  proof (induction fs arbitrary: a)
    case (Cons f fs)
    obtain k v j where f: "f = (k, v, j)" by (cases f)
    have "k \<in> set names" "list_all isASCII k" using Cons.prems f by auto
    then have "findField names (unquote (concat (map escapeChar k))) = Some k"
      by (simp add: quoteString_scans findField_def)
    then show ?case using Cons f by simp
  qed simp
  then show ?thesis by (simp add: decodeStruct_def)
qed

lemma More_Nil [simp]: "\<not> More []"
  by (simp add: More_def skipSpace_def)

definition plainChar :: "char \<Rightarrow> bool" where
  "plainChar c = (c \<noteq> quoteChar \<and> c \<noteq> backslash \<and> \<not> of_char c < (0x20 :: nat))"

lemma plainChar_digit: "isDigit c \<Longrightarrow> plainChar c"
  by (auto simp: plainChar_def isDigit_def)

lemma padInt_plain: "0 \<le> i \<Longrightarrow> list_all plainChar (padInt w i)"
  using showNat_digits [of "nat i"] by (auto simp: padInt_def padNat_def list_all_iff intro: plainChar_digit) (simp add: plainChar_def)

lemma appendNano_plain: "0 \<le> n \<Longrightarrow> list_all plainChar (appendNano n)"
  using padInt_plain [of n 9] by (auto simp: appendNano_def list_all_iff dest: set_dropWhileD) (simp add: plainChar_def)

lemma FormatRFC3339_plain:
  assumes "0 \<le> Year t"
  shows "list_all plainChar (FormatRFC3339 t)"
proof -
  obtain y m d where dt: "dateOf t = (y, m, d)" by (cases "dateOf t") auto
  have "0 \<le> y" "0 \<le> m" "0 \<le> d" using dateOf_date [OF dt] assms by auto
  moreover have "0 \<le> t mod DayNanos div Second" by (simp add: pos_imp_zdiv_nonneg_iff)
  moreover have "plainChar (CHR ''-'')" "plainChar (CHR '':'')" "plainChar (CHR ''T'')" "plainChar (CHR ''Z'')"
    by (simp_all add: plainChar_def)
  ultimately show ?thesis
    by (simp add: FormatRFC3339_def dt Let_def padInt_plain appendNano_plain pos_imp_zdiv_nonneg_iff)
qed

lemma scansTo_time: "0 \<le> Year t \<Longrightarrow> scansTo (quoteChar # FormatRFC3339 t @ [quoteChar]) (JStr (FormatRFC3339 t))"
  using FormatRFC3339_plain [of t] by (intro scansTo_plain) (simp add: plainChar_def [abs_def])

end
