(* ===== verification/Sha256.thy ===== *)
theory Sha256
  imports Identity
begin

section \<open>SHA-256\<close>

text \<open>
  \<open>crypto/sha256\<close> as the program uses it, to name targets and streams in property names: \<open>Sum256\<close> on the bytes of a string, with
  32-bit words that wrap.
\<close>

text \<open>
  The constants are the first 32 bits of the fractional parts of the cube roots of the first 64 primes, and of the square
  roots of the first 8. \<open>rootBits e n b r\<close> settles the low \<open>b\<close> bits of the integer \<open>e\<close>-th root of \<open>n\<close>.
\<close>

fun rootBits :: "nat \<Rightarrow> nat \<Rightarrow> nat \<Rightarrow> nat \<Rightarrow> nat" where
  "rootBits e n 0 r = r"
| "rootBits e n (Suc b) r = rootBits e n b (if (r + 2 ^ b) ^ e \<le> n then r + 2 ^ b else r)"

definition primesBelow :: "nat \<Rightarrow> nat list" where
  "primesBelow n = filter (\<lambda>p. list_all (\<lambda>d. p mod d \<noteq> 0) [2..<p]) [2..<n]"

definition rootFraction :: "nat \<Rightarrow> nat \<Rightarrow> 32 word" where
  "rootFraction e p = word_of_nat (rootBits e (p * 2 ^ (32 * e)) 37 0)"

definition shaConstants :: "32 word list" where
  "shaConstants = map (rootFraction 3) (primesBelow 312)"

definition shaInitial :: "32 word list" where
  "shaInitial = map (rootFraction 2) (primesBelow 20)"

definition bytesOf :: "string \<Rightarrow> 8 word list" where
  "bytesOf s = map (\<lambda>c. word_of_nat (of_char c)) s"

definition wordBytes :: "32 word \<Rightarrow> 8 word list" where
  "wordBytes w = map (\<lambda>k. ucast (drop_bit k w)) [24, 16, 8, 0]"

definition lengthBytes :: "nat \<Rightarrow> 8 word list" where
  "lengthBytes n = map (\<lambda>k. word_of_nat (n div 2 ^ k)) [56, 48, 40, 32, 24, 16, 8, 0]"

definition shaPad :: "8 word list \<Rightarrow> 8 word list" where
  "shaPad m =
     (let n = length m; z = (119 - n mod 64) mod 64 in m @ 0x80 # replicate z 0 @ lengthBytes (8 * n))"

definition bigEndian :: "8 word list \<Rightarrow> 32 word" where
  "bigEndian bs = foldl (\<lambda>w b. push_bit 8 w OR ucast b) 0 bs"

fun chunks :: "nat \<Rightarrow> nat \<Rightarrow> 'a list \<Rightarrow> 'a list list" where
  "chunks 0 n xs = []"
| "chunks (Suc k) n xs = take n xs # chunks k n (drop n xs)"

text \<open>The message schedule, newest word first.\<close>

fun shaSchedule :: "nat \<Rightarrow> 32 word list \<Rightarrow> 32 word list" where
  "shaSchedule 0 w = w"
| "shaSchedule (Suc k) w =
     (let v1 = w ! 1; t1 = word_rotr 17 v1 XOR word_rotr 19 v1 XOR drop_bit 10 v1;
          v2 = w ! 14; t2 = word_rotr 7 v2 XOR word_rotr 18 v2 XOR drop_bit 3 v2 in
      shaSchedule k ((t1 + w ! 6 + t2 + w ! 15) # w))"

definition shaRound :: "32 word \<times> 32 word \<Rightarrow> 32 word list \<Rightarrow> 32 word list" where
  "shaRound kw v =
     (let a = v ! 0; b = v ! 1; c = v ! 2; d = v ! 3; e = v ! 4; f = v ! 5; g = v ! 6; h = v ! 7;
          t1 = h + (word_rotr 6 e XOR word_rotr 11 e XOR word_rotr 25 e) + ((e AND f) XOR (NOT e AND g)) + fst kw + snd kw;
          t2 = (word_rotr 2 a XOR word_rotr 13 a XOR word_rotr 22 a) + ((a AND b) XOR (a AND c) XOR (b AND c)) in
      [t1 + t2, a, b, c, d + t1, e, f, g])"

definition shaBlock :: "8 word list \<Rightarrow> 32 word list \<Rightarrow> 32 word list" where
  "shaBlock p h =
     (let w = rev (shaSchedule 48 (rev (map bigEndian (chunks 16 4 p)))) in
      map2 (+) h (fold shaRound (zip shaConstants w) h))"

definition Sum256 :: "string \<Rightarrow> 8 word list" where
  "Sum256 s =
     (let m = shaPad (bytesOf s) in
      concat (map wordBytes (fold shaBlock (chunks (length m div 64) 64 m) shaInitial)))"

subsection \<open>The size of a digest\<close>

lemma length_shaRound: "length (shaRound kw v) = 8"
  by (simp add: shaRound_def Let_def)

lemma length_fold_shaRound: "length v = 8 \<Longrightarrow> length (fold shaRound kws v) = 8"
  by (induction kws arbitrary: v) (simp_all add: length_shaRound)

lemma length_shaBlock: "length h = 8 \<Longrightarrow> length (shaBlock p h) = 8"
  by (simp add: shaBlock_def Let_def length_fold_shaRound)

lemma length_fold_shaBlock: "length h = 8 \<Longrightarrow> length (fold shaBlock ps h) = 8"
  by (induction ps arbitrary: h) (simp_all add: length_shaBlock)

lemma length_shaInitial: "length shaInitial = 8"
proof -
  have "length (primesBelow 20) = 8" by code_simp
  then show ?thesis by (simp add: shaInitial_def)
qed

lemma length_Sum256: "length (Sum256 s) = 32"
proof -
  have "length (concat (map wordBytes ws)) = 4 * length ws" for ws
    by (induction ws) (simp_all add: wordBytes_def)
  moreover have "length (fold shaBlock ps shaInitial) = 8" for ps
    by (rule length_fold_shaBlock) (rule length_shaInitial)
  ultimately show ?thesis by (simp add: Sum256_def Let_def)
qed

lemma EncodeToString_hex: "list_all isHex (EncodeToString bs)" "length (EncodeToString bs) = 2 * length bs"
  by (induction bs) (use hexByte_hex in \<open>auto simp: EncodeToString_def hexByte_def\<close>)

end
