(* ===== verification/Authority.thy ===== *)
theory Authority
  imports Ownership Policy_Resolve Go_Json Sha256
begin

section \<open>Authority over a source root and its recovery proofs\<close>

text \<open>
  The pure part of \<open>internal/lifecycle\<close>: \<open>authority.go\<close>, \<open>version.go\<close>, the inventory helpers of \<open>service.go\<close> and the records of
  \<open>reference.go\<close>. A root is operated on only when its own local markers name this installation and the state format is the one this
  build reads. A recovery proof is a property of the root, whose name holds the target, the stream and the snapshot and whose value
  is a JSON record. Shown: exactly which inventories grant authority; the marker that is written is the version that is read; and
  a stored proof decodes to the proof that was encoded.
\<close>

subsection \<open>Policy activation\<close>

definition ActiveRoot :: "Effective \<Rightarrow> string \<Rightarrow> go_error option" where
  "ActiveRoot effective root =
     (if \<not> e_Enabled effective \<or> \<not> policyValid effective then Some (Errorf ''source policy must be enabled and valid'' [])
      else
        (let source = (case mget (e_Values effective) (Namespace @ ''enabled'') of Some v \<Rightarrow> v_Dataset v | None \<Rightarrow> []) in
         if source = [] then Some (Errorf ''source activation must come from locally configured policy'' [])
         else if source \<noteq> root
         then Some (Errorf ''activation is inherited from %s, so %s is a member of that root rather than a root'' [Arg source, Arg root])
         else None))"

subsection \<open>Versions\<close>

abbreviation VersionProperty :: string where "VersionProperty \<equiv> StateNamespace @ ''version''"
abbreviation OwnerProperty :: string where "OwnerProperty \<equiv> StateNamespace @ ''owner''"
abbreviation ReferencePrefix :: string where "ReferencePrefix \<equiv> StateNamespace @ ''reference:''"
abbreviation TargetStatePrefix :: string where "TargetStatePrefix \<equiv> StateNamespace @ ''target:''"
abbreviation CurrentVersion :: int where "CurrentVersion \<equiv> 2"
abbreviation unversioned :: int where "unversioned \<equiv> 1"

text \<open>\<open>strconv.Atoi\<close>.\<close>

definition Atoi :: "string \<Rightarrow> int option" where
  "Atoi s =
     (let neg = HasPrefix s ''-''; ds = (if HasPrefix s ''-'' \<or> HasPrefix s ''+'' then tl s else s) in
      case parseNat ds of
        None \<Rightarrow> None
      | Some n \<Rightarrow>
          (let i = (if neg then - int n else int n) in
           if i < - MaxInt64 - 1 \<or> i > MaxInt64 then None else Some i))"

fun versionRows :: "string \<Rightarrow> int \<Rightarrow> Property list \<Rightarrow> int result" where
  "versionRows root version [] = Inr version"
| "versionRows root version (p # ps) =
     (if p_Dataset p \<noteq> root \<or> p_Name p \<noteq> VersionProperty \<or> p_Source p \<noteq> SourceLocal then versionRows root version ps
      else
        (case Atoi (p_Value p) of
           None \<Rightarrow> Inl (Errorf ''state version marker on %s is invalid'' [Arg root])
         | Some parsed \<Rightarrow>
             if version \<noteq> 0 \<or> parsed < 1 \<or> showInt parsed \<noteq> p_Value p
             then Inl (Errorf ''state version marker on %s is invalid'' [Arg root])
             else versionRows root parsed ps))"

definition StateVersion :: "State \<Rightarrow> string \<Rightarrow> int result" where
  "StateVersion state root =
     bindE (versionRows root 0 (st_Properties state)) (\<lambda>version. Inr (if version = 0 then unversioned else version))"

definition CurrentState :: "State \<Rightarrow> string \<Rightarrow> go_error option" where
  "CurrentState state root =
     (case StateVersion state root of
        Inl e \<Rightarrow> Some e
      | Inr version \<Rightarrow>
          if version < CurrentVersion
          then Some (Errorf ''state on %s is format v%d, and this build reads v%d; stop the daemon and run boomerangz migrate %s''
            [Arg root, Num version, Num CurrentVersion, Arg root])
          else if version > CurrentVersion
          then Some (Errorf ''state on %s is format v%d, newer than the v%d this build reads; upgrade boomerangz''
            [Arg root, Num version, Num CurrentVersion])
          else None)"

definition keepsRecords :: "State \<Rightarrow> string \<Rightarrow> bool" where
  "keepsRecords state root =
     list_ex (\<lambda>p. p_Dataset p = root \<and> p_Source p = SourceLocal
       \<and> (HasPrefix (p_Name p) ReferencePrefix \<or> HasPrefix (p_Name p) TargetStatePrefix)) (st_Properties state)"

definition recordsReadable :: "State \<Rightarrow> string \<Rightarrow> go_error option" where
  "recordsReadable state root = (if \<not> keepsRecords state root then None else CurrentState state root)"

definition authorityProperties :: "string \<Rightarrow> string \<Rightarrow> (string, string) gomap" where
  "authorityProperties installation lineage =
     mput LineageProperty lineage (mput OwnerProperty installation (mput VersionProperty (showInt CurrentVersion) []))"

subsection \<open>Authority\<close>

fun authorityRows :: "string \<Rightarrow> (string, string) gomap \<Rightarrow> Property list \<Rightarrow> (string, string) gomap result" where
  "authorityRows root vals [] = Inr vals"
| "authorityRows root vals (p # ps) =
     (if p_Dataset p \<noteq> root \<or> (p_Name p \<noteq> OwnerProperty \<and> p_Name p \<noteq> LineageProperty) then authorityRows root vals ps
      else if p_Source p \<noteq> SourceLocal \<or> \<not> Valid (p_Value p) \<or> mindex vals (p_Name p) \<noteq> []
      then Inl (Errorf ''source root %s requires unambiguous explicitly local owner and lineage'' [Arg root])
      else authorityRows root (mput (p_Name p) (p_Value p) vals) ps)"

definition receivedValue :: "State \<Rightarrow> string \<Rightarrow> string \<Rightarrow> string" where
  "receivedValue state dataset name = mindex (mindex (st_Received state) dataset) name"

definition RootAuthority :: "State \<Rightarrow> string \<Rightarrow> string \<Rightarrow> string result" where
  "RootAuthority state root installation =
     (if \<not> Valid installation then Inl (Errorf ''valid installation identity required'' [])
      else failIf (validateDataset root)
        (bindE (authorityRows root [] (st_Properties state)) (\<lambda>vals.
          let owner = mindex vals OwnerProperty; lineage = mindex vals LineageProperty in
          if owner = [] \<or> lineage = []
          then Inl (Errorf ''source root %s lacks local authority; explicit adoption required'' [Arg root])
          else if owner \<noteq> installation
          then Inl (Errorf ''dormant foreign lineage on %s: owner %s does not match installation %s'' [Arg root, Arg owner, Arg installation])
          else if receivedValue state root LineageProperty \<noteq> [] \<and> receivedValue state root LineageProperty \<noteq> lineage
          then Inl (Errorf ''conflicting received lineage on %s'' [Arg root])
          else failIf (CurrentState state root) (Inr lineage))))"

subsection \<open>Inventory helpers\<close>

fun lineageRows :: "string \<Rightarrow> string \<Rightarrow> Property list \<Rightarrow> string result" where
  "lineageRows dataset lineage [] = Inr lineage"
| "lineageRows dataset lineage (p # ps) =
     (if p_Dataset p \<noteq> dataset \<or> p_Name p \<noteq> LineageProperty then lineageRows dataset lineage ps
      else if lineage \<noteq> [] \<or> \<not> Valid (p_Value p) \<or> (p_Source p \<noteq> SourceLocal \<and> p_Source p \<noteq> SourceReceived)
      then Inl (Errorf ''ambiguous or invalid lineage on %s'' [Arg dataset])
      else lineageRows dataset (p_Value p) ps)"

definition storedLineage :: "State \<Rightarrow> string \<Rightarrow> string result" where
  "storedLineage state dataset =
     bindE (lineageRows dataset [] (st_Properties state)) (\<lambda>lineage.
       if receivedValue state dataset LineageProperty \<noteq> [] \<and> receivedValue state dataset LineageProperty \<noteq> lineage
       then Inl (Errorf ''conflicting or hidden received lineage on %s'' [Arg dataset])
       else Inr lineage)"

definition snapshotOf :: "State \<Rightarrow> Object \<Rightarrow> Snapshot" where
  "snapshotOf state ob =
     \<lparr>sn_Name = ob_Name ob, sn_GUID = ob_GUID ob, sn_Properties = filter (\<lambda>p. p_Dataset p = ob_Name ob) (st_Properties state),
      sn_Holds = mindex (st_Holds state) (ob_Name ob), sn_Clones = mindex (st_Clones state) (ob_Name ob),
      sn_ResumeRequired = (st_ResumeTokens state \<noteq> [])\<rparr>"

definition snapshotsIn :: "State \<Rightarrow> string \<Rightarrow> Snapshot list" where
  "snapshotsIn state dataset =
     map (snapshotOf state) (filter (\<lambda>ob. ob_Type ob = ''snapshot'' \<and> HasPrefix (ob_Name ob) (dataset @ ''@'')) (st_Objects state))"

definition isDataset :: "Object \<Rightarrow> bool" where
  "isDataset ob = (ob_Type ob = Filesystem \<or> ob_Type ob = Volume)"

definition scopeReady :: "State \<Rightarrow> string \<Rightarrow> go_error option" where
  "scopeReady state dataset =
     (if st_ResumeTokens state \<noteq> [] then Some (Errorf ''scope has resumable receive state'' [])
      else if list_ex (\<lambda>ob. ob_Name ob = dataset \<and> isDataset ob \<and> ob_GUID ob \<noteq> 0) (st_Objects state) then None
      else Some (Errorf ''dataset missing from lifecycle inventory'' []))"

definition datasetObjects :: "State \<Rightarrow> Object list" where
  "datasetObjects state = filter isDataset (st_Objects state)"

definition Subtree :: "State \<Rightarrow> string \<Rightarrow> string list" where
  "Subtree state root =
     map ob_Name (filter (\<lambda>ob. isDataset ob \<and> (ob_Name ob = root \<or> HasPrefix (ob_Name ob) (root @ ''/''))) (st_Objects state))"

fun memberErrors :: "string \<Rightarrow> string list \<Rightarrow> string list \<Rightarrow> go_error option" where
  "memberErrors root seen [] = None"
| "memberErrors root seen (member # members) =
     (case validateDataset member of
        Some e \<Rightarrow> Some e
      | None \<Rightarrow>
          if member \<noteq> root \<and> \<not> HasPrefix member (root @ ''/'') then Some (Errorf ''member %s is outside root %s'' [Arg member, Arg root])
          else if member \<in> set seen then Some (Errorf ''member %s is repeated'' [Arg member])
          else memberErrors root (member # seen) members)"

definition validateMembers :: "string \<Rightarrow> string list \<Rightarrow> go_error option" where
  "validateMembers root members =
     (if members = [] then Some (Errorf ''snapshot requires at least one member'' []) else memberErrors root [] members)"

definition AdoptionLineage :: "State \<Rightarrow> string \<Rightarrow> string result" where
  "AdoptionLineage state dataset =
     failIf (validateDataset dataset) (failIf (scopeReady state dataset)
       (bindE (storedLineage state dataset) (\<lambda>lineage.
         if lineage \<noteq> [] then
           (if \<not> list_ex (\<lambda>row. p_Dataset row = dataset \<and> p_Name row = LineageProperty \<and> p_Source row = SourceLocal \<and> p_Value row = lineage)
                  (st_Properties state)
            then Inl (Errorf ''received lineage is provenance only; local lineage or unique owned snapshot proof required'' [])
            else Inr lineage)
         else Adopt (snapshotsIn state dataset))))"

subsection \<open>Recovery proofs\<close>

record Reference =
  rf_TargetID :: string
  rf_Dataset :: string
  rf_Metadata :: Metadata
  rf_Recursive :: bool

record referenceRecord =
  rr_Stream :: string
  rr_Created :: instant
  rr_Recursive :: bool

record ReferenceSource =
  rs_Dataset :: string
  rs_GUID :: nat

definition TargetID :: "string \<Rightarrow> string" where
  "TargetID target = EncodeToString (Sum256 target)"

definition streamID :: "string \<Rightarrow> string" where
  "streamID dataset = EncodeToString (take 16 (Sum256 dataset))"

definition referenceProperty :: "Reference \<Rightarrow> string" where
  "referenceProperty r = ReferencePrefix @ rf_TargetID r @ '':'' @ streamID (rf_Dataset r) @ '':'' @ md_Snapshot (rf_Metadata r)"

definition referenceHold :: "Reference \<Rightarrow> string" where
  "referenceHold r = SnapshotPrefix @ rf_TargetID r"

definition referenceBookmark :: "Reference \<Rightarrow> string" where
  "referenceBookmark r = rf_Dataset r @ ''#'' @ referenceHold r @ ''-'' @ md_Snapshot (rf_Metadata r)"

definition referenceSnapshot :: "Reference \<Rightarrow> string" where
  "referenceSnapshot r = rf_Dataset r @ ''@'' @ metadataName (rf_Metadata r)"

definition sourceSnapshot :: "Reference \<Rightarrow> string \<Rightarrow> string" where
  "sourceSnapshot r dataset = dataset @ ''@'' @ metadataName (rf_Metadata r)"

definition sourceBookmark :: "Reference \<Rightarrow> string \<Rightarrow> string" where
  "sourceBookmark r dataset = dataset @ ''#'' @ referenceHold r @ ''-'' @ md_Snapshot (rf_Metadata r)"

definition subtreeOf :: "Reference \<Rightarrow> string" where
  "subtreeOf r = (if rf_Recursive r then rf_Dataset r else [])"

text \<open>\<open>Sources\<close>. The map of objects by name keeps the last object of a name.\<close>

definition objectNamed :: "State \<Rightarrow> string \<Rightarrow> Object option" where
  "objectNamed state name = find (\<lambda>ob. ob_Name ob = name) (rev (st_Objects state))"

definition sourceCandidates :: "Reference \<Rightarrow> State \<Rightarrow> string list" where
  "sourceCandidates r state =
     SortCompact (map ob_Name (filter (\<lambda>ob. isDataset ob \<and>
       (ob_Name ob = rf_Dataset r \<or> (rf_Recursive r \<and> HasPrefix (ob_Name ob) (rf_Dataset r @ ''/'')))) (st_Objects state)))"

definition sourceAt :: "Reference \<Rightarrow> State \<Rightarrow> string \<Rightarrow> ReferenceSource option result" where
  "sourceAt r state dataset =
     (let snapshot = objectNamed state (sourceSnapshot r dataset);
          bookmark = objectNamed state (sourceBookmark r dataset);
          held = referenceHold r \<in> set (mindex (st_Holds state) (sourceSnapshot r dataset)) in
      if \<not> held \<and> bookmark = None then Inr None
      else if (case bookmark of
                 Some b \<Rightarrow> ob_Type b \<noteq> ''bookmark'' \<or> ob_GUID b = 0 \<or> (case snapshot of Some s \<Rightarrow> ob_GUID b \<noteq> ob_GUID s | None \<Rightarrow> False)
               | None \<Rightarrow> False)
      then Inl (Errorf ''checkpoint bookmark %s does not match its snapshot'' [Arg (sourceBookmark r dataset)])
      else
        (let guid = (case snapshot of Some s \<Rightarrow> ob_GUID s | None \<Rightarrow> (case bookmark of Some b \<Rightarrow> ob_GUID b | None \<Rightarrow> 0)) in
         if guid = 0 then Inl (Errorf ''source %s has no GUID'' [Arg dataset])
         else Inr (Some \<lparr>rs_Dataset = dataset, rs_GUID = guid\<rparr>)))"

fun collectSources :: "Reference \<Rightarrow> State \<Rightarrow> string list \<Rightarrow> ReferenceSource list result" where
  "collectSources r state [] = Inr []"
| "collectSources r state (d # ds) =
     bindE (sourceAt r state d) (\<lambda>s. bindE (collectSources r state ds) (\<lambda>ss. Inr (case s of Some x \<Rightarrow> x # ss | None \<Rightarrow> ss)))"

definition Sources :: "Reference \<Rightarrow> State \<Rightarrow> ReferenceSource list result" where
  "Sources r state = collectSources r state (sourceCandidates r state)"

definition storeReferenceField :: "string \<Rightarrow> json \<Rightarrow> referenceRecord \<Rightarrow> referenceRecord option" where
  "storeReferenceField f v r =
     (if f = ''stream'' then map_option (\<lambda>x. r\<lparr>rr_Stream := x\<rparr>) (storeString v (rr_Stream r))
      else if f = ''created'' then map_option (\<lambda>x. r\<lparr>rr_Created := x\<rparr>) (storeTime v (rr_Created r))
      else map_option (\<lambda>x. r\<lparr>rr_Recursive := x\<rparr>) (storeBool v (rr_Recursive r)))"

definition decodeReferenceRecord :: "string \<Rightarrow> referenceRecord option" where
  "decodeReferenceRecord value =
     bindO (decodeValue value) (\<lambda>(v, rest).
     bindO (decodeStruct True [''stream'', ''created'', ''recursive''] storeReferenceField v
              \<lparr>rr_Stream = [], rr_Created = 0, rr_Recursive = False\<rparr>) (\<lambda>record.
       if More rest then None else Some record))"

definition decodeReference :: "Property \<Rightarrow> string \<Rightarrow> string \<Rightarrow> Reference result" where
  "decodeReference p root lineage =
     (let parts = Split (TrimPrefix (p_Name p) ReferencePrefix) (CHR '':'') in
      if \<not> Valid lineage \<or> length parts \<noteq> 3 \<or> length (parts ! 0) \<noteq> 64 \<or> \<not> Valid (parts ! 2)
      then Inl (Errorf ''invalid reference key'' [])
      else if \<not> list_all isHexDigit (parts ! 0) then Inl (Errorf ''encoding/hex: invalid byte'' [])
      else
        (case decodeReferenceRecord (p_Value p) of
           None \<Rightarrow> Inl (Errorf ''invalid reference record'' [])
         | Some record \<Rightarrow>
             (let stream = (if rr_Stream record \<noteq> [] then root @ ''/'' @ rr_Stream record else root);
                  created = rr_Created record in
              if validateDataset stream \<noteq> None \<or> IsZero created \<or> Year created < 1 \<or> Year created > 9999
              then Inl (Errorf ''invalid reference record'' [])
              else
                (let r = \<lparr>rf_TargetID = parts ! 0, rf_Dataset = stream,
                          rf_Metadata = \<lparr>md_Lineage = lineage, md_Snapshot = parts ! 2, md_Created = created\<rparr>,
                          rf_Recursive = rr_Recursive record\<rparr> in
                 if referenceProperty r \<noteq> p_Name p then Inl (Errorf ''reference record names another stream'' [])
                 else Inr r))))"

text \<open>\<open>Marshal\<close> fails on a time whose year does not have four digits.\<close>

definition encodeReference :: "Reference \<Rightarrow> string \<Rightarrow> string result" where
  "encodeReference r root =
     (let created = md_Created (rf_Metadata r);
          stream = (if rf_Dataset r \<noteq> root then TrimPrefix (rf_Dataset r) (root @ ''/'') else []) in
      if Year created < 0 \<or> Year created > 9999 then Inl (Errorf ''json: error calling MarshalJSON for type time.Time'' [])
      else Inr (marshalStruct
        ((if stream = [] then [] else [(''stream'', quoteString stream)])
         @ [(''created'', quoteChar # FormatRFC3339 created @ [quoteChar])]
         @ (if rf_Recursive r then [(''recursive'', ''true'')] else []))))"

fun collectReferences :: "string \<Rightarrow> string \<Rightarrow> string list \<Rightarrow> Property list \<Rightarrow> Reference list result" where
  "collectReferences dataset lineage seen [] = Inr []"
| "collectReferences dataset lineage seen (p # ps) =
     (if p_Dataset p \<noteq> dataset \<or> \<not> HasPrefix (p_Name p) ReferencePrefix \<or> p_Source p \<noteq> SourceLocal
      then collectReferences dataset lineage seen ps
      else
        (case decodeReference p dataset lineage of
           Inl e \<Rightarrow> Inl (Errorf ''invalid reference proof %s'' [Arg (p_Name p)])
         | Inr r \<Rightarrow>
             if p_Name p \<in> set seen then Inl (Errorf ''invalid reference proof %s'' [Arg (p_Name p)])
             else bindE (collectReferences dataset lineage (p_Name p # seen) ps) (\<lambda>rs. Inr (r # rs))))"

definition referenceRecords :: "State \<Rightarrow> string \<Rightarrow> string \<Rightarrow> Reference list result" where
  "referenceRecords state dataset lineage =
     failIf (recordsReadable state dataset) (collectReferences dataset lineage [] (st_Properties state))"

definition findOwned :: "State \<Rightarrow> string \<Rightarrow> string \<Rightarrow> string \<Rightarrow> (Snapshot \<times> Metadata) result" where
  "findOwned state dataset name lineage =
     (case find (\<lambda>s. sn_Name s = name) (snapshotsIn state dataset) of
        Some s \<Rightarrow> bindE (Ownership s lineage) (\<lambda>m. Inr (s, m))
      | None \<Rightarrow> Inl (Errorf ''source snapshot not found'' []))"

definition hasObject :: "State \<Rightarrow> string \<Rightarrow> bool" where
  "hasObject state name = list_ex (\<lambda>ob. ob_Name ob = name) (st_Objects state)"

fun snapshotEvidence :: "string \<Rightarrow> Snapshot list \<Rightarrow> go_error option" where
  "snapshotEvidence lineage [] = None"
| "snapshotEvidence lineage (s # ss) =
     (if list_ex (\<lambda>row. p_Name row = LineageProperty \<or> p_Name row = SnapshotProperty) (sn_Properties s)
      then
        (case Ownership s lineage of
           Inl e \<Rightarrow> Some (Errorf ''inconsistent snapshot evidence on %s: %w'' [Arg (sn_Name s), Wrap e])
         | Inr _ \<Rightarrow> snapshotEvidence lineage ss)
      else snapshotEvidence lineage ss)"

definition ValidateLineageEvidence :: "State \<Rightarrow> string \<Rightarrow> string \<Rightarrow> go_error option" where
  "ValidateLineageEvidence state root lineage =
     (if \<not> Valid lineage then Some (Errorf ''valid lineage required'' [])
      else
        (case snapshotEvidence lineage (snapshotsIn state root) of
           Some e \<Rightarrow> Some e
         | None \<Rightarrow> (case referenceRecords state root lineage of Inl e \<Rightarrow> Some e | Inr _ \<Rightarrow> None)))"

subsection \<open>What authority requires\<close>

definition markerRows :: "string \<Rightarrow> Property list \<Rightarrow> Property list" where
  "markerRows root ps = filter (\<lambda>p. p_Dataset p = root \<and> (p_Name p = OwnerProperty \<or> p_Name p = LineageProperty)) ps"

lemma authorityRows_Inr:
  "authorityRows root vals ps = Inr v \<longleftrightarrow>
     list_all (\<lambda>p. p_Source p = SourceLocal \<and> Valid (p_Value p)) (markerRows root ps) \<and> distinct (map p_Name (markerRows root ps))
     \<and> (\<forall>p \<in> set (markerRows root ps). mindex vals (p_Name p) = [])
     \<and> v = fold (\<lambda>p. mput (p_Name p) (p_Value p)) (markerRows root ps) vals"
proof (induction root vals ps rule: authorityRows.induct)
  case (1 root vals)
  then show ?case by (auto simp: markerRows_def)
next
  case (2 root vals p ps)
  show ?case
  proof (cases "p_Dataset p \<noteq> root \<or> (p_Name p \<noteq> OwnerProperty \<and> p_Name p \<noteq> LineageProperty)")
    case True
    then have "markerRows root (p # ps) = markerRows root ps" by (auto simp: markerRows_def)
    with 2(1) [OF True] show ?thesis by (simp only: authorityRows.simps(2) if_P [OF True])
  next
    case False
    then have rows: "markerRows root (p # ps) = p # markerRows root ps" by (auto simp: markerRows_def)
    have step: "authorityRows root vals (p # ps) =
        (if p_Source p \<noteq> SourceLocal \<or> \<not> Valid (p_Value p) \<or> mindex vals (p_Name p) \<noteq> []
         then Inl (Errorf ''source root %s requires unambiguous explicitly local owner and lineage'' [Arg root])
         else authorityRows root (mput (p_Name p) (p_Value p) vals) ps)"
      by (simp only: authorityRows.simps(2) if_not_P [OF False])
    show ?thesis
    proof (cases "p_Source p \<noteq> SourceLocal \<or> \<not> Valid (p_Value p) \<or> mindex vals (p_Name p) \<noteq> []")
      case True
      then show ?thesis unfolding step rows by auto
    next
      case ok: False
      then have v: "p_Value p \<noteq> []" by auto
      note IH = 2(2) [OF False ok]
      show ?thesis using ok v unfolding step rows if_not_P [OF ok] IH by (auto simp: image_iff split: if_splits)
    qed
  qed
qed

lemma marker_names: "OwnerProperty \<noteq> LineageProperty" "VersionProperty \<noteq> LineageProperty" "VersionProperty \<noteq> OwnerProperty"
  by (simp_all add: LineageProperty_def)

definition ownedRows :: "string \<Rightarrow> string \<Rightarrow> Property list \<Rightarrow> bool" where
  "ownedRows installation lineage rows \<longleftrightarrow>
     (\<exists>own lin. (rows = [own, lin] \<or> rows = [lin, own])
        \<and> p_Name own = OwnerProperty \<and> p_Value own = installation \<and> p_Source own = SourceLocal
        \<and> p_Name lin = LineageProperty \<and> p_Value lin = lineage \<and> p_Source lin = SourceLocal)"

lemma markerRows_names: "p \<in> set (markerRows root ps) \<Longrightarrow> p_Name p = OwnerProperty \<or> p_Name p = LineageProperty"
  by (auto simp: markerRows_def)

lemma two_rows:
  assumes names: "\<And>p. p \<in> set rows \<Longrightarrow> p_Name p = OwnerProperty \<or> p_Name p = LineageProperty"
    and distinct: "distinct (map p_Name rows)"
    and vals: "mindex (fold (\<lambda>p. mput (p_Name p) (p_Value p)) rows []) OwnerProperty = installation"
      "mindex (fold (\<lambda>p. mput (p_Name p) (p_Value p)) rows []) LineageProperty = lineage"
    and nonempty: "installation \<noteq> []" "lineage \<noteq> []"
    and local: "list_all (\<lambda>p. p_Source p = SourceLocal) rows"
  shows "ownedRows installation lineage rows"
proof -
  have "set (map p_Name rows) \<subseteq> {OwnerProperty, LineageProperty}" using names by auto
  then have "length rows \<le> 2"
    using distinct distinct_card [OF distinct] card_mono [of "{OwnerProperty, LineageProperty}" "set (map p_Name rows)"] marker_names by simp
  then consider "rows = []" | a where "rows = [a]" | a b where "rows = [a, b]"
    by (cases rows rule: list.exhaust [case_names n c]; cases "tl rows"; cases "tl (tl rows)") auto
  then show ?thesis
  proof cases
    case 1
    with vals nonempty show ?thesis by simp
  next
    case (2 a)
    with vals nonempty names [of a] marker_names show ?thesis by auto
  next
    case (3 a b)
    have v: "mindex (fold (\<lambda>p. mput (p_Name p) (p_Value p)) [a, b] []) = (\<lambda>h. if h = p_Name b then p_Value b else if h = p_Name a then p_Value a else [])"
      by (simp add: fun_eq_iff del: mput.simps)
    from 3 names [of a] names [of b] distinct
    consider "p_Name a = OwnerProperty" "p_Name b = LineageProperty" | "p_Name a = LineageProperty" "p_Name b = OwnerProperty"
      by auto
    then show ?thesis
    proof cases
      case 1
      with 3 vals local marker_names show ?thesis unfolding ownedRows_def 3 v by (intro exI [of _ a] exI [of _ b]) simp
    next
      case 2
      with 3 vals local marker_names show ?thesis unfolding ownedRows_def 3 v by (intro exI [of _ b] exI [of _ a]) simp
    qed
  qed
qed

lemma ownedRows_vals:
  assumes "ownedRows installation lineage rows" "Valid installation" "Valid lineage"
  shows "list_all (\<lambda>p. p_Source p = SourceLocal \<and> Valid (p_Value p)) rows" "distinct (map p_Name rows)"
    "mindex (fold (\<lambda>p. mput (p_Name p) (p_Value p)) rows []) OwnerProperty = installation"
    "mindex (fold (\<lambda>p. mput (p_Name p) (p_Value p)) rows []) LineageProperty = lineage"
  using assms marker_names by (auto simp: ownedRows_def simp del: mput.simps)

lemma RootAuthority_iff:
  "RootAuthority state root installation = Inr lineage \<longleftrightarrow>
     Valid installation \<and> validDataset root \<and> Valid lineage
     \<and> ownedRows installation lineage (markerRows root (st_Properties state))
     \<and> (receivedValue state root LineageProperty = [] \<or> receivedValue state root LineageProperty = lineage)
     \<and> CurrentState state root = None"
  (is "?auth = _ \<longleftrightarrow> ?spec")
proof
  let ?rows = "markerRows root (st_Properties state)"
  assume "?auth = Inr lineage"
  then obtain vals where i: "Valid installation" "validDataset root" "authorityRows root [] (st_Properties state) = Inr vals"
    and v: "mindex vals OwnerProperty = installation" "mindex vals LineageProperty = lineage" "installation \<noteq> []" "lineage \<noteq> []"
    and rest: "receivedValue state root LineageProperty = [] \<or> receivedValue state root LineageProperty = lineage" "CurrentState state root = None"
    by (auto simp: RootAuthority_def result_iffs Let_def split: if_splits)
  from i(3) have rows: "list_all (\<lambda>p. p_Source p = SourceLocal \<and> Valid (p_Value p)) ?rows" "distinct (map p_Name ?rows)"
    and vals: "vals = fold (\<lambda>p. mput (p_Name p) (p_Value p)) ?rows []"
    by (simp_all add: authorityRows_Inr)
  have "list_all (\<lambda>p. p_Source p = SourceLocal) ?rows" using rows(1) by (auto simp: list_all_iff)
  then have own: "ownedRows installation lineage ?rows"
    using v unfolding vals by - (rule two_rows [OF _ rows(2)], rule markerRows_names)
  moreover have "Valid lineage" using own rows(1) by (auto simp: ownedRows_def)
  ultimately show ?spec using i(1,2) rest by simp
next
  assume spec: "?spec"
  let ?rows = "markerRows root (st_Properties state)"
  note facts = ownedRows_vals [of installation lineage ?rows]
  have "authorityRows root [] (st_Properties state) = Inr (fold (\<lambda>p. mput (p_Name p) (p_Value p)) ?rows [])"
    unfolding authorityRows_Inr using spec facts by simp
  then show "?auth = Inr lineage"
    using spec facts by (auto simp: RootAuthority_def Let_def)
qed

lemma versionRows_filter:
  "versionRows root n ps = versionRows root n (filter (\<lambda>p. p_Dataset p = root \<and> p_Name p = VersionProperty \<and> p_Source p = SourceLocal) ps)"
proof (induction root n ps rule: versionRows.induct)
  case (2 root n p ps)
  show ?case
  proof (cases "p_Dataset p \<noteq> root \<or> p_Name p \<noteq> VersionProperty \<or> p_Source p \<noteq> SourceLocal")
    case True
    with 2(1) [OF True] show ?thesis by auto
  next
    case False
    with 2(2) [OF False] show ?thesis by (auto split: option.splits)
  qed
qed simp

lemma authorityProperties_eq:
  "authorityProperties installation lineage = [(LineageProperty, lineage), (OwnerProperty, installation), (VersionProperty, ''2'')]"
proof -
  have "showInt 2 = ''2''" by code_simp
  moreover have "LineageProperty < OwnerProperty" "OwnerProperty < VersionProperty" "\<not> VersionProperty < OwnerProperty" by code_simp+
  ultimately show ?thesis using marker_names by (simp add: authorityProperties_def)
qed

text \<open>
  C24: An operation has authority over a root exactly when the root's own marker rows are two, a local owner naming this
  installation and a local valid lineage, no received lineage disagrees, and the state is in the format this build reads.
\<close>

theorem RootAuthority_exact:
  "RootAuthority state root installation = Inr lineage \<longleftrightarrow>
     Valid installation \<and> validDataset root \<and> Valid lineage
     \<and> ownedRows installation lineage (markerRows root (st_Properties state))
     \<and> (receivedValue state root LineageProperty = [] \<or> receivedValue state root LineageProperty = lineage)
     \<and> CurrentState state root = None"
  by (rule RootAuthority_iff)

lemma authority_reads_back:
  assumes "Valid installation" and "Valid lineage" and "validDataset root"
    and rows: "filter (\<lambda>p. p_Dataset p = root \<and> p_Name p \<in> {OwnerProperty, LineageProperty, VersionProperty}) (st_Properties state)
      = map (\<lambda>(k, v). \<lparr>p_Dataset = root, p_Name = k, p_Value = v, p_Source = SourceLocal\<rparr>) (authorityProperties installation lineage)"
    and "receivedValue state root LineageProperty = []"
  shows "RootAuthority state root installation = Inr lineage"
proof -
  let ?row = "\<lambda>k v. \<lparr>p_Dataset = root, p_Name = k, p_Value = v, p_Source = SourceLocal\<rparr>"
  let ?all = "[?row LineageProperty lineage, ?row OwnerProperty installation, ?row VersionProperty ''2'']"
  have all: "filter (\<lambda>p. p_Dataset p = root \<and> p_Name p \<in> {OwnerProperty, LineageProperty, VersionProperty}) (st_Properties state) = ?all"
    using rows by (simp add: authorityProperties_eq)
  have "markerRows root (st_Properties state) = markerRows root ?all"
    unfolding markerRows_def all [symmetric] filter_filter by (rule filter_cong) auto
  also have "\<dots> = [?row LineageProperty lineage, ?row OwnerProperty installation]"
    using marker_names by (simp add: markerRows_def)
  finally have m: "ownedRows installation lineage (markerRows root (st_Properties state))"
    unfolding ownedRows_def by (intro exI [of _ "?row OwnerProperty installation"] exI [of _ "?row LineageProperty lineage"]) simp
  have "filter (\<lambda>p. p_Dataset p = root \<and> p_Name p = VersionProperty \<and> p_Source p = SourceLocal) (st_Properties state)
      = filter (\<lambda>p. p_Dataset p = root \<and> p_Name p = VersionProperty \<and> p_Source p = SourceLocal) ?all"
    unfolding all [symmetric] filter_filter by (rule filter_cong) auto
  also have "\<dots> = [?row VersionProperty ''2'']" using marker_names by simp
  finally have v: "versionRows root 0 (st_Properties state) = versionRows root 0 [?row VersionProperty ''2'']"
    by (subst versionRows_filter) simp
  have "Atoi ''2'' = Some 2" "showInt 2 = ''2''" by code_simp+
  then have "CurrentState state root = None" by (simp add: CurrentState_def StateVersion_def v)
  with assms m show ?thesis by (simp add: RootAuthority_iff)
qed

text \<open>
  C25: What adoption and the first snapshot of a root write is what the authority check accepts: once the markers of a
  root are exactly the properties written, the root is owned by this installation with the lineage written.
\<close>

theorem authority_written_is_read:
  assumes "Valid installation" and "Valid lineage" and "validDataset root"
    and rows: "filter (\<lambda>p. p_Dataset p = root \<and> p_Name p \<in> {OwnerProperty, LineageProperty, VersionProperty}) (st_Properties state)
      = map (\<lambda>(k, v). \<lparr>p_Dataset = root, p_Name = k, p_Value = v, p_Source = SourceLocal\<rparr>) (authorityProperties installation lineage)"
    and "receivedValue state root LineageProperty = []"
  shows "RootAuthority state root installation = Inr lineage"
  using assms by (rule authority_reads_back)

subsection \<open>A reference proof reads back\<close>

lemma hex_no_colon: "list_all isHex s \<Longrightarrow> CHR '':'' \<notin> set s"
  by (auto simp: list_all_iff isHex_def isDigit_def)

lemma Valid_no_colon: "Valid v \<Longrightarrow> CHR '':'' \<notin> set v"
proof
  assume v: "Valid v" and "CHR '':'' \<in> set v"
  then obtain i where i: "i < length v" "v ! i = CHR '':''" by (auto simp: in_set_conv_nth)
  have "list_all (\<lambda>p. \<not> p (CHR '':'')) uuidPattern" by code_simp
  with v i show False by (auto simp: Valid_def list_all2_conv_all_nth list_all_length)
qed

lemma isHex_isHexDigit: "list_all isHex s \<Longrightarrow> list_all isHexDigit s"
  by (auto simp: list_all_iff isHexDigit_def)

lemma decodeReferenceRecord_marshal:
  assumes "list_all isASCII stream" and "0 \<le> Year created" "Year created \<le> 9999"
  shows "decodeReferenceRecord (marshalStruct
        ((if stream = [] then [] else [(''stream'', quoteString stream)])
         @ [(''created'', quoteChar # FormatRFC3339 created @ [quoteChar])]
         @ (if recursive then [(''recursive'', ''true'')] else [])))
    = Some \<lparr>rr_Stream = stream, rr_Created = created, rr_Recursive = recursive\<rparr>"
proof -
  define fs where "fs = (if stream = [] then [] else [(''stream'', quoteString stream, JStr (concat (map escapeChar stream)))])
    @ [(''created'', quoteChar # FormatRFC3339 created @ [quoteChar], JStr (FormatRFC3339 created))]
    @ (if recursive then [(''recursive'', ''true'', JBool True)] else [])"
  have ascii: "list_all isASCII ''stream''" "list_all isASCII ''created''" "list_all isASCII ''recursive''" by code_simp+
  have ok: "list_all (\<lambda>(k, v, j). list_all isASCII k \<and> scansTo v j) fs" "fs \<noteq> []"
    "list_all (\<lambda>(k, v, j). k \<in> set [''stream'', ''created'', ''recursive''] \<and> list_all isASCII k) fs"
    using assms ascii scansTo_bool by (auto simp: fs_def scansTo_string scansTo_time)
  have "(if stream = [] then [] else [(''stream'', quoteString stream)])
         @ [(''created'', quoteChar # FormatRFC3339 created @ [quoteChar])]
         @ (if recursive then [(''recursive'', ''true'')] else []) = map (\<lambda>(k, v, j). (k, v)) fs"
    by (simp add: fs_def)
  moreover have "foldl (\<lambda>acc (k, v, j). bindO acc (storeReferenceField k j)) (Some \<lparr>rr_Stream = [], rr_Created = 0, rr_Recursive = False\<rparr>) fs
    = Some \<lparr>rr_Stream = stream, rr_Created = created, rr_Recursive = recursive\<rparr>"
    using assms by (simp add: fs_def storeReferenceField_def storeString_def storeTime_def storeBool_def quoteString_scans ParseRFC3339_FormatRFC3339)
  ultimately show ?thesis
    by (simp add: decodeReferenceRecord_def decode_marshal [OF ok(2,1)] decodeStruct_fields [OF ok(3)])
qed

definition provable :: "Reference \<Rightarrow> string \<Rightarrow> bool" where
  "provable r root \<longleftrightarrow> list_all isHex (rf_TargetID r) \<and> length (rf_TargetID r) = 64 \<and> inside (rf_Dataset r) root
     \<and> validDataset (rf_Dataset r) \<and> list_all isASCII (rf_Dataset r) \<and> Valid (md_Lineage (rf_Metadata r)) \<and> Valid (md_Snapshot (rf_Metadata r))
     \<and> \<not> IsZero (md_Created (rf_Metadata r)) \<and> 1 \<le> Year (md_Created (rf_Metadata r)) \<and> Year (md_Created (rf_Metadata r)) \<le> 9999"

lemma referenceProperty_parts:
  assumes "provable r root"
  shows "Split (TrimPrefix (referenceProperty r) ReferencePrefix) (CHR '':'') = [rf_TargetID r, streamID (rf_Dataset r), md_Snapshot (rf_Metadata r)]"
proof -
  have n: "CHR '':'' \<notin> set (rf_TargetID r)" "CHR '':'' \<notin> set (streamID (rf_Dataset r))" "CHR '':'' \<notin> set (md_Snapshot (rf_Metadata r))"
    using assms by (auto simp: provable_def streamID_def dest: Valid_no_colon hex_no_colon) (use hex_no_colon EncodeToString_hex in blast)
  have t: "TrimPrefix (referenceProperty r) ReferencePrefix = rf_TargetID r @ CHR '':'' # streamID (rf_Dataset r) @ CHR '':'' # md_Snapshot (rf_Metadata r)"
    unfolding referenceProperty_def TrimPrefix_append by simp
  show ?thesis unfolding t Split_append by (simp add: n Split_absent)
qed

lemma reference_reads_back:
  assumes "provable r root"
  shows "\<exists>v. encodeReference r root = Inr v
    \<and> decodeReference \<lparr>p_Dataset = root, p_Name = referenceProperty r, p_Value = v, p_Source = SourceLocal\<rparr> root (md_Lineage (rf_Metadata r)) = Inr r"
proof -
  define created where "created = md_Created (rf_Metadata r)"
  define stream where "stream = (if rf_Dataset r \<noteq> root then TrimPrefix (rf_Dataset r) (root @ ''/'') else [])"
  have y: "\<not> (Year created < 0 \<or> Year created > 9999)" "0 \<le> Year created" "Year created \<le> 9999"
    using assms by (auto simp: provable_def created_def)
  have ds: "(if stream \<noteq> [] then root @ ''/'' @ stream else root) = rf_Dataset r \<and> list_all isASCII stream"
  proof (cases "rf_Dataset r = root")
    case False
    then obtain t where t: "rf_Dataset r = root @ CHR ''/'' # t" using assms inside_cases by (auto simp: provable_def)
    then have tr: "TrimPrefix (rf_Dataset r) (root @ ''/'') = t"
      using TrimPrefix_append [of "root @ ''/''" t] by simp
    have "t \<noteq> []" using assms t validDataset_append goodParts_Nil by (auto simp: provable_def)
    then show ?thesis using False assms t tr by (simp add: stream_def provable_def)
  qed (simp add: stream_def)
  let ?stored = "marshalStruct ((if stream = [] then [] else [(''stream'', quoteString stream)])
         @ [(''created'', quoteChar # FormatRFC3339 created @ [quoteChar])] @ (if rf_Recursive r then [(''recursive'', ''true'')] else []))"
  have enc: "encodeReference r root = Inr ?stored"
    unfolding encodeReference_def Let_def created_def [symmetric] stream_def [symmetric] if_not_P [OF y(1)] ..
  have rec: "decodeReferenceRecord ?stored = Some \<lparr>rr_Stream = stream, rr_Created = created, rr_Recursive = rf_Recursive r\<rparr>"
    using ds y by (intro decodeReferenceRecord_marshal) simp_all
  have same: "\<lparr>rf_TargetID = rf_TargetID r, rf_Dataset = rf_Dataset r, rf_Metadata = \<lparr>md_Lineage = md_Lineage (rf_Metadata r),
     md_Snapshot = md_Snapshot (rf_Metadata r), md_Created = created\<rparr>, rf_Recursive = rf_Recursive r\<rparr> = r"
    by (simp add: created_def)
  have "decodeReference \<lparr>p_Dataset = root, p_Name = referenceProperty r, p_Value = ?stored, p_Source = SourceLocal\<rparr> root (md_Lineage (rf_Metadata r)) = Inr r"
    using assms ds isHex_isHexDigit
    by (simp only: decodeReference_def Property.simps referenceProperty_parts [OF assms] rec option.case referenceRecord.simps Let_def same)
      (simp add: provable_def created_def [symmetric] same)
  with enc show ?thesis by blast
qed

text \<open>
  C26: A reference proof reads back. The record \<open>encodeReference\<close> writes for a reference of a root, stored under the
  reference's own property, is decoded to that reference: target, stream, lineage, snapshot, creation time and scope.
\<close>

theorem reference_proof_roundtrip:
  assumes "provable r root"
  shows "\<exists>v. encodeReference r root = Inr v
    \<and> decodeReference \<lparr>p_Dataset = root, p_Name = referenceProperty r, p_Value = v, p_Source = SourceLocal\<rparr> root (md_Lineage (rf_Metadata r)) = Inr r"
  using assms by (rule reference_reads_back)

definition exReference :: Reference where
  "exReference = \<lparr>rf_TargetID = TargetID ''nas:/backup'', rf_Dataset = ''tank/home'',
     rf_Metadata = \<lparr>md_Lineage = ''01010101-0101-4101-8101-010101010101'', md_Snapshot = ''02020202-0202-4202-8202-020202020202'', md_Created = 5 * Second + 250\<rparr>,
     rf_Recursive = True\<rparr>"

lemma exReference_provable: "provable exReference ''tank''"
proof -
  have "list_all isHex (TargetID ''nas:/backup'')" "length (TargetID ''nas:/backup'') = 64"
    by (simp_all add: TargetID_def EncodeToString_hex length_Sum256)
  moreover have "inside (rf_Dataset exReference) ''tank'' \<and> validDataset (rf_Dataset exReference) \<and> list_all isASCII (rf_Dataset exReference)
      \<and> Valid (md_Lineage (rf_Metadata exReference)) \<and> Valid (md_Snapshot (rf_Metadata exReference))
      \<and> \<not> IsZero (md_Created (rf_Metadata exReference)) \<and> Year (md_Created (rf_Metadata exReference)) = 1"
    unfolding exReference_def Reference.simps Metadata.simps by code_simp
  ultimately show ?thesis by (simp add: provable_def exReference_def)
qed

theorem reference_proof_roundtrip_witness:
  "provable exReference ''tank'' \<and> (\<exists>v. encodeReference exReference ''tank'' = Inr v
    \<and> decodeReference \<lparr>p_Dataset = ''tank'', p_Name = referenceProperty exReference, p_Value = v, p_Source = SourceLocal\<rparr> ''tank''
        (md_Lineage (rf_Metadata exReference)) = Inr exReference)"
  using exReference_provable reference_proof_roundtrip [OF exReference_provable] by blast

definition exAuthority :: State where
  "exAuthority = emptyState\<lparr>st_Properties :=
     map (\<lambda>(k, v). \<lparr>p_Dataset = ''tank'', p_Name = k, p_Value = v, p_Source = SourceLocal\<rparr>)
       (authorityProperties ''03030303-0303-4303-8303-030303030303'' ''01010101-0101-4101-8101-010101010101'')\<rparr>"

theorem authority_written_is_read_witness:
  "RootAuthority exAuthority ''tank'' ''03030303-0303-4303-8303-030303030303'' = Inr ''01010101-0101-4101-8101-010101010101''"
proof (rule authority_written_is_read)
  show "Valid ''03030303-0303-4303-8303-030303030303''" "Valid ''01010101-0101-4101-8101-010101010101''" "validDataset ''tank''"
    "receivedValue exAuthority ''tank'' LineageProperty = []" by code_simp+
  show "filter (\<lambda>p. p_Dataset p = ''tank'' \<and> p_Name p \<in> {OwnerProperty, LineageProperty, VersionProperty}) (st_Properties exAuthority)
    = map (\<lambda>(k, v). \<lparr>p_Dataset = ''tank'', p_Name = k, p_Value = v, p_Source = SourceLocal\<rparr>)
        (authorityProperties ''03030303-0303-4303-8303-030303030303'' ''01010101-0101-4101-8101-010101010101'')"
    by (simp add: exAuthority_def authorityProperties_eq)
qed

end
