(* ===== verification/Zfs_Backend.thy ===== *)
theory Zfs_Backend
  imports Zfs_State
begin

section \<open>The typed boundary to ZFS\<close>

text \<open>
  The interfaces of \<open>internal/zfs/executor.go\<close>. An operation takes the world it acts on and returns its result
  and the new world; what the \<open>zfs\<close> command does with the world is the implementation's own, a
  parameter of everything that holds a backend. The optional interfaces a backend may also implement
  (\<open>ReseedExecutor\<close>, \<open>ReplicaExecutor\<close>) are fields of option type, the type assertion being the case
  distinction on them.
\<close>

subsection \<open>Operations on a world\<close>

type_synonym ('w, 'a) zio = "'w \<Rightarrow> 'a result \<times> 'w"

definition ioReturn :: "'a \<Rightarrow> ('w, 'a) zio" where
  "ioReturn x w = (Inr x, w)"

definition ioFail :: "go_error \<Rightarrow> ('w, 'a) zio" where
  "ioFail e w = (Inl e, w)"

definition ioBind :: "('w, 'a) zio \<Rightarrow> ('a \<Rightarrow> ('w, 'b) zio) \<Rightarrow> ('w, 'b) zio" where
  "ioBind m f w = (case m w of (Inl e, w') \<Rightarrow> (Inl e, w') | (Inr x, w') \<Rightarrow> f x w')"

definition ioLift :: "'a result \<Rightarrow> ('w, 'a) zio" where
  "ioLift r w = (r, w)"

definition ioCheck :: "go_error option \<Rightarrow> ('w, 'a) zio \<Rightarrow> ('w, 'a) zio" where
  "ioCheck c m = (case c of Some e \<Rightarrow> ioFail e | None \<Rightarrow> m)"

text \<open>A step whose error is handled rather than returned at once.\<close>

definition ioTry :: "('w, 'a) zio \<Rightarrow> (go_error \<Rightarrow> ('w, 'b) zio) \<Rightarrow> ('a \<Rightarrow> ('w, 'b) zio) \<Rightarrow> ('w, 'b) zio" where
  "ioTry m h f w = (case m w of (Inl e, w') \<Rightarrow> h e w' | (Inr x, w') \<Rightarrow> f x w')"

text \<open>A loop that stops at the first error.\<close>

fun ioEach :: "('b \<Rightarrow> ('w, unit) zio) \<Rightarrow> 'b list \<Rightarrow> ('w, unit) zio" where
  "ioEach f [] = ioReturn ()"
| "ioEach f (x # xs) = ioBind (f x) (\<lambda>_. ioEach f xs)"

text \<open>A loop that carries an accumulator.\<close>

fun ioFold :: "('b \<Rightarrow> 'a \<Rightarrow> ('w, 'b) zio) \<Rightarrow> 'b \<Rightarrow> 'a list \<Rightarrow> ('w, 'b) zio" where
  "ioFold f acc [] = ioReturn acc"
| "ioFold f acc (x # xs) = ioBind (f acc x) (\<lambda>acc. ioFold f acc xs)"

lemma io_simps [simp]:
  "ioBind (ioReturn x) f = f x" "ioBind (ioFail e) f = ioFail e" "ioBind (ioLift (Inr x)) f = f x"
  "ioBind (ioLift (Inl e)) f = ioFail e" "ioCheck None m = m" "ioCheck (Some e) m = ioFail e"
  "ioLift (Inr x) = ioReturn x" "ioLift (Inl e) = ioFail e"
  by (simp_all add: fun_eq_iff ioBind_def ioReturn_def ioFail_def ioLift_def ioCheck_def)

lemma ioReturn_apply [simp]: "ioReturn x w = (Inr x, w)"
  by (simp add: ioReturn_def)

lemma ioFail_apply [simp]: "ioFail e w = (Inl e, w)"
  by (simp add: ioFail_def)

lemma ioBind_assoc: "ioBind (ioBind m f) g = ioBind m (\<lambda>x. ioBind (f x) g)"
  by (auto simp: fun_eq_iff ioBind_def split: prod.splits sum.splits)

lemma ioBind_Inr_iff: "ioBind m f w = (Inr y, w') \<longleftrightarrow> (\<exists>x w1. m w = (Inr x, w1) \<and> f x w1 = (Inr y, w'))"
  by (auto simp: ioBind_def split: prod.splits sum.splits)

lemma ioCheck_Inr_iff: "ioCheck c m w = (Inr y, w') \<longleftrightarrow> c = None \<and> m w = (Inr y, w')"
  by (cases c) auto

lemma ioLift_Inr_iff: "ioLift r w = (Inr y, w') \<longleftrightarrow> r = Inr y \<and> w' = w"
  by (cases r) auto

lemmas io_iffs = ioBind_Inr_iff ioCheck_Inr_iff ioLift_Inr_iff

subsection \<open>The interfaces\<close>

record 'w Destination =
  zListDatasets :: "('w, Dataset list) zio"
  zInspectDatasetIdentity :: "string \<Rightarrow> ('w, DatasetIdentity) zio"
  zCheckPermissions :: "string \<Rightarrow> string list \<Rightarrow> ('w, unit) zio"
  zInspectState :: "string \<Rightarrow> bool \<Rightarrow> ('w, State) zio"
  zCreateReceiveParent :: "string \<Rightarrow> ('w, unit) zio"
  zSetProperties :: "string \<Rightarrow> (string, string) gomap \<Rightarrow> ('w, unit) zio"
  zInheritProperty :: "string \<Rightarrow> string \<Rightarrow> ('w, unit) zio"
  zDestroySnapshot :: "string \<Rightarrow> ('w, unit) zio"
  zReseed :: "((string \<Rightarrow> ('w, unit) zio) \<times> (string \<Rightarrow> bool \<Rightarrow> ('w, unit) zio)) option"
  zReplica :: "(string \<Rightarrow> string \<Rightarrow> ('w, unit) zio) option"

record 'w Executor = "'w Destination" +
  zGetActivationProperties :: "('w, Property list) zio"
  zGetStoredProperties :: "string list \<Rightarrow> ('w, Property list) zio"
  zSnapshot :: "string list \<Rightarrow> string \<Rightarrow> (string, string) gomap \<Rightarrow> ('w, unit) zio"
  zBookmark :: "string \<Rightarrow> string \<Rightarrow> ('w, unit) zio"
  zDestroyBookmark :: "string \<Rightarrow> ('w, unit) zio"
  zHold :: "string \<Rightarrow> string \<Rightarrow> ('w, unit) zio"
  zRelease :: "string \<Rightarrow> string \<Rightarrow> ('w, unit) zio"

text \<open>The operations of a destination as values, and performing one.\<close>

datatype zcall =
    ListDatasets
  | InspectDatasetIdentity string
  | CheckPermissions string "string list"
  | InspectState string bool
  | CreateReceiveParent string
  | SetProperties string "(string, string) gomap"
  | InheritProperty string string
  | DestroySnapshot string
  | AbortReceive string
  | DestroyDataset string bool
  | RenameDataset string string

datatype zreply =
    Done
  | DatasetsReply "Dataset list"
  | IdentityReply DatasetIdentity
  | StateReply State

definition ioMap :: "('a \<Rightarrow> 'b) \<Rightarrow> ('w, 'a) zio \<Rightarrow> ('w, 'b) zio" where
  "ioMap f m = ioBind m (\<lambda>x. ioReturn (f x))"

abbreviation noReseed :: go_error where
  "noReseed \<equiv> Errorf ''destination reseed operations are unavailable'' []"

abbreviation noReplica :: go_error where
  "noReplica \<equiv> Errorf ''destination placeholder replacement is unavailable'' []"

fun perform :: "('w, 'z) Destination_scheme \<Rightarrow> zcall \<Rightarrow> ('w, zreply) zio" where
  "perform d ListDatasets = ioMap DatasetsReply (zListDatasets d)"
| "perform d (InspectDatasetIdentity ds) = ioMap IdentityReply (zInspectDatasetIdentity d ds)"
| "perform d (CheckPermissions ds ps) = ioMap (\<lambda>_. Done) (zCheckPermissions d ds ps)"
| "perform d (InspectState ds r) = ioMap StateReply (zInspectState d ds r)"
| "perform d (CreateReceiveParent ds) = ioMap (\<lambda>_. Done) (zCreateReceiveParent d ds)"
| "perform d (SetProperties ds ps) = ioMap (\<lambda>_. Done) (zSetProperties d ds ps)"
| "perform d (InheritProperty ds p) = ioMap (\<lambda>_. Done) (zInheritProperty d ds p)"
| "perform d (DestroySnapshot s) = ioMap (\<lambda>_. Done) (zDestroySnapshot d s)"
| "perform d (AbortReceive ds) =
     (case zReseed d of None \<Rightarrow> ioFail noReseed | Some (abort, _) \<Rightarrow> ioMap (\<lambda>_. Done) (abort ds))"
| "perform d (DestroyDataset ds r) =
     (case zReseed d of None \<Rightarrow> ioFail noReseed | Some (_, destroy) \<Rightarrow> ioMap (\<lambda>_. Done) (destroy ds r))"
| "perform d (RenameDataset from to) =
     (case zReplica d of None \<Rightarrow> ioFail noReplica | Some rename \<Rightarrow> ioMap (\<lambda>_. Done) (rename from to))"

end
