(* ===== verification/Zfs_Log.thy ===== *)
theory Zfs_Log
  imports Zfs_Backend
begin

section \<open>What an operation did to ZFS\<close>

text \<open>
  A backend that keeps a record of the calls it serves, in order: \<open>logged e\<close> acts on the world of \<open>e\<close> paired with a
  list of events. A read of the state carries the state it returned, a write whether it succeeded. The order in which an
  operation of the program reads and writes ZFS is a statement on the log of its run; what was written before an interruption is
  a prefix of it. The proof rules for such runs are those of a Hoare logic with one postcondition for
  returning and one for failing.
\<close>

subsection \<open>The log\<close>

datatype zwrite =
    SetProps string "(string, string) gomap"
  | InheritProp string string
  | DestroySnap string
  | MakeSnapshot "string list" string "(string, string) gomap"
  | MakeBookmark string string
  | DestroyMark string
  | AddHold string string
  | ReleaseHold string string
  | OtherWrite zcall

datatype zevent =
    Read string bool "State result"
  | Query
  | Wrote zwrite bool

fun isWrite :: "zevent \<Rightarrow> bool" where
  "isWrite (Wrote c ok) = True"
| "isWrite _ = False"

type_synonym 'w logworld = "'w \<times> zevent list"

definition noting :: "('a result \<Rightarrow> zevent) \<Rightarrow> ('w, 'a) zio \<Rightarrow> ('w logworld, 'a) zio" where
  "noting ev m x = (case m (fst x) of (r, w') \<Rightarrow> (r, (w', snd x @ [ev r])))"

abbreviation noteWrite :: "zwrite \<Rightarrow> ('w, unit) zio \<Rightarrow> ('w logworld, unit) zio" where
  "noteWrite c \<equiv> noting (\<lambda>r. Wrote c (is_ok r))"

definition logged :: "'w Executor \<Rightarrow> 'w logworld Executor" where
  "logged e =
     \<lparr>zListDatasets = noting (\<lambda>_. Query) (zListDatasets e),
      zInspectDatasetIdentity = (\<lambda>d. noting (\<lambda>_. Query) (zInspectDatasetIdentity e d)),
      zCheckPermissions = (\<lambda>d ps. noting (\<lambda>_. Query) (zCheckPermissions e d ps)),
      zInspectState = (\<lambda>d r. noting (Read d r) (zInspectState e d r)),
      zCreateReceiveParent = (\<lambda>d. noteWrite (OtherWrite (CreateReceiveParent d)) (zCreateReceiveParent e d)),
      zSetProperties = (\<lambda>d ps. noteWrite (SetProps d ps) (zSetProperties e d ps)),
      zInheritProperty = (\<lambda>d p. noteWrite (InheritProp d p) (zInheritProperty e d p)),
      zDestroySnapshot = (\<lambda>s. noteWrite (DestroySnap s) (zDestroySnapshot e s)),
      zReseed = map_option (\<lambda>(abort, destroy). (\<lambda>d. noteWrite (OtherWrite (AbortReceive d)) (abort d),
        \<lambda>d r. noteWrite (OtherWrite (DestroyDataset d r)) (destroy d r))) (zReseed e),
      zReplica = map_option (\<lambda>rename a b. noteWrite (OtherWrite (RenameDataset a b)) (rename a b)) (zReplica e),
      zGetActivationProperties = noting (\<lambda>_. Query) (zGetActivationProperties e),
      zGetStoredProperties = (\<lambda>ds. noting (\<lambda>_. Query) (zGetStoredProperties e ds)),
      zSnapshot = (\<lambda>ds n ps. noteWrite (MakeSnapshot ds n ps) (zSnapshot e ds n ps)),
      zBookmark = (\<lambda>s b. noteWrite (MakeBookmark s b) (zBookmark e s b)),
      zDestroyBookmark = (\<lambda>b. noteWrite (DestroyMark b) (zDestroyBookmark e b)),
      zHold = (\<lambda>t s. noteWrite (AddHold t s) (zHold e t s)),
      zRelease = (\<lambda>t s. noteWrite (ReleaseHold t s) (zRelease e t s))\<rparr>"

text \<open>Every write of a log was allowed by what happened before it.\<close>

definition guardedLog :: "(zevent list \<Rightarrow> zwrite \<Rightarrow> bool) \<Rightarrow> zevent list \<Rightarrow> bool" where
  "guardedLog G l \<longleftrightarrow> (\<forall>pre c ok post. l = pre @ Wrote c ok # post \<longrightarrow> G pre c)"

lemma guardedLog_Nil [simp]: "guardedLog G []"
  by (simp add: guardedLog_def)

lemma guardedLog_snoc [simp]:
  "guardedLog G (l @ [ev]) \<longleftrightarrow> guardedLog G l \<and> (\<forall>c ok. ev = Wrote c ok \<longrightarrow> G l c)"
proof
  assume L: "guardedLog G (l @ [ev])"
  have "G pre c" if "l = pre @ Wrote c ok # post" for pre c ok post
    using L that unfolding guardedLog_def by (metis append.assoc append_Cons)
  moreover have "G l c" if "ev = Wrote c ok" for c ok
    using L that unfolding guardedLog_def by blast
  ultimately show "guardedLog G l \<and> (\<forall>c ok. ev = Wrote c ok \<longrightarrow> G l c)" by (auto simp: guardedLog_def)
next
  assume R: "guardedLog G l \<and> (\<forall>c ok. ev = Wrote c ok \<longrightarrow> G l c)"
  show "guardedLog G (l @ [ev])" unfolding guardedLog_def
  proof (intro allI impI)
    fix pre c ok post
    assume eq: "l @ [ev] = pre @ Wrote c ok # post"
    show "G pre c"
    proof (cases post rule: rev_cases)
      case Nil
      with eq R show ?thesis by auto
    next
      case (snoc ys y)
      with eq have "l = pre @ Wrote c ok # ys" by (metis append_Cons append_assoc butlast_snoc)
      with R show ?thesis by (simp add: guardedLog_def)
    qed
  qed
qed

lemma guardedLog_mono: "guardedLog G l \<Longrightarrow> (\<And>pre c. G pre c \<Longrightarrow> H pre c) \<Longrightarrow> guardedLog H l"
  unfolding guardedLog_def by blast

subsection \<open>Rules\<close>

definition runs :: "('w \<Rightarrow> bool) \<Rightarrow> ('w, 'a) zio \<Rightarrow> ('a \<Rightarrow> 'w \<Rightarrow> bool) \<Rightarrow> (go_error \<Rightarrow> 'w \<Rightarrow> bool) \<Rightarrow> bool" where
  "runs P m Q E \<longleftrightarrow> (\<forall>w r w'. P w \<longrightarrow> m w = (r, w') \<longrightarrow> (case r of Inr x \<Rightarrow> Q x w' | Inl e \<Rightarrow> E e w'))"

named_theorems runs_intro \<open>rules that follow the structure of a computation\<close>

lemma runsD: "runs P m Q E \<Longrightarrow> P w \<Longrightarrow> m w = (r, w') \<Longrightarrow> (case r of Inr x \<Rightarrow> Q x w' | Inl e \<Rightarrow> E e w')"
  by (simp add: runs_def)

lemma runs_bind: "runs P m R E \<Longrightarrow> (\<And>x. runs (R x) (f x) Q E) \<Longrightarrow> runs P (ioBind m f) Q E"
proof -
  assume m: "runs P m R E" and f: "\<And>x. runs (R x) (f x) Q E"
  show ?thesis unfolding runs_def
  proof (intro allI impI)
    fix w r w'
    assume w: "P w" and r: "ioBind m f w = (r, w')"
    obtain y w1 where y: "m w = (y, w1)" by (cases "m w")
    show "case r of Inl e \<Rightarrow> E e w' | Inr x \<Rightarrow> Q x w'"
    proof (cases y)
      case (Inl e)
      with runsD [OF m w y] y r show ?thesis by (auto simp: ioBind_def)
    next
      case (Inr x)
      with runsD [OF m w y] have "R x w1" by simp
      moreover from Inr y r have "f x w1 = (r, w')" by (simp add: ioBind_def)
      ultimately show ?thesis by (rule runsD [OF f])
    qed
  qed
qed

lemma runs_try: "runs P m R H \<Longrightarrow> (\<And>x. runs (R x) (f x) Q E) \<Longrightarrow> (\<And>e. runs (H e) (h e) Q E) \<Longrightarrow> runs P (ioTry m h f) Q E"
  unfolding runs_def ioTry_def by (fastforce split: prod.splits sum.splits)

lemma runs_return [runs_intro]: "(\<And>w. P w \<Longrightarrow> Q x w) \<Longrightarrow> runs P (ioReturn x) Q E"
  by (simp add: runs_def)

lemma runs_fail [runs_intro]: "(\<And>w. P w \<Longrightarrow> E e w) \<Longrightarrow> runs P (ioFail e) Q E"
  by (simp add: runs_def)

lemma runs_lift: "(\<And>w x. r = Inr x \<Longrightarrow> P w \<Longrightarrow> Q x w) \<Longrightarrow> (\<And>w e. r = Inl e \<Longrightarrow> P w \<Longrightarrow> E e w) \<Longrightarrow> runs P (ioLift r) Q E"
  by (cases r) (auto simp: runs_def)

lemma runs_check: "(c = None \<Longrightarrow> runs P m Q E) \<Longrightarrow> (\<And>w e. c = Some e \<Longrightarrow> P w \<Longrightarrow> E e w) \<Longrightarrow> runs P (ioCheck c m) Q E"
  by (cases c) (auto intro: runs_fail)

lemma runs_if: "(b \<Longrightarrow> runs P m Q E) \<Longrightarrow> (\<not> b \<Longrightarrow> runs P n Q E) \<Longrightarrow> runs P (if b then m else n) Q E"
  by simp

lemma runs_bind_lift:
  "(\<And>x. r = Inr x \<Longrightarrow> runs P (f x) Q E) \<Longrightarrow> (\<And>w e. r = Inl e \<Longrightarrow> P w \<Longrightarrow> E e w) \<Longrightarrow> runs P (ioBind (ioLift r) f) Q E"
  by (cases r) (auto intro: runs_fail)

lemma runs_weaken: "runs P' m Q' E' \<Longrightarrow> (\<And>w. P w \<Longrightarrow> P' w) \<Longrightarrow> (\<And>x w. Q' x w \<Longrightarrow> Q x w) \<Longrightarrow> (\<And>e w. E' e w \<Longrightarrow> E e w) \<Longrightarrow> runs P m Q E"
  unfolding runs_def by (fastforce split: sum.splits)

lemma runs_frame: "(F \<Longrightarrow> runs P m Q E) \<Longrightarrow> runs (\<lambda>x. P x \<and> F) m Q E"
  unfolding runs_def by blast

lemma runs_each:
  assumes "\<And>x. x \<in> set xs \<Longrightarrow> runs I (f x) (\<lambda>_. I) E"
  shows "runs I (ioEach f xs) (\<lambda>_. I) E"
  using assms
proof (induction xs)
  case Nil
  show ?case unfolding ioEach.simps by (rule runs_return)
next
  case (Cons x xs)
  have "runs I (f x) (\<lambda>_. I) E" "runs I (ioEach f xs) (\<lambda>_. I) E" using Cons by simp_all
  then show ?case unfolding ioEach.simps by (rule runs_bind)
qed

lemma runs_fold:
  assumes "\<And>acc x. x \<in> set xs \<Longrightarrow> runs (I acc) (f acc x) I E"
  shows "runs (I acc) (ioFold f acc xs) I E"
  using assms
proof (induction xs arbitrary: acc)
  case Nil
  show ?case unfolding ioFold.simps by (rule runs_return)
next
  case (Cons x xs)
  have "runs (I acc) (f acc x) I E" "\<And>acc. runs (I acc) (ioFold f acc xs) I E" using Cons by simp_all
  then show ?case unfolding ioFold.simps by (rule runs_bind)
qed

lemma runs_noting:
  assumes "\<And>w w' l x. P (w, l) \<Longrightarrow> Q x (w', l @ [ev (Inr x)])" and "\<And>w w' l e. P (w, l) \<Longrightarrow> E e (w', l @ [ev (Inl e)])"
  shows "runs P (noting ev m) Q E"
  using assms by (auto simp: runs_def noting_def split: prod.splits sum.splits)

lemma logged_simps [simp]:
  "zListDatasets (logged e) = noting (\<lambda>_. Query) (zListDatasets e)"
  "zInspectState (logged e) d rec = noting (Read d rec) (zInspectState e d rec)"
  "zSetProperties (logged e) d ps = noteWrite (SetProps d ps) (zSetProperties e d ps)"
  "zInheritProperty (logged e) d p = noteWrite (InheritProp d p) (zInheritProperty e d p)"
  "zDestroySnapshot (logged e) s = noteWrite (DestroySnap s) (zDestroySnapshot e s)"
  "zGetActivationProperties (logged e) = noting (\<lambda>_. Query) (zGetActivationProperties e)"
  "zSnapshot (logged e) ds n ps = noteWrite (MakeSnapshot ds n ps) (zSnapshot e ds n ps)"
  "zBookmark (logged e) s b = noteWrite (MakeBookmark s b) (zBookmark e s b)"
  "zDestroyBookmark (logged e) b = noteWrite (DestroyMark b) (zDestroyBookmark e b)"
  "zHold (logged e) t s = noteWrite (AddHold t s) (zHold e t s)"
  "zRelease (logged e) t s = noteWrite (ReleaseHold t s) (zRelease e t s)"
  by (simp_all add: logged_def)

text \<open>The writes of a log, and runs that only read.\<close>

fun writes :: "zevent list \<Rightarrow> zwrite list" where
  "writes [] = []"
| "writes (Wrote c ok # l) = c # writes l"
| "writes (_ # l) = writes l"

lemma writes_append [simp]: "writes (l @ l') = writes l @ writes l'"
  by (induction l rule: writes.induct) simp_all

lemma guardedLog_quiet: "guardedLog G (l @ l') \<longleftrightarrow> guardedLog G l" if "writes l' = []"
  using that
proof (induction l' rule: rev_induct)
  case (snoc ev l')
  then show ?case using guardedLog_snoc [of G "l @ l'" ev] by (cases ev) auto
qed simp

definition quiet :: "zevent list \<Rightarrow> 'w logworld \<Rightarrow> bool" where
  "quiet l0 x \<longleftrightarrow> (\<exists>reads. snd x = l0 @ reads \<and> writes reads = [])"

lemma quiet_refl [simp]: "quiet (snd x) x"
  by (simp add: quiet_def)

lemma quietI: "snd x = l0 @ reads \<Longrightarrow> writes reads = [] \<Longrightarrow> quiet l0 x"
  by (auto simp: quiet_def)

lemma runs_at: "(\<And>w0. P w0 \<Longrightarrow> runs (\<lambda>w. w = w0) m Q E) \<Longrightarrow> runs P m Q E"
  unfolding runs_def by blast

text \<open>Rules for runs from a known log.\<close>

lemma runs_noting_at:
  assumes "\<And>v x. snd x = l0 @ [ev (Inr v)] \<Longrightarrow> Q v x" and "\<And>err x. snd x = l0 @ [ev (Inl err)] \<Longrightarrow> E err x"
  shows "runs (\<lambda>x. snd x = l0) (noting ev m) Q E"
  by (rule runs_noting) (use assms in auto)

lemma runs_bind_noting:
  assumes "\<And>v. runs (\<lambda>x. snd x = l0 @ [ev (Inr v)]) (f v) Q E" and "\<And>err x. snd x = l0 @ [ev (Inl err)] \<Longrightarrow> E err x"
  shows "runs (\<lambda>x. snd x = l0) (ioBind (noting ev m) f) Q E"
  by (rule runs_bind [OF runs_noting_at [where Q = "\<lambda>v x. snd x = l0 @ [ev (Inr v)]"]]) (use assms in auto)

text \<open>
  A computation whose writes are allowed by \<open>G\<close>, and which issues the writes \<open>W\<close> in order when it succeeds and a prefix of
  them when it fails.
\<close>

definition issued :: "(zevent list \<Rightarrow> zwrite \<Rightarrow> bool) \<Rightarrow> zwrite list \<Rightarrow> 'w logworld \<Rightarrow> bool" where
  "issued G W x \<longleftrightarrow> guardedLog G (snd x) \<and> writes (snd x) = W"

definition issuedPart :: "(zevent list \<Rightarrow> zwrite \<Rightarrow> bool) \<Rightarrow> zwrite list \<Rightarrow> zwrite list \<Rightarrow> 'w logworld \<Rightarrow> bool" where
  "issuedPart G W0 W x \<longleftrightarrow> (\<exists>V. prefix V W \<and> issued G (W0 @ V) x)"

definition issues :: "(zevent list \<Rightarrow> zwrite \<Rightarrow> bool) \<Rightarrow> ('w logworld, 'a) zio \<Rightarrow> zwrite list \<Rightarrow> bool" where
  "issues G m W \<longleftrightarrow> (\<forall>W0. runs (issued G W0) m (\<lambda>_. issued G (W0 @ W)) (\<lambda>_. issuedPart G W0 W))"

lemma issuesI: "(\<And>W0. runs (issued G W0) m (\<lambda>_. issued G (W0 @ W)) (\<lambda>_. issuedPart G W0 W)) \<Longrightarrow> issues G m W"
  by (simp add: issues_def)

lemma issuesD: "issues G m W \<Longrightarrow> runs (issued G W0) m (\<lambda>_. issued G (W0 @ W)) (\<lambda>_. issuedPart G W0 W)"
  by (simp add: issues_def)

lemma issued_quiet: "issued G W0 x0 \<Longrightarrow> quiet (snd x0) x \<Longrightarrow> issued G W0 x"
  by (auto simp: issued_def quiet_def guardedLog_quiet)

lemma issuedPart_none: "issued G W0 x \<Longrightarrow> issuedPart G W0 W x"
  unfolding issuedPart_def by (rule exI [of _ "[]"]) simp

lemma issuedPart_append: "issuedPart G W0 W x \<Longrightarrow> issuedPart G W0 (W @ V) x"
  unfolding issuedPart_def by (auto intro: prefix_prefix)

lemma issuedPart_later: "issuedPart G (W0 @ W) V x \<Longrightarrow> issuedPart G W0 (W @ V) x"
  unfolding issuedPart_def by (metis append_assoc same_prefix_prefix)

lemma issues_return: "issues G (ioReturn x) []"
  by (auto intro!: issuesI runs_return)

lemma issues_fail: "issues G (ioFail e) W"
  by (auto intro!: issuesI runs_fail issuedPart_none)

lemma issues_write: "(\<And>l. G l c) \<Longrightarrow> issues G (noteWrite c m) [c]"
  by (rule issuesI, rule runs_noting) (auto simp: issued_def issuedPart_def)

lemma issues_read: "(\<And>r. writes [ev r] = []) \<Longrightarrow> issues G (noting ev m) []"
  by (rule issuesI, rule runs_noting) (auto simp: issued_def issuedPart_def guardedLog_quiet simp del: guardedLog_snoc)

lemma issues_bind:
  assumes "issues G m W" and "\<And>x. issues G (f x) V"
  shows "issues G (ioBind m f) (W @ V)"
proof (intro issuesI runs_bind)
  fix W0
  show "runs (issued G W0) m (\<lambda>_. issued G (W0 @ W)) (\<lambda>_. issuedPart G W0 (W @ V))"
    by (rule runs_weaken [OF issuesD [OF assms(1)]]) (auto intro: issuedPart_append)
  show "runs (issued G (W0 @ W)) (f y) (\<lambda>_. issued G (W0 @ W @ V)) (\<lambda>_. issuedPart G W0 (W @ V))" for y
    by (rule runs_weaken [OF issuesD [OF assms(2)]]) (auto intro: issuedPart_later)
qed

lemma issues_each:
  assumes "\<And>x. issues G (f x) (W x)"
  shows "issues G (ioEach f xs) (concat (map W xs))"
proof (induction xs)
  case Nil
  show ?case unfolding ioEach.simps list.map concat.simps by (rule issues_return)
next
  case (Cons x xs)
  show ?case unfolding ioEach.simps list.map concat.simps by (rule issues_bind [OF assms Cons.IH])
qed

text \<open>Computations that write nothing, and those of them that never fail.\<close>

definition quietly :: "('w logworld, 'a) zio \<Rightarrow> bool" where
  "quietly m \<longleftrightarrow> (\<forall>l0. runs (quiet l0) m (\<lambda>_. quiet l0) (\<lambda>_. quiet l0))"

definition reading :: "('w logworld, 'a) zio \<Rightarrow> bool" where
  "reading m \<longleftrightarrow> (\<forall>l0. runs (quiet l0) m (\<lambda>_. quiet l0) (\<lambda>_ _. False))"

lemma quiet_snoc: "quiet l0 x \<Longrightarrow> snd y = snd x @ r \<Longrightarrow> writes r = [] \<Longrightarrow> quiet l0 y"
  by (auto simp: quiet_def)

lemma quietly_noting: "(\<And>r. writes [ev r] = []) \<Longrightarrow> quietly (noting ev m)"
  unfolding quietly_def by (intro allI runs_noting) (auto elim!: quiet_snoc)

lemma reading_return: "reading (ioReturn x)"
  unfolding reading_def by (auto intro: runs_return)

lemma reading_bind: "reading m \<Longrightarrow> (\<And>x. reading (f x)) \<Longrightarrow> reading (ioBind m f)"
  unfolding reading_def by (blast intro: runs_bind)

lemma reading_try: "quietly m \<Longrightarrow> (\<And>e. reading (h e)) \<Longrightarrow> (\<And>x. reading (f x)) \<Longrightarrow> reading (ioTry m h f)"
  unfolding reading_def quietly_def by (blast intro: runs_try)

lemma reading_fold: "(\<And>acc x. reading (f acc x)) \<Longrightarrow> reading (ioFold f acc xs)"
  by (induction xs arbitrary: acc) (simp_all add: reading_return reading_bind)

text \<open>What holds of the value of a computation, whatever the world.\<close>

definition yields :: "('w, 'a) zio \<Rightarrow> ('a \<Rightarrow> bool) \<Rightarrow> bool" where
  "yields m Q \<longleftrightarrow> (\<forall>w x w'. m w = (Inr x, w') \<longrightarrow> Q x)"

lemma yieldsD: "yields m Q \<Longrightarrow> m w = (Inr x, w') \<Longrightarrow> Q x"
  unfolding yields_def by blast

lemma yields_any: "yields m (\<lambda>_. True)"
  by (simp add: yields_def)

lemma yields_weaken: "yields m R \<Longrightarrow> (\<And>x. R x \<Longrightarrow> Q x) \<Longrightarrow> yields m Q"
  by (auto simp: yields_def)

lemma yields_return: "Q x \<Longrightarrow> yields (ioReturn x) Q"
  by (simp add: yields_def)

lemma yields_bind: "yields m R \<Longrightarrow> (\<And>x. R x \<Longrightarrow> yields (f x) Q) \<Longrightarrow> yields (ioBind m f) Q"
  unfolding yields_def ioBind_Inr_iff by blast

lemma yields_try: "yields m R \<Longrightarrow> (\<And>e. yields (h e) Q) \<Longrightarrow> (\<And>x. R x \<Longrightarrow> yields (f x) Q) \<Longrightarrow> yields (ioTry m h f) Q"
  unfolding yields_def ioTry_def by (auto split: prod.splits sum.splits) blast

lemma yields_fold: "Q acc \<Longrightarrow> (\<And>acc x. x \<in> set xs \<Longrightarrow> Q acc \<Longrightarrow> yields (f acc x) Q) \<Longrightarrow> yields (ioFold f acc xs) Q"
proof (induction xs arbitrary: acc)
  case Nil
  then show ?case unfolding ioFold.simps by (intro yields_return)
next
  case (Cons x xs)
  have "yields (f acc x) Q" "\<And>acc. Q acc \<Longrightarrow> yields (ioFold f acc xs) Q" using Cons by simp_all
  then show ?case unfolding ioFold.simps by (rule yields_bind)
qed

end
