(* ===== verification/Zfs_Memory.thy ===== *)
theory Zfs_Memory
  imports Zfs_Log
begin

section \<open>A backend in memory\<close>

text \<open>
  A backend whose world is a state: the objects of one host with their properties, holds and clones, and the operations with the effect the
  \<open>zfs\<close> manual gives them. The model of the program never uses it; it is the concrete instance on which the
  theorems over an arbitrary backend are applied.
\<close>

definition inScope :: "string \<Rightarrow> bool \<Rightarrow> string \<Rightarrow> bool" where
  "inScope d recursive name = (datasetOf name = d \<or> (recursive \<and> inside (datasetOf name) d))"

definition memInspect :: "string \<Rightarrow> bool \<Rightarrow> (State, State) zio" where
  "memInspect d recursive w =
     (if \<not> list_ex (\<lambda>ob. ob_Name ob = d) (st_Objects w) then (Inl (Errorf ''dataset does not exist'' []), w)
      else
        (Inr \<lparr>st_Objects = filter (\<lambda>ob. inScope d recursive (ob_Name ob)) (st_Objects w),
              st_Properties = filter (\<lambda>p. inScope d recursive (p_Dataset p)) (st_Properties w),
              st_Received = filter (\<lambda>x. inScope d recursive (fst x)) (st_Received w),
              st_ResumeTokens = filter (\<lambda>x. inScope d recursive (fst x)) (st_ResumeTokens w),
              st_Clones = filter (\<lambda>x. inScope d recursive (fst x)) (st_Clones w),
              st_Holds = filter (\<lambda>x. inScope d recursive (fst x)) (st_Holds w)\<rparr>, w))"

definition without :: "string \<Rightarrow> string \<Rightarrow> Property list \<Rightarrow> Property list" where
  "without d key ps = filter (\<lambda>p. p_Dataset p \<noteq> d \<or> p_Name p \<noteq> key) ps"

definition memSet :: "string \<Rightarrow> (string, string) gomap \<Rightarrow> State \<Rightarrow> State" where
  "memSet d kvs w =
     w\<lparr>st_Properties := fold (\<lambda>(k, v) ps. without d k ps @ [\<lparr>p_Dataset = d, p_Name = k, p_Value = v, p_Source = SourceLocal\<rparr>])
        kvs (st_Properties w)\<rparr>"

definition memAdd :: "string \<Rightarrow> string \<Rightarrow> nat \<Rightarrow> State \<Rightarrow> State" where
  "memAdd name type guid w =
     w\<lparr>st_Objects := st_Objects w @ [\<lparr>ob_Name = name, ob_Type = type, ob_GUID = guid, ob_Creation = 0, ob_CreateTXG = guid\<rparr>]\<rparr>"

definition freshGUID :: "State \<Rightarrow> nat" where
  "freshGUID w = Suc (Max (set (0 # map ob_GUID (st_Objects w))))"

definition memSnapshot :: "string list \<Rightarrow> string \<Rightarrow> (string, string) gomap \<Rightarrow> State \<Rightarrow> State" where
  "memSnapshot ds name kvs w =
     fold (\<lambda>d w. memSet (d @ ''@'' @ name) kvs (memAdd (d @ ''@'' @ name) ''snapshot'' (freshGUID w) w)) ds w"

definition memDestroy :: "string \<Rightarrow> State \<Rightarrow> State" where
  "memDestroy name w =
     w\<lparr>st_Objects := filter (\<lambda>ob. ob_Name ob \<noteq> name) (st_Objects w),
       st_Properties := filter (\<lambda>p. p_Dataset p \<noteq> name) (st_Properties w),
       st_Holds := mdel name (st_Holds w), st_Clones := mdel name (st_Clones w)\<rparr>"

definition memHold :: "string \<Rightarrow> string \<Rightarrow> State \<Rightarrow> State" where
  "memHold tag s w = w\<lparr>st_Holds := mput s (mindex (st_Holds w) s @ [tag]) (st_Holds w)\<rparr>"

definition memRelease :: "string \<Rightarrow> string \<Rightarrow> State \<Rightarrow> State" where
  "memRelease tag s w = w\<lparr>st_Holds := mput s (filter (\<lambda>t. t \<noteq> tag) (mindex (st_Holds w) s)) (st_Holds w)\<rparr>"

definition memBookmark :: "string \<Rightarrow> string \<Rightarrow> State \<Rightarrow> State" where
  "memBookmark s b w =
     (case find (\<lambda>ob. ob_Name ob = s) (st_Objects w) of Some ob \<Rightarrow> memAdd b ''bookmark'' (ob_GUID ob) w | None \<Rightarrow> w)"

definition effect :: "(State \<Rightarrow> State) \<Rightarrow> (State, unit) zio" where
  "effect f w = (Inr (), f w)"

definition memory :: "State Executor" where
  "memory =
     \<lparr>zListDatasets = (\<lambda>w. (Inr (map (\<lambda>ob. \<lparr>ds_Name = ob_Name ob, ds_Type = ob_Type ob, ds_EncryptionRoot = ''-''\<rparr>)
        (filter (\<lambda>ob. ob_Type ob = Filesystem \<or> ob_Type ob = Volume) (st_Objects w))), w)),
      zInspectDatasetIdentity = (\<lambda>d. ioFail (Errorf ''dataset does not exist'' [])),
      zCheckPermissions = (\<lambda>d ps. ioReturn ()),
      zInspectState = memInspect,
      zCreateReceiveParent = (\<lambda>d. effect (\<lambda>w. memAdd d Filesystem (freshGUID w) w)),
      zSetProperties = (\<lambda>d kvs. effect (memSet d kvs)),
      zInheritProperty = (\<lambda>d k. effect (\<lambda>w. w\<lparr>st_Properties := without d k (st_Properties w)\<rparr>)),
      zDestroySnapshot = (\<lambda>s. effect (memDestroy s)),
      zReseed = None, zReplica = None,
      zGetActivationProperties = (\<lambda>w. (Inr (filter (\<lambda>p. p_Name p = propertyNamespace @ ''enabled'') (st_Properties w)), w)),
      zGetStoredProperties = (\<lambda>ds w. (Inr (filter (\<lambda>p. p_Dataset p \<in> set ds) (st_Properties w)), w)),
      zSnapshot = (\<lambda>ds name kvs. effect (memSnapshot ds name kvs)),
      zBookmark = (\<lambda>s b. effect (memBookmark s b)),
      zDestroyBookmark = (\<lambda>b. effect (memDestroy b)),
      zHold = (\<lambda>tag s. effect (memHold tag s)),
      zRelease = (\<lambda>tag s. effect (memRelease tag s))\<rparr>"

lemma memory_simps [simp]:
  "zInspectState memory = memInspect" "zSetProperties memory d kvs = effect (memSet d kvs)"
  "zInheritProperty memory d k = effect (\<lambda>w. w\<lparr>st_Properties := without d k (st_Properties w)\<rparr>)"
  "zDestroySnapshot memory s = effect (memDestroy s)" "zSnapshot memory ds name kvs = effect (memSnapshot ds name kvs)"
  "zBookmark memory s b = effect (memBookmark s b)" "zDestroyBookmark memory b = effect (memDestroy b)"
  "zHold memory tag s = effect (memHold tag s)" "zRelease memory tag s = effect (memRelease tag s)"
  by (simp_all add: memory_def)

end
