(* ===== verification/Lifecycle_Service.thy ===== *)
theory Lifecycle_Service
  imports Authority Prune Zfs_Memory
begin

section \<open>Lifecycle operations\<close>

text \<open>
  The state-changing operations of \<open>internal/lifecycle/service.go\<close>: adoption, snapshot creation and pruning of a source root, over
  the backend the service was built with. Each runs under the scope lock of the theory on scope locks, so within the program no operation on an
  overlapping scope runs beside it; what other processes do to ZFS between two calls is in the world the backend acts on. The
  context is not cancelled while an operation runs. \<open>reflect.DeepEqual\<close> on two states is equality of the modelled
  states, which do not tell a nil slice or map from an empty one. Random identifiers are arguments.
\<close>

subsection \<open>Preliminaries\<close>

definition lock :: "string \<Rightarrow> ('w, 'a) zio \<Rightarrow> ('w, 'a) zio" where
  "lock dataset body = ioCheck (validateDataset dataset) body"

definition unchanged :: "'w Executor \<Rightarrow> string \<Rightarrow> bool \<Rightarrow> State \<Rightarrow> ('w, unit) zio" where
  "unchanged e dataset recursive expected =
     ioBind (zInspectState e dataset recursive) (\<lambda>current.
       if expected \<noteq> current then ioFail StateChangedError else ioReturn ())"

subsection \<open>Adoption\<close>

definition AdoptDataset :: "'w Executor \<Rightarrow> string \<Rightarrow> string \<Rightarrow> Effective \<Rightarrow> ('w, string) zio" where
  "AdoptDataset e installation dataset effective =
     lock dataset (ioCheck (validateDataset dataset) (ioCheck (ActiveRoot effective dataset)
     (ioBind (zInspectState e dataset False) (\<lambda>state.
      ioBind (ioLift (storedLineage state dataset)) (\<lambda>stored.
      ioBind (ioLift (if stored = [] then AdoptionLineage state dataset else Inr stored)) (\<lambda>lineage.
      if RootAuthority state dataset installation = Inr lineage
      then ioFail (Errorf ''dataset is already owned by this installation'' [])
      else
      ioBind (ioLift (StateVersion state dataset)) (\<lambda>version.
      if version > CurrentVersion \<or> (version < CurrentVersion \<and> keepsRecords state dataset)
      then ioCheck (CurrentState state dataset) (ioReturn [])
      else
      ioCheck (ValidateLineageEvidence state dataset lineage)
     (ioBind (unchanged e dataset False state) (\<lambda>_.
      ioBind (zSetProperties e dataset (authorityProperties installation lineage)) (\<lambda>_.
      ioBind (zInspectState e dataset False) (\<lambda>after.
      if RootAuthority after dataset installation \<noteq> Inr lineage
      then ioFail (Errorf ''adopted lineage could not be verified'' [])
      else ioReturn lineage)))))))))))"

subsection \<open>Snapshots\<close>

definition internalMetadata :: "State \<Rightarrow> go_error option" where
  "internalMetadata state =
     (if list_ex (\<lambda>p. HasPrefix (p_Name p) StateNamespace) (st_Properties state)
      then Some (Errorf ''existing internal metadata requires explicit adoption or clean'' [])
      else if list_ex (\<lambda>(ob, values). list_ex (\<lambda>(name, v). HasPrefix name StateNamespace) values) (st_Received state)
      then Some (Errorf ''hidden received metadata requires explicit resolution'' [])
      else None)"

text \<open>The lineage a snapshot is made under: a new one for a root without any, else the one the root has authority for.\<close>

definition snapshotLineage :: "string \<Rightarrow> string result \<Rightarrow> State \<Rightarrow> string \<Rightarrow> string \<Rightarrow> string result" where
  "snapshotLineage installation newLineage state dataset stored =
     (if stored = [] then failIf (internalMetadata state) newLineage else RootAuthority state dataset installation)"

fun childLineages :: "State \<Rightarrow> string \<Rightarrow> Object list \<Rightarrow> go_error option" where
  "childLineages state lineage [] = None"
| "childLineages state lineage (ob # obs) =
     (if \<not> isDataset ob then childLineages state lineage obs
      else
        (case storedLineage state (ob_Name ob) of
           Inl e \<Rightarrow> Some e
         | Inr child \<Rightarrow>
             if child \<noteq> [] \<and> child \<noteq> lineage then Some (Errorf ''conflicting descendant lineage on %s'' [Arg (ob_Name ob)])
             else childLineages state lineage obs))"

definition initializeLineage :: "'w Executor \<Rightarrow> string \<Rightarrow> string \<Rightarrow> string \<Rightarrow> State \<Rightarrow> ('w, unit) zio" where
  "initializeLineage e installation dataset lineage state =
     ioBind (zSetProperties e dataset (authorityProperties installation lineage)) (\<lambda>_.
     ioBind (zInspectState e dataset True) (\<lambda>current.
     if RootAuthority current dataset installation \<noteq> Inr lineage \<or> datasetObjects state \<noteq> datasetObjects current
        \<or> st_ResumeTokens current \<noteq> []
     then ioFail (Errorf ''scope changed during lineage initialization'' [])
     else ioReturn ()))"

text \<open>The last snapshot of the name decides.\<close>

definition createdOn :: "State \<Rightarrow> string \<Rightarrow> Metadata \<Rightarrow> string \<Rightarrow> bool" where
  "createdOn after lineage metadata member =
     foldl (\<lambda>verified s. if sn_Name s \<noteq> member @ ''@'' @ metadataName metadata then verified else Ownership s lineage = Inr metadata)
       False (snapshotsIn after member)"

fun unverifiedMember :: "State \<Rightarrow> string \<Rightarrow> Metadata \<Rightarrow> string list \<Rightarrow> go_error option" where
  "unverifiedMember after lineage metadata [] = None"
| "unverifiedMember after lineage metadata (member # members) =
     (if \<not> createdOn after lineage metadata member
      then Some (Errorf ''created snapshot could not be verified on %s'' [Arg member])
      else unverifiedMember after lineage metadata members)"

definition CreateSnapshot :: "'w Executor \<Rightarrow> string \<Rightarrow> string result \<Rightarrow> string result \<Rightarrow> string \<Rightarrow> string list \<Rightarrow> instant \<Rightarrow> Effective
    \<Rightarrow> ('w, Metadata) zio" where
  "CreateSnapshot e installation newLineage newSnapshot dataset members now effective =
     lock dataset (ioCheck (validateDataset dataset) (ioCheck (ActiveRoot effective dataset) (ioCheck (validateMembers dataset members)
     (ioBind (zInspectState e dataset True) (\<lambda>state.
      ioCheck (scopeReady state dataset)
     (ioBind (ioLift (storedLineage state dataset)) (\<lambda>stored.
      ioBind (ioLift (snapshotLineage installation newLineage state dataset stored)) (\<lambda>lineage.
      ioCheck (childLineages state lineage (st_Objects state))
     (ioBind (ioLift (NewMetadata newSnapshot lineage now)) (\<lambda>metadata.
      ioBind (unchanged e dataset True state) (\<lambda>_.
      ioBind (if stored = [] then initializeLineage e installation dataset lineage state else ioReturn ()) (\<lambda>_.
      ioBind (zSnapshot e members (metadataName metadata) (metadataProperties metadata)) (\<lambda>_.
      ioBind (zInspectState e dataset True) (\<lambda>after.
      if datasetObjects state \<noteq> datasetObjects after
      then ioFail (Errorf ''dataset scope changed during snapshot creation'' [])
      else ioCheck (unverifiedMember after lineage metadata members) (ioReturn metadata)))))))))))))))"

subsection \<open>Pruning\<close>

record Retention =
  rt_Dataset :: string
  rt_Grid :: Grid

definition pruneRead :: "'w Executor \<Rightarrow> string \<Rightarrow> string \<Rightarrow> string \<Rightarrow> ('w, State \<times> string) zio" where
  "pruneRead e installation root dataset =
     ioBind (zInspectState e root False) (\<lambda>rootState.
     ioBind (ioLift (RootAuthority rootState root installation)) (\<lambda>lineage.
     ioBind (if dataset \<noteq> root then zInspectState e dataset False else ioReturn rootState) (\<lambda>state.
     ioCheck (scopeReady state dataset) (ioReturn (state, lineage)))))"

definition pruneOne :: "'w Executor \<Rightarrow> string \<Rightarrow> string \<Rightarrow> Retention \<Rightarrow> State \<Rightarrow> string \<Rightarrow> Decision \<Rightarrow> ('w, unit) zio" where
  "pruneOne e installation root retention state lineage decision =
     ioBind (pruneRead e installation root (rt_Dataset retention)) (\<lambda>(current, actual).
     if datasetObjects state \<noteq> datasetObjects current then ioFail (Errorf ''dataset identity changed before pruning'' [])
     else if actual \<noteq> lineage then ioFail (Errorf ''lineage changed before pruning'' [])
     else
     ioBind (ioLift (PlanPrune (rt_Dataset retention) lineage (rt_Grid retention) (snapshotsIn current (rt_Dataset retention)))) (\<lambda>decisions.
     if \<not> list_ex (\<lambda>next. dc_Snapshot next = dc_Snapshot decision \<and> dc_GUID next = dc_GUID decision \<and> dc_Destroy next) decisions
     then ioFail (Errorf ''snapshot eligibility changed before pruning %s'' [Arg (dc_Snapshot decision)])
     else zDestroySnapshot e (dc_Snapshot decision)))"

definition prunePlan :: "'w Executor \<Rightarrow> string \<Rightarrow> string \<Rightarrow> Effective \<Rightarrow> Retention \<Rightarrow> ('w, State \<times> string \<times> Decision list) zio" where
  "prunePlan e installation root effective retention =
     (let dataset = rt_Dataset retention in
      lock root (ioCheck (validateDataset root) (ioCheck (ActiveRoot effective root) (ioCheck (validateDataset dataset)
     (if dataset \<noteq> root \<and> \<not> HasPrefix dataset (root @ ''/'')
      then ioFail (Errorf ''retention dataset %s is outside root %s'' [Arg dataset, Arg root])
      else
      ioBind (pruneRead e installation root dataset) (\<lambda>(state, lineage).
      ioBind (ioLift (PlanPrune dataset lineage (rt_Grid retention) (snapshotsIn state dataset))) (\<lambda>plan.
      ioReturn (state, lineage, plan))))))))"

text \<open>The plan is returned beside the error once it is made.\<close>

definition Prune :: "'w Executor \<Rightarrow> string \<Rightarrow> string \<Rightarrow> Effective \<Rightarrow> Retention \<Rightarrow> bool \<Rightarrow> 'w \<Rightarrow> (Decision list \<times> go_error option) \<times> 'w" where
  "Prune e installation root effective retention apply w =
     (case prunePlan e installation root effective retention w of
        (Inl err, w') \<Rightarrow> (([], Some err), w')
      | (Inr (state, lineage, plan), w') \<Rightarrow>
          if \<not> apply then ((plan, None), w')
          else
            (case ioEach (pruneOne e installation root retention state lineage) (filter dc_Destroy plan) w' of
               (Inl err, w'') \<Rightarrow> ((plan, Some err), w'')
             | (Inr _, w'') \<Rightarrow> ((plan, None), w'')))"

subsection \<open>What pruning destroys\<close>

definition pruneReads :: "string \<Rightarrow> string \<Rightarrow> State \<Rightarrow> State \<Rightarrow> zevent list" where
  "pruneReads root dataset rootState state =
     Read root False (Inr rootState) # (if dataset = root then [] else [Read dataset False (Inr state)])"

definition pruneEvidence :: "string \<Rightarrow> string \<Rightarrow> string \<Rightarrow> State \<Rightarrow> State \<Rightarrow> string \<Rightarrow> bool" where
  "pruneEvidence installation root dataset rootState state lineage \<longleftrightarrow>
     RootAuthority rootState root installation = Inr lineage \<and> scopeReady state dataset = None \<and> (dataset = root \<longrightarrow> state = rootState)"

text \<open>A snapshot may be destroyed after \<open>pre\<close>: the reads just before it prove authority and make it eligible.\<close>

definition pruneAllowed :: "string \<Rightarrow> string \<Rightarrow> Retention \<Rightarrow> zevent list \<Rightarrow> zwrite \<Rightarrow> bool" where
  "pruneAllowed installation root retention pre c \<longleftrightarrow>
     (\<exists>l rootState state lineage plan d. pre = l @ pruneReads root (rt_Dataset retention) rootState state
        \<and> pruneEvidence installation root (rt_Dataset retention) rootState state lineage
        \<and> PlanPrune (rt_Dataset retention) lineage (rt_Grid retention) (snapshotsIn state (rt_Dataset retention)) = Inr plan
        \<and> d \<in> set plan \<and> dc_Destroy d \<and> c = DestroySnap (dc_Snapshot d))"

lemma pruneReads_quiet [simp]: "writes (pruneReads root dataset rootState state) = []"
  by (simp add: pruneReads_def)

lemma pruneRead_runs:
  "runs (\<lambda>x. snd x = l0) (pruneRead (logged e) installation root dataset)
     (\<lambda>(state, lineage) x. \<exists>rootState. snd x = l0 @ pruneReads root dataset rootState state \<and> pruneEvidence installation root dataset rootState state lineage)
     (\<lambda>_ x. quiet l0 x)"
proof -
  have second: "runs (\<lambda>x. snd x = l0 @ [Read root False (Inr rs)]) (if dataset \<noteq> root then zInspectState (logged e) dataset False else ioReturn rs)
      (\<lambda>state x. snd x = l0 @ pruneReads root dataset rs state \<and> (dataset = root \<longrightarrow> state = rs)) (\<lambda>_ x. quiet l0 x)" for rs
  proof (cases "dataset = root")
    case True
    then show ?thesis by (simp add: runs_return pruneReads_def)
  next
    case False
    then show ?thesis by (auto simp: pruneReads_def intro!: runs_noting quietI)
  qed
  have rest: "runs (\<lambda>x. snd x = l0 @ [Read root False (Inr rs)])
      (ioBind (if dataset \<noteq> root then zInspectState (logged e) dataset False else ioReturn rs) (\<lambda>state. ioCheck (scopeReady state dataset) (ioReturn (state, lineage))))
      (\<lambda>(state, lineage) x. \<exists>rootState. snd x = l0 @ pruneReads root dataset rootState state \<and> pruneEvidence installation root dataset rootState state lineage)
      (\<lambda>_ x. quiet l0 x)" if "RootAuthority rs root installation = Inr lineage" for rs lineage
    by (rule runs_bind [OF second], rule runs_check, rule runs_return) (use that in \<open>auto simp: pruneEvidence_def intro!: quietI\<close>)
  have first: "runs (\<lambda>x. snd x = l0) (zInspectState (logged e) root False) (\<lambda>rs x. snd x = l0 @ [Read root False (Inr rs)]) (\<lambda>_ x. quiet l0 x)"
    by (auto intro!: runs_noting quietI)
  show ?thesis unfolding pruneRead_def
    by (rule runs_bind [OF first], rule runs_bind_lift, erule rest) (auto intro!: quietI)
qed

lemma pruneOne_issues:
  "issues (pruneAllowed installation root retention) (pruneOne (logged e) installation root retention state lineage d) [DestroySnap (dc_Snapshot d)]"
  (is "issues ?G _ ?W")
proof (rule issuesI, rule runs_at)
  fix x0 :: "'a logworld" and W0
  assume x0: "issued ?G W0 x0"
  let ?ds = "rt_Dataset retention"
  let ?R = "\<lambda>current actual x. \<exists>rs. snd x = snd x0 @ pruneReads root ?ds rs current \<and> pruneEvidence installation root ?ds rs current actual"
  have quietE: "issuedPart ?G W0 ?W x" if "quiet (snd x0) x" for x
    using issued_quiet [OF x0 that] by (rule issuedPart_none)
  have read: "runs (\<lambda>x. x = x0) (pruneRead (logged e) installation root ?ds) (\<lambda>y. ?R (fst y) (snd y)) (\<lambda>_. issuedPart ?G W0 ?W)"
    by (rule runs_weaken [OF pruneRead_runs [of "snd x0"]]) (use quietE in auto)
  have stop: "issuedPart ?G W0 ?W x" if "?R current actual x" for x current actual
    using that by (auto intro!: quietE quietI)
  have destroy: "runs (?R current lineage) (zDestroySnapshot (logged e) (dc_Snapshot d)) (\<lambda>_. issued ?G (W0 @ ?W)) (\<lambda>_. issuedPart ?G W0 ?W)"
    if plan: "PlanPrune ?ds lineage (rt_Grid retention) (snapshotsIn current ?ds) = Inr ds"
      and el: "list_ex (\<lambda>next. dc_Snapshot next = dc_Snapshot d \<and> dc_GUID next = dc_GUID d \<and> dc_Destroy next) ds" for current ds
  proof -
    obtain n where n: "n \<in> set ds" "dc_Snapshot n = dc_Snapshot d" "dc_Destroy n" using el by (auto simp: list_ex_iff)
    have allowed: "?G (snd x0 @ pruneReads root ?ds rs current) (DestroySnap (dc_Snapshot d))"
      if "pruneEvidence installation root ?ds rs current lineage" for rs
      unfolding pruneAllowed_def using that plan n by (metis (no_types))
    have wrote: "issued ?G (W0 @ ?W) (w', l @ [Wrote (DestroySnap (dc_Snapshot d)) ok])" if "?R current lineage (w, l)" for w w' l ok
    proof -
      from that obtain rs where l: "l = snd x0 @ pruneReads root ?ds rs current" and ev: "pruneEvidence installation root ?ds rs current lineage" by auto
      have "issued ?G W0 (w, l)" by (rule issued_quiet [OF x0 quietI [of _ _ "pruneReads root ?ds rs current"]]) (simp_all add: l)
      moreover have "?G l (DestroySnap (dc_Snapshot d))" using allowed [OF ev] unfolding l .
      ultimately show ?thesis by (simp add: issued_def)
    qed
    show ?thesis unfolding logged_simps
      by (rule runs_noting, erule wrote) (unfold issuedPart_def, rule exI [of _ ?W], rule conjI [OF prefix_order.refl], erule wrote)
  qed
  show "runs (\<lambda>x. x = x0) (pruneOne (logged e) installation root retention state lineage d) (\<lambda>_. issued ?G (W0 @ ?W)) (\<lambda>_. issuedPart ?G W0 ?W)"
    unfolding pruneOne_def
  proof (rule runs_bind [OF read])
    fix y
    show "runs (?R (fst y) (snd y)) (case y of (current, actual) \<Rightarrow>
        if datasetObjects state \<noteq> datasetObjects current then ioFail (Errorf ''dataset identity changed before pruning'' [])
        else if actual \<noteq> lineage then ioFail (Errorf ''lineage changed before pruning'' [])
        else ioBind (ioLift (PlanPrune ?ds lineage (rt_Grid retention) (snapshotsIn current ?ds))) (\<lambda>decisions.
          if \<not> list_ex (\<lambda>next. dc_Snapshot next = dc_Snapshot d \<and> dc_GUID next = dc_GUID d \<and> dc_Destroy next) decisions
          then ioFail (Errorf ''snapshot eligibility changed before pruning %s'' [Arg (dc_Snapshot d)])
          else zDestroySnapshot (logged e) (dc_Snapshot d)))
      (\<lambda>_. issued ?G (W0 @ ?W)) (\<lambda>_. issuedPart ?G W0 ?W)"
      unfolding case_prod_beta
    proof (intro runs_if runs_fail runs_bind_lift)
      fix ds
      assume "\<not> snd y \<noteq> lineage" "PlanPrune ?ds lineage (rt_Grid retention) (snapshotsIn (fst y) ?ds) = Inr ds"
        "\<not> \<not> list_ex (\<lambda>next. dc_Snapshot next = dc_Snapshot d \<and> dc_GUID next = dc_GUID d \<and> dc_Destroy next) ds"
      then show "runs (?R (fst y) (snd y)) (zDestroySnapshot (logged e) (dc_Snapshot d)) (\<lambda>_. issued ?G (W0 @ ?W)) (\<lambda>_. issuedPart ?G W0 ?W)"
        using destroy by blast
    qed (erule stop)+
  qed
qed

lemma prunePlan_runs:
  "runs (\<lambda>x. snd x = []) (prunePlan (logged e) installation root effective retention)
     (\<lambda>_ x. quiet [] x \<and> ActiveRoot effective root = None \<and> inside (rt_Dataset retention) root)
     (\<lambda>_. quiet [])"
proof -
  have "runs (\<lambda>x. snd x = []) (pruneRead (logged e) installation root (rt_Dataset retention)) (\<lambda>_. quiet []) (\<lambda>_. quiet [])"
    by (rule runs_weaken [OF pruneRead_runs]) (auto intro: quietI)
  note read = runs_bind [OF this]
  show ?thesis unfolding prunePlan_def Let_def lock_def
    by (intro runs_check runs_if runs_fail read) (auto intro!: runs_bind_lift runs_return simp: inside_def quiet_def split: prod.splits)
qed

text \<open>
  C29: Pruning destroys only what it has just proved it may. Every snapshot that a run destroys, or tries to, was marked for destruction by the
  plan computed from the reads immediately before that call, which also showed this installation's authority
  over the root and no receive in progress; the calls follow the returned plan in order, reach its end exactly when no error is returned, and there are none
  unless the caller asked to apply and the policy of the root is active.
\<close>

theorem Prune_destroys_only_replanned:
  assumes run: "Prune (logged e) installation root effective retention apply (w, []) = ((plan, err), (w', l))"
  shows "guardedLog (pruneAllowed installation root retention) l
    \<and> prefix (writes l) (if apply then map (\<lambda>d. DestroySnap (dc_Snapshot d)) (filter dc_Destroy plan) else [])
    \<and> (err = None \<and> apply \<longrightarrow> writes l = map (\<lambda>d. DestroySnap (dc_Snapshot d)) (filter dc_Destroy plan))
    \<and> (writes l \<noteq> [] \<longrightarrow> ActiveRoot effective root = None \<and> inside (rt_Dataset retention) root)"
proof -
  let ?G = "pruneAllowed installation root retention"
  obtain p x1 where p: "prunePlan (logged e) installation root effective retention (w, []) = (p, x1)" by (cases "prunePlan (logged e) installation root effective retention (w, [])")
  have start: "case p of Inr _ \<Rightarrow> quiet [] x1 \<and> ActiveRoot effective root = None \<and> inside (rt_Dataset retention) root | Inl _ \<Rightarrow> quiet [] x1"
    using runsD [OF prunePlan_runs _ p] by simp
  then have q: "issued ?G [] x1" by (cases p) (auto simp: quiet_def issued_def guardedLog_quiet [of _ _ "[]", simplified])
  show ?thesis
  proof (cases p)
    case (Inl e)
    with run p q show ?thesis by (auto simp: Prune_def issued_def)
  next
    case (Inr y)
    obtain state lineage pl where y: "y = (state, lineage, pl)" by (cases y)
    show ?thesis
    proof (cases "apply")
      case False
      with run p q Inr y show ?thesis by (auto simp: Prune_def issued_def)
    next
      case True
      obtain r x2 where r: "ioEach (pruneOne (logged e) installation root retention state lineage) (filter dc_Destroy pl) x1 = (r, x2)"
        by (cases "ioEach (pruneOne (logged e) installation root retention state lineage) (filter dc_Destroy pl) x1")
      have out: "plan = pl" "x2 = (w', l)" "err = None \<longleftrightarrow> is_ok r"
        using run p Inr y True r by (auto simp: Prune_def split: sum.splits)
      have cm: "concat (map (\<lambda>d. [f d]) ds) = map f ds" for f :: "Decision \<Rightarrow> zwrite" and ds by (induction ds) simp_all
      have "issues ?G (ioEach (pruneOne (logged e) installation root retention state lineage) (filter dc_Destroy pl))
          (map (\<lambda>d. DestroySnap (dc_Snapshot d)) (filter dc_Destroy pl))"
        using issues_each [of ?G _ "\<lambda>d. [DestroySnap (dc_Snapshot d)]", OF pruneOne_issues] unfolding cm .
      from runsD [OF issuesD [OF this] q r] out True start Inr y show ?thesis
        by (cases r) (auto simp: issued_def issuedPart_def)
    qed
  qed
qed

subsection \<open>A concrete root\<close>

text \<open>A host with the owned root \<open>tank\<close> and three of its snapshots, a minute apart, and the policy that makes it a root.\<close>

abbreviation exInstallation :: string where "exInstallation \<equiv> ''03030303-0303-4303-8303-030303030303''"

definition exTank :: State where
  "exTank = memSet ''tank'' (authorityProperties exInstallation exLineage) (memAdd ''tank'' Filesystem 7 emptyState)"

definition exHost :: State where
  "exHost = fold (\<lambda>s w. (memAdd (sn_Name s) ''snapshot'' (sn_GUID s) w)\<lparr>st_Properties := st_Properties w @ sn_Properties s\<rparr>)
     [exSnapshot (1000 * Minute) 11, exSnapshot (1001 * Minute) 12, exSnapshot (1002 * Minute) 13] exTank"

definition exPolicy :: Effective where
  "exPolicy = exReplicating\<lparr>e_Values := [(Namespace @ ''enabled'', \<lparr>v_Value = ''on'', v_Dataset = ''tank''\<rparr>)]\<rparr>"

definition exRetention :: Retention where
  "exRetention = \<lparr>rt_Dataset = ''tank'', rt_Grid = exGrid\<rparr>"

lemma exPrune: "writes (snd (snd (Prune (logged memory) exInstallation ''tank'' exPolicy exRetention True (exHost, []))))
    = [DestroySnap (sn_Name (exSnapshot (1001 * Minute) 12))]"
  by code_simp

theorem Prune_destroys_only_replanned_witness:
  "\<exists>l. snd (snd (Prune (logged memory) exInstallation ''tank'' exPolicy exRetention True (exHost, []))) = l
     \<and> writes l = [DestroySnap (sn_Name (exSnapshot (1001 * Minute) 12))] \<and> guardedLog (pruneAllowed exInstallation ''tank'' exRetention) l"
proof -
  obtain plan err w l where run: "Prune (logged memory) exInstallation ''tank'' exPolicy exRetention True (exHost, []) = ((plan, err), (w, l))"
    by (cases "Prune (logged memory) exInstallation ''tank'' exPolicy exRetention True (exHost, [])") auto
  with Prune_destroys_only_replanned [OF run] exPrune show ?thesis by simp
qed

subsection \<open>What snapshot creation writes\<close>

text \<open>
  The write \<open>c\<close> is allowed after \<open>pre\<close>: the scope was read twice with the same result; authority markers go only on a root without any
  state, and the snapshot is taken only when the latest read shows this installation's authority under the lineage the snapshot carries.
\<close>

definition createAllowed :: "string \<Rightarrow> string \<Rightarrow> string list \<Rightarrow> zevent list \<Rightarrow> zwrite \<Rightarrow> bool" where
  "createAllowed installation dataset members pre c \<longleftrightarrow>
     (\<exists>state rest. pre = [Read dataset True (Inr state), Read dataset True (Inr state)] @ rest \<and> scopeReady state dataset = None
        \<and> ((\<exists>lineage. rest = [] \<and> internalMetadata state = None \<and> storedLineage state dataset = Inr [] \<and> c = SetProps dataset (authorityProperties installation lineage))
          \<or> (\<exists>m current. last pre = Read dataset True (Inr current) \<and> RootAuthority current dataset installation = Inr (md_Lineage m)
               \<and> c = MakeSnapshot members (metadataName m) (metadataProperties m))))"

definition createVerified :: "string \<Rightarrow> string list \<Rightarrow> Metadata \<Rightarrow> zevent list \<Rightarrow> bool" where
  "createVerified dataset members m l \<longleftrightarrow>
     (\<exists>state after. hd l = Read dataset True (Inr state) \<and> last l = Read dataset True (Inr after) \<and> datasetObjects after = datasetObjects state
        \<and> (\<forall>member \<in> set members. \<exists>s \<in> set (snapshotsIn after member). sn_Name s = member @ ''@'' @ metadataName m \<and> Ownership s (md_Lineage m) = Inr m))"

lemma createdOn_owned:
  assumes "createdOn after lineage m member"
  shows "\<exists>s \<in> set (snapshotsIn after member). sn_Name s = member @ ''@'' @ metadataName m \<and> Ownership s lineage = Inr m"
proof -
  have "\<exists>s \<in> set ss. sn_Name s = n \<and> P s" if "foldl (\<lambda>v s. if sn_Name s \<noteq> n then v else P s) False ss" for n P and ss :: "Snapshot list"
    using that by (induction ss rule: rev_induct) (auto split: if_splits)
  from this [of "member @ ''@'' @ metadataName m" "\<lambda>s. Ownership s lineage = Inr m"] assms show ?thesis
    unfolding createdOn_def by blast
qed

lemma unverifiedMember_None: "unverifiedMember after lineage m members = None \<longleftrightarrow> (\<forall>member \<in> set members. createdOn after lineage m member)"
  by (induction members) auto

lemma NewMetadata_lineage: "NewMetadata i lineage now = Inr m \<Longrightarrow> md_Lineage m = lineage"
  by (auto simp: NewMetadata_def result_iffs split: if_splits)

lemma initializeLineage_runs:
  "runs (\<lambda>x. snd x = l0) (initializeLineage (logged e) installation dataset lineage state)
     (\<lambda>_ x. \<exists>current. snd x = l0 @ [Wrote (SetProps dataset (authorityProperties installation lineage)) True, Read dataset True (Inr current)]
        \<and> RootAuthority current dataset installation = Inr lineage)
     (\<lambda>_ x. \<exists>ok reads. snd x = l0 @ Wrote (SetProps dataset (authorityProperties installation lineage)) ok # reads \<and> writes reads = [])"
  unfolding initializeLineage_def logged_simps
  by (intro runs_bind_noting runs_if runs_fail runs_return) auto

lemma unchanged_runs:
  "runs (\<lambda>x. snd x = l0) (unchanged (logged e) dataset recursive state)
     (\<lambda>_ x. snd x = l0 @ [Read dataset recursive (Inr state)])
     (\<lambda>err x. \<exists>r. snd x = l0 @ [Read dataset recursive r] \<and> r \<noteq> Inr state \<and> err = (case r of Inl e \<Rightarrow> e | Inr _ \<Rightarrow> StateChangedError))"
  unfolding unchanged_def logged_simps by (intro runs_bind_noting runs_if runs_fail runs_return) auto

text \<open>From the second read on.\<close>

definition createPost :: "string \<Rightarrow> string \<Rightarrow> string list \<Rightarrow> State \<Rightarrow> zevent list \<Rightarrow> bool" where
  "createPost installation dataset members state l \<longleftrightarrow>
     guardedLog (createAllowed installation dataset members) l \<and> (\<exists>rest. l = [Read dataset True (Inr state), Read dataset True (Inr state)] @ rest)"

lemma createPost_read: "createPost installation dataset members state l \<Longrightarrow> createPost installation dataset members state (l @ [Read d rec r])"
  by (auto simp: createPost_def)

lemma create_begun:
  assumes "scopeReady state dataset = None" and "storedLineage state dataset = Inr stored"
    and "snapshotLineage installation newLineage state dataset stored = Inr lineage"
  shows "runs (\<lambda>x. snd x = [Read dataset True (Inr state), Read dataset True (Inr state)])
     (if stored = [] then initializeLineage (logged e) installation dataset lineage state else ioReturn ())
     (\<lambda>_ x. createPost installation dataset members state (snd x)
        \<and> (\<exists>current. last (snd x) = Read dataset True (Inr current) \<and> RootAuthority current dataset installation = Inr lineage))
     (\<lambda>_ x. createPost installation dataset members state (snd x))"
proof (cases "stored = []")
  case True
  let ?l = "[Read dataset True (Inr state), Read dataset True (Inr state)]" and ?c = "SetProps dataset (authorityProperties installation lineage)"
  have "createAllowed installation dataset members ?l ?c"
    using assms True by (auto simp: createAllowed_def snapshotLineage_def result_iffs)
  then have post: "createPost installation dataset members state (?l @ Wrote ?c ok # reads)" if "writes reads = []" for ok reads
    using that guardedLog_quiet [of reads "createAllowed installation dataset members" "?l @ [Wrote ?c ok]"]
      guardedLog_snoc [of "createAllowed installation dataset members" ?l "Wrote ?c ok"] guardedLog_quiet [of ?l _ "[]"]
    by (simp add: createPost_def)
  show ?thesis unfolding if_P [OF True]
    by (rule runs_weaken [OF initializeLineage_runs]) (use post in auto)
next
  case False
  with assms show ?thesis
    by (auto simp: snapshotLineage_def createPost_def guardedLog_quiet [of "[_, _]" _ "[]", simplified] intro!: runs_return)
qed

lemma create_finish:
  assumes "scopeReady state dataset = None" and m: "md_Lineage metadata = lineage"
  shows "runs (\<lambda>x. createPost installation dataset members state (snd x)
        \<and> (\<exists>current. last (snd x) = Read dataset True (Inr current) \<and> RootAuthority current dataset installation = Inr lineage))
     (ioBind (zSnapshot (logged e) members (metadataName metadata) (metadataProperties metadata)) (\<lambda>_.
      ioBind (zInspectState (logged e) dataset True) (\<lambda>after.
      if datasetObjects state \<noteq> datasetObjects after
      then ioFail (Errorf ''dataset scope changed during snapshot creation'' [])
      else ioCheck (unverifiedMember after lineage metadata members) (ioReturn metadata))))
     (\<lambda>m x. createPost installation dataset members state (snd x) \<and> createVerified dataset members m (snd x))
     (\<lambda>_ x. createPost installation dataset members state (snd x))" (is "runs ?P _ ?Q ?E")
proof (rule runs_at)
  fix x0 :: "'a logworld"
  let ?c = "MakeSnapshot members (metadataName metadata) (metadataProperties metadata)"
  assume x0: "?P x0"
  then have "createAllowed installation dataset members (snd x0) ?c"
    using assms unfolding createAllowed_def createPost_def by blast
  then have post: "createPost installation dataset members state (snd x0 @ [Wrote ?c ok])" for ok
    using x0 by (auto simp: createPost_def)
  have read: "createPost installation dataset members state (snd x0 @ [Wrote ?c ok] @ [Read dataset True r])" for ok r
    using createPost_read [OF post] by simp
  have verified: "createVerified dataset members metadata (snd x0 @ [Wrote ?c True] @ [Read dataset True (Inr after)])"
    if "datasetObjects state = datasetObjects after" "unverifiedMember after lineage metadata members = None" for after
    using that x0 createdOn_owned m by (fastforce simp: createVerified_def createPost_def unverifiedMember_None)
  have "runs (\<lambda>x. snd x = snd x0) (ioBind (zSnapshot (logged e) members (metadataName metadata) (metadataProperties metadata)) (\<lambda>_.
      ioBind (zInspectState (logged e) dataset True) (\<lambda>after.
      if datasetObjects state \<noteq> datasetObjects after
      then ioFail (Errorf ''dataset scope changed during snapshot creation'' [])
      else ioCheck (unverifiedMember after lineage metadata members) (ioReturn metadata)))) ?Q ?E"
    unfolding logged_simps
    by (intro runs_bind_noting runs_if runs_check runs_fail runs_return) (use post read verified in auto)
  then show "runs (\<lambda>x. x = x0) (ioBind (zSnapshot (logged e) members (metadataName metadata) (metadataProperties metadata)) (\<lambda>_.
      ioBind (zInspectState (logged e) dataset True) (\<lambda>after.
      if datasetObjects state \<noteq> datasetObjects after
      then ioFail (Errorf ''dataset scope changed during snapshot creation'' [])
      else ioCheck (unverifiedMember after lineage metadata members) (ioReturn metadata)))) ?Q ?E"
    by (rule runs_weaken) auto
qed

text \<open>All that a run of \<open>CreateSnapshot\<close> can have logged.\<close>

definition createLog :: "string \<Rightarrow> string \<Rightarrow> string list \<Rightarrow> zevent list \<Rightarrow> bool" where
  "createLog installation dataset members l \<longleftrightarrow>
     guardedLog (createAllowed installation dataset members) l \<and> (\<forall>state state' rest. l = Read dataset True (Inr state) # Read dataset True (Inr state') # rest \<and> rest \<noteq> [] \<longrightarrow> state' = state)"

lemma createLog_short: "length l \<le> 2 \<Longrightarrow> writes l = [] \<Longrightarrow> createLog installation dataset members l"
  using guardedLog_quiet [of l "createAllowed installation dataset members" "[]"] by (auto simp: createLog_def)

lemma createLog_post: "createPost installation dataset members state l \<Longrightarrow> createLog installation dataset members l"
  by (auto simp: createLog_def createPost_def)

lemma CreateSnapshot_runs:
  "runs (\<lambda>x. snd x = []) (CreateSnapshot (logged e) installation newLineage newSnapshot dataset members now effective)
     (\<lambda>m x. (\<exists>state. createPost installation dataset members state (snd x)) \<and> createVerified dataset members m (snd x))
     (\<lambda>err x. createLog installation dataset members (snd x)
        \<and> (\<forall>state state'. state' \<noteq> state \<and> prefix [Read dataset True (Inr state), Read dataset True (Inr state')] (snd x) \<longrightarrow> err = StateChangedError))"
  (is "runs _ _ ?Q ?E")
proof -
  have late: "?E err x" if "createPost installation dataset members state (snd x)" for err x state
    using createLog_post [OF that] that by (auto simp: createPost_def)
  have early: "?E err x" if "length (snd x) \<le> 1" "writes (snd x) = []" for err x
    using that createLog_short [of "snd x"] by (auto dest: prefix_length_le)
  have main: "runs (\<lambda>x. snd x = [Read dataset True (Inr state)])
      (ioBind (unchanged (logged e) dataset True state) (\<lambda>_.
       ioBind (if stored = [] then initializeLineage (logged e) installation dataset lineage state else ioReturn ()) (\<lambda>_.
       ioBind (zSnapshot (logged e) members (metadataName metadata) (metadataProperties metadata)) (\<lambda>_.
       ioBind (zInspectState (logged e) dataset True) (\<lambda>after.
       if datasetObjects state \<noteq> datasetObjects after
       then ioFail (Errorf ''dataset scope changed during snapshot creation'' [])
       else ioCheck (unverifiedMember after lineage metadata members) (ioReturn metadata)))))) ?Q ?E"
    if ok: "scopeReady state dataset = None" "storedLineage state dataset = Inr stored"
      "snapshotLineage installation newLineage state dataset stored = Inr lineage" "NewMetadata newSnapshot lineage now = Inr metadata" for state stored lineage metadata
  proof (rule runs_bind)
    show "runs (\<lambda>x. snd x = [Read dataset True (Inr state)]) (unchanged (logged e) dataset True state)
        (\<lambda>_ x. snd x = [Read dataset True (Inr state), Read dataset True (Inr state)]) ?E"
      by (rule runs_weaken [OF unchanged_runs]) (auto intro!: createLog_short)
    show "runs (\<lambda>x. snd x = [Read dataset True (Inr state), Read dataset True (Inr state)])
      (ioBind (if stored = [] then initializeLineage (logged e) installation dataset lineage state else ioReturn ()) (\<lambda>_.
       ioBind (zSnapshot (logged e) members (metadataName metadata) (metadataProperties metadata)) (\<lambda>_.
       ioBind (zInspectState (logged e) dataset True) (\<lambda>after.
       if datasetObjects state \<noteq> datasetObjects after
       then ioFail (Errorf ''dataset scope changed during snapshot creation'' [])
       else ioCheck (unverifiedMember after lineage metadata members) (ioReturn metadata))))) ?Q ?E" for u
    proof (rule runs_bind)
      show "runs (\<lambda>x. snd x = [Read dataset True (Inr state), Read dataset True (Inr state)])
          (if stored = [] then initializeLineage (logged e) installation dataset lineage state else ioReturn ())
          (\<lambda>_ x. createPost installation dataset members state (snd x)
             \<and> (\<exists>current. last (snd x) = Read dataset True (Inr current) \<and> RootAuthority current dataset installation = Inr lineage)) ?E"
        by (rule runs_weaken [OF create_begun [OF ok(1-3)]], assumption, assumption, erule late)
    qed (rule runs_weaken [OF create_finish [OF ok(1) NewMetadata_lineage [OF ok(4)]]], assumption, blast, erule late)
  qed
  show ?thesis unfolding CreateSnapshot_def lock_def
    apply (intro runs_check)
    apply (subst logged_simps, rule runs_bind_noting)
    apply (intro runs_check runs_bind_lift)
    apply (simp only: append_Nil)
    apply (rule main)
    using early by auto
qed

text \<open>
  C30: A snapshot is taken only under proved authority, and a success is verified. In every run of \<open>CreateSnapshot\<close>, on any backend and with
  any outcome, the markers of a new root are written only when two equal reads showed it to have no state at all, and the snapshot command is
  issued only after two equal reads of the scope and a latest read that shows this installation's authority under the lineage the snapshot
  carries. When it returns metadata, the last read shows the scope's datasets unchanged and, on every member, a snapshot of that name which
  is owned with exactly that metadata.
\<close>

theorem CreateSnapshot_authorised_and_verified:
  assumes "CreateSnapshot (logged e) installation newLineage newSnapshot dataset members now effective (w, []) = (r, (w', l))"
  shows "guardedLog (createAllowed installation dataset members) l \<and> (\<forall>m. r = Inr m \<longrightarrow> createVerified dataset members m l)"
  using runsD [OF CreateSnapshot_runs _ assms] by (auto simp: createLog_def createPost_def split: sum.splits)

text \<open>
  C31: When the second read of the scope differs from the first, \<open>CreateSnapshot\<close> fails with the temporary state-changed error, and nothing was
  written and nothing more is asked of ZFS.
\<close>

theorem CreateSnapshot_stale_read:
  assumes "CreateSnapshot (logged e) installation newLineage newSnapshot dataset members now effective (w, []) = (r, (w', l))"
    and "l = Read dataset True (Inr state) # Read dataset True (Inr state') # rest" and "state' \<noteq> state"
  shows "r = Inl StateChangedError \<and> rest = []"
proof -
  note run = runsD [OF CreateSnapshot_runs _ assms(1), simplified]
  then have log: "createLog installation dataset members l" using createLog_post by (cases r) auto
  then have rest: "rest = []" using assms(2,3) by (auto simp: createLog_def)
  show ?thesis
  proof (cases r)
    case (Inl err)
    with run assms(2,3) rest show ?thesis by auto
  next
    case (Inr m)
    with run assms(2,3) show ?thesis by (auto simp: createPost_def)
  qed
qed

definition exNew :: State where
  "exNew = memAdd ''tank'' Filesystem 7 emptyState"

abbreviation exCreate :: "'w Executor \<Rightarrow> ('w, Metadata) zio" where
  "exCreate e \<equiv> CreateSnapshot e exInstallation (Inr exLineage) (Inr exLineage) ''tank'' [''tank''] (1000 * Minute) exPolicy"

lemma exCreate_ok: "is_ok (fst (exCreate (logged memory) (exNew, [])))"
  by code_simp

theorem CreateSnapshot_authorised_and_verified_witness:
  "\<exists>m w l. exCreate (logged memory) (exNew, []) = (Inr m, (w, l)) \<and> createVerified ''tank'' [''tank''] m l"
proof -
  obtain r w l where run: "exCreate (logged memory) (exNew, []) = (r, (w, l))" by (cases "exCreate (logged memory) (exNew, [])") auto
  with exCreate_ok obtain m where "r = Inr m" by (cases r) auto
  with CreateSnapshot_authorised_and_verified [OF run] run show ?thesis by blast
qed

text \<open>A host on which a dataset appears with every read.\<close>

definition restless :: "State Executor" where
  "restless = memory\<lparr>zInspectState := (\<lambda>d rec w. case memInspect d rec w of (r, w') \<Rightarrow> (r, memAdd (d @ ''/new'') Filesystem (freshGUID w') w'))\<rparr>"

lemma exStale:
  "snd (snd (exCreate (logged restless) (exNew, []))) = [Read ''tank'' True (Inr exNew), Read ''tank'' True (Inr (memAdd ''tank/new'' Filesystem 8 exNew))]"
  "memAdd ''tank/new'' Filesystem 8 exNew \<noteq> exNew"
  by code_simp+

theorem CreateSnapshot_stale_read_witness:
  "fst (exCreate (logged restless) (exNew, [])) = Inl StateChangedError"
proof -
  obtain r w l where run: "exCreate (logged restless) (exNew, []) = (r, (w, l))" by (cases "exCreate (logged restless) (exNew, [])") auto
  with exStale(1) have "l = [Read ''tank'' True (Inr exNew), Read ''tank'' True (Inr (memAdd ''tank/new'' Filesystem 8 exNew))]" by simp
  from CreateSnapshot_stale_read [OF run this exStale(2)] run show ?thesis by simp
qed

end
