(* ===== verification/Lifecycle_References.thy ===== *)
theory Lifecycle_References
  imports Lifecycle_Service
begin

section \<open>Recovery proofs\<close>

text \<open>
  The operations of \<open>internal/lifecycle/reference.go\<close> and \<open>inspection.go\<close> that write, check and remove the proof that a target
  depends on a source snapshot: the record on the root, the hold on each snapshot, the checkpoint bookmarks. The order of their
  writes is what makes them safe to interrupt, and is stated as a refinement of a small abstract protocol. A full backend
  implements the optional interface, so the type assertion on it succeeds. Of several offending snapshots in
  the map a caller supplies, the first in key order is the one named.
\<close>

subsection \<open>Reading what a proof involves\<close>

definition wantedDatasets :: "string \<Rightarrow> string \<Rightarrow> string list \<Rightarrow> string list" where
  "wantedDatasets root subtree datasets =
     foldl (\<lambda>wanted d. if d \<noteq> root \<and> d \<notin> set wanted \<and> (subtree = [] \<or> \<not> inside d subtree) then wanted @ [d] else wanted) [] datasets
     @ (if subtree \<noteq> [] \<and> subtree \<noteq> root then [subtree] else [])"

fun inspectMembers :: "'w Executor \<Rightarrow> string \<Rightarrow> Dataset list \<Rightarrow> State \<Rightarrow> string list \<Rightarrow> ('w, State) zio" where
  "inspectMembers e subtree inventory state [] = ioReturn state"
| "inspectMembers e subtree inventory state (d # ds) =
     (if \<not> list_ex (\<lambda>x. ds_Name x = d) inventory then inspectMembers e subtree inventory state ds
      else ioBind (zInspectState e d (d = subtree)) (\<lambda>member. inspectMembers e subtree inventory (MergeStates [state, member]) ds))"

definition proofScope :: "'w Executor \<Rightarrow> string \<Rightarrow> string list \<Rightarrow> string \<Rightarrow> ('w, State) zio" where
  "proofScope e root datasets subtree =
     ioBind (zInspectState e root (root = subtree)) (\<lambda>state.
       let wanted = wantedDatasets root subtree datasets in
       if wanted = [] then ioReturn state
       else ioBind (zListDatasets e) (\<lambda>inventory. inspectMembers e subtree inventory state (sort wanted)))"

definition proofUnchanged :: "'w Executor \<Rightarrow> string \<Rightarrow> string list \<Rightarrow> string \<Rightarrow> State \<Rightarrow> ('w, unit) zio" where
  "proofUnchanged e root datasets subtree expected =
     ioBind (proofScope e root datasets subtree) (\<lambda>current.
       if expected \<noteq> current then ioFail StateChangedError else ioReturn ())"

definition referenceState :: "'w Executor \<Rightarrow> string \<Rightarrow> string \<Rightarrow> Reference \<Rightarrow> ('w, State \<times> string \<times> ReferenceSource list) zio" where
  "referenceState e installation dataset r =
     ioCheck (validateDataset dataset)
    (ioBind (proofScope e dataset [rf_Dataset r] (subtreeOf r)) (\<lambda>state.
     ioCheck (scopeReady state dataset)
    (ioBind (ioLift (RootAuthority state dataset installation)) (\<lambda>lineage.
     ioBind (ioLift (referenceRecords state dataset lineage)) (\<lambda>refs.
     if r \<notin> set refs then ioFail (Errorf ''reference proof is missing or changed'' [])
     else ioBind (ioLift (Sources r state)) (\<lambda>sources. ioReturn (state, lineage, sources)))))))"

subsection \<open>Protecting\<close>

abbreviation MaxUserPropertyValue :: nat where "MaxUserPropertyValue \<equiv> 8191"

text \<open>The snapshots of one instant: the metadata they share, whether any is below the stream, whether the stream's own is among them.\<close>

fun protectSnapshots :: "State \<Rightarrow> string \<Rightarrow> string \<Rightarrow> string list \<Rightarrow> Metadata option \<Rightarrow> bool \<Rightarrow> bool \<Rightarrow> string list
    \<Rightarrow> (Metadata option \<times> bool \<times> bool) result" where
  "protectSnapshots state stream lineage seen instant recursive own [] = Inr (instant, recursive, own)"
| "protectSnapshots state stream lineage seen instant recursive own (snapshot # snapshots) =
     (if snapshot \<in> set seen then Inl (Errorf ''duplicate source snapshot'' [])
      else
        (let d = cutBefore snapshot (CHR ''@'') in
         if \<not> inside d stream then Inl (Errorf ''source snapshot %s is outside stream %s'' [Arg snapshot, Arg stream])
         else bindE (findOwned state d snapshot lineage) (\<lambda>(s, metadata).
           if (case instant of None \<Rightarrow> False | Some m \<Rightarrow> metadata \<noteq> m)
           then Inl (Errorf ''source snapshot %s is not of the stream's instant'' [Arg snapshot])
           else protectSnapshots state stream lineage (snapshot # seen) (Some metadata)
             (recursive \<or> d \<noteq> stream) (own \<or> d = stream) snapshots)))"

fun priorProof :: "Reference \<Rightarrow> bool \<Rightarrow> Reference list \<Rightarrow> (Reference \<times> bool) result" where
  "priorProof r known [] = Inr (r, known)"
| "priorProof r known (prior # refs) =
     (if referenceProperty prior \<noteq> referenceProperty r then priorProof r known refs
      else if prior \<noteq> r \<and> (rf_Metadata prior \<noteq> rf_Metadata r \<or> rf_Dataset prior \<noteq> rf_Dataset r \<or> \<not> rf_Recursive prior)
      then Inl (Errorf ''conflicting reference proof'' [])
      else priorProof prior True refs)"

definition heldBy :: "State \<Rightarrow> Reference \<Rightarrow> string \<Rightarrow> bool" where
  "heldBy state r snapshot = (referenceHold r \<in> set (mindex (st_Holds state) snapshot))"

definition storeProof :: "'w Executor \<Rightarrow> string \<Rightarrow> Reference \<Rightarrow> ('w, unit) zio" where
  "storeProof e dataset r =
     ioBind (ioLift (encodeReference r dataset)) (\<lambda>v.
       if length v > MaxUserPropertyValue
       then ioFail (Errorf ''recovery proof for stream %s needs %d bytes, over the ZFS property limit of %d''
         [Arg (rf_Dataset r), Num (int (length v)), Num (int MaxUserPropertyValue)])
       else zSetProperties e dataset [(referenceProperty r, v)])"

definition protectCheck :: "string \<Rightarrow> string \<Rightarrow> string list \<Rightarrow> string \<Rightarrow> go_error option" where
  "protectCheck dataset stream snapshots target =
     (case validateDataset dataset of
        Some e \<Rightarrow> Some e
      | None \<Rightarrow>
          if TrimSpace target = [] \<or> ContainsAny target [CHR 0x00, CHR 0x0D, CHR 0x0A]
          then Some (Errorf ''canonical non-secret target identity required'' [])
          else if snapshots = [] then Some (Errorf ''at least one source snapshot is required'' [])
          else
            (case validateDataset stream of
               Some e \<Rightarrow> Some e
             | None \<Rightarrow>
                 if \<not> inside stream dataset then Some (Errorf ''stream %s is outside root %s'' [Arg stream, Arg dataset])
                 else None))"

definition protectPlan :: "string \<Rightarrow> State \<Rightarrow> string \<Rightarrow> string \<Rightarrow> string list \<Rightarrow> string \<Rightarrow> (Reference \<times> bool) result" where
  "protectPlan installation state dataset stream snapshots target =
     failIf (scopeReady state dataset)
    (bindE (RootAuthority state dataset installation) (\<lambda>lineage.
     bindE (protectSnapshots state stream lineage [] None False False snapshots) (\<lambda>(instant, recursive, own).
     if \<not> own then Inl (Errorf ''stream snapshot must be among its sources'' [])
     else
       (let r = \<lparr>rf_TargetID = TargetID target, rf_Dataset = stream,
                 rf_Metadata = (case instant of Some m \<Rightarrow> m | None \<Rightarrow> \<lparr>md_Lineage = [], md_Snapshot = [], md_Created = 0\<rparr>),
                 rf_Recursive = recursive\<rparr> in
        bindE (referenceRecords state dataset lineage) (\<lambda>refs.
        bindE (priorProof r False refs) (\<lambda>(r, known).
        if \<not> known \<and> list_ex (heldBy state r) snapshots then Inl (Errorf ''unproven existing target hold'' [])
        else Inr (r, known)))))))"

definition protectApply :: "'w Executor \<Rightarrow> string \<Rightarrow> string list \<Rightarrow> string list \<Rightarrow> State \<Rightarrow> Reference \<times> bool \<Rightarrow> ('w, Reference) zio" where
  "protectApply e dataset snapshotDatasets snapshots state plan =
     (case plan of (r, known) \<Rightarrow>
        let unheld = filter (\<lambda>s. \<not> heldBy state r s) snapshots in
        if known \<and> unheld = [] then ioReturn r
        else
        ioBind (proofUnchanged e dataset snapshotDatasets [] state) (\<lambda>_.
        ioBind (if known then ioReturn () else storeProof e dataset r) (\<lambda>_.
        ioBind (ioEach (zHold e (referenceHold r)) unheld) (\<lambda>_. ioReturn r))))"

definition ProtectSet :: "'w Executor \<Rightarrow> string \<Rightarrow> string \<Rightarrow> string \<Rightarrow> string list \<Rightarrow> string \<Rightarrow> ('w, Reference) zio" where
  "ProtectSet e installation dataset stream snapshots target =
     lock dataset (ioCheck (protectCheck dataset stream snapshots target)
    (let snapshotDatasets = map (\<lambda>s. cutBefore s (CHR ''@'')) snapshots in
     ioBind (proofScope e dataset snapshotDatasets []) (\<lambda>state.
     ioBind (ioLift (protectPlan installation state dataset stream snapshots target))
       (protectApply e dataset snapshotDatasets snapshots state))))"

definition Protect :: "'w Executor \<Rightarrow> string \<Rightarrow> string \<Rightarrow> string \<Rightarrow> string \<Rightarrow> ('w, Reference) zio" where
  "Protect e installation dataset snapshot target =
     ProtectSet e installation dataset (cutBefore snapshot (CHR ''@'')) [snapshot] target"

subsection \<open>Checkpoints\<close>

fun missingSources :: "State \<Rightarrow> string \<Rightarrow> Reference \<Rightarrow> (string, nat) gomap \<Rightarrow> ReferenceSource list \<Rightarrow> ReferenceSource list result" where
  "missingSources state lineage r verified [] = Inr []"
| "missingSources state lineage r verified (source # sources) =
     (let name = sourceSnapshot r (rs_Dataset source);
          mismatch = Errorf ''destination snapshot GUID does not match source: %s'' [Arg name];
          guid = mget verified name in
      if guid \<noteq> None \<and> guid \<noteq> Some (rs_GUID source) then Inl mismatch
      else if hasObject state (sourceBookmark r (rs_Dataset source)) then missingSources state lineage r verified sources
      else if guid = None \<or> guid = Some 0 then Inl mismatch
      else bindE (findOwned state (rs_Dataset source) name lineage) (\<lambda>(snap, metadata).
        if sn_GUID snap \<noteq> rs_GUID source \<or> metadata \<noteq> rf_Metadata r \<or> referenceHold r \<notin> set (sn_Holds snap)
        then Inl (Errorf ''source GUID or protecting hold changed'' [])
        else bindE (missingSources state lineage r verified sources) (\<lambda>rest. Inr (source # rest))))"

definition checkpointPlan :: "State \<Rightarrow> string \<Rightarrow> Reference \<Rightarrow> (string, nat) gomap \<Rightarrow> ReferenceSource list \<Rightarrow> ReferenceSource list result" where
  "checkpointPlan state lineage r verified sources =
     (if sources = [] \<or> rs_Dataset (hd sources) \<noteq> rf_Dataset r
      then Inl (Errorf ''stream snapshot is not protected: %s'' [Arg (referenceSnapshot r)])
      else
        (case find (\<lambda>name. \<not> list_ex (\<lambda>s. sourceSnapshot r (rs_Dataset s) = name) sources) (mkeys verified) of
           Some name \<Rightarrow> Inl (Errorf ''reference proof does not protect %s'' [Arg name])
         | None \<Rightarrow> missingSources state lineage r verified sources))"

definition CheckpointSet :: "'w Executor \<Rightarrow> string \<Rightarrow> string \<Rightarrow> Reference \<Rightarrow> (string, nat) gomap \<Rightarrow> ('w, unit) zio" where
  "CheckpointSet e installation dataset r verified =
     lock dataset
    (ioBind (referenceState e installation dataset r) (\<lambda>(state, lineage, sources).
     ioBind (ioLift (checkpointPlan state lineage r verified sources)) (\<lambda>missing.
     if missing = [] then ioReturn ()
     else
     ioBind (proofUnchanged e dataset [rf_Dataset r] (subtreeOf r) state) (\<lambda>_.
     ioEach (\<lambda>s. zBookmark e (sourceSnapshot r (rs_Dataset s)) (sourceBookmark r (rs_Dataset s))) missing))))"

definition Checkpoint :: "'w Executor \<Rightarrow> string \<Rightarrow> string \<Rightarrow> Reference \<Rightarrow> nat \<Rightarrow> ('w, unit) zio" where
  "Checkpoint e installation dataset r verifiedGUID = CheckpointSet e installation dataset r [(referenceSnapshot r, verifiedGUID)]"

subsection \<open>Releasing\<close>

definition heldIntact :: "State \<Rightarrow> string \<Rightarrow> Reference \<Rightarrow> ReferenceSource \<Rightarrow> bool" where
  "heldIntact state lineage r source =
     (case findOwned state (rs_Dataset source) (sourceSnapshot r (rs_Dataset source)) lineage of
        Inl _ \<Rightarrow> False
      | Inr (snap, metadata) \<Rightarrow> sn_GUID snap = rs_GUID source \<and> metadata = rf_Metadata r)"

text \<open>Each source with whether it has a bookmark and whether it has a hold.\<close>

fun releaseItems :: "State \<Rightarrow> string \<Rightarrow> Reference \<Rightarrow> ReferenceSource list \<Rightarrow> (ReferenceSource \<times> bool \<times> bool) list result" where
  "releaseItems state lineage r [] = Inr []"
| "releaseItems state lineage r (source # sources) =
     (let hasBookmark = hasObject state (sourceBookmark r (rs_Dataset source));
          hasHold = heldBy state r (sourceSnapshot r (rs_Dataset source)) in
      if hasHold \<and> \<not> heldIntact state lineage r source then Inl (Errorf ''held snapshot ownership changed'' [])
      else bindE (releaseItems state lineage r sources) (\<lambda>rest. Inr ((source, hasBookmark, hasHold) # rest)))"

definition releaseItem :: "'w Executor \<Rightarrow> Reference \<Rightarrow> ReferenceSource \<times> bool \<times> bool \<Rightarrow> ('w, unit) zio" where
  "releaseItem e r item =
     (case item of (source, hasBookmark, hasHold) \<Rightarrow>
        ioBind (if hasBookmark then zDestroyBookmark e (sourceBookmark r (rs_Dataset source)) else ioReturn ()) (\<lambda>_.
        if hasHold then zRelease e (referenceHold r) (sourceSnapshot r (rs_Dataset source)) else ioReturn ()))"

definition ReleaseReference :: "'w Executor \<Rightarrow> string \<Rightarrow> string \<Rightarrow> Reference \<Rightarrow> ('w, unit) zio" where
  "ReleaseReference e installation dataset r =
     lock dataset
    (ioBind (referenceState e installation dataset r) (\<lambda>(state, lineage, sources).
     ioBind (ioLift (releaseItems state lineage r sources)) (\<lambda>found.
     ioBind (proofUnchanged e dataset [rf_Dataset r] (subtreeOf r) state) (\<lambda>_.
     ioBind (ioEach (releaseItem e r) found) (\<lambda>_.
     zInheritProperty e dataset (referenceProperty r))))))"

fun completedHolds :: "State \<Rightarrow> string \<Rightarrow> Reference \<Rightarrow> ReferenceSource list \<Rightarrow> ReferenceSource list result" where
  "completedHolds state lineage r [] = Inr []"
| "completedHolds state lineage r (source # sources) =
     (if \<not> heldBy state r (sourceSnapshot r (rs_Dataset source)) then completedHolds state lineage r sources
      else if \<not> heldIntact state lineage r source then Inl (Errorf ''held snapshot proof changed'' [])
      else if \<not> hasObject state (sourceBookmark r (rs_Dataset source)) then Inl (Errorf ''verified checkpoint is missing'' [])
      else bindE (completedHolds state lineage r sources) (\<lambda>rest. Inr (source # rest)))"

definition ReleaseCompletedHold :: "'w Executor \<Rightarrow> string \<Rightarrow> string \<Rightarrow> Reference \<Rightarrow> ('w, unit) zio" where
  "ReleaseCompletedHold e installation dataset r =
     lock dataset
    (ioBind (referenceState e installation dataset r) (\<lambda>(state, lineage, sources).
     ioBind (ioLift (completedHolds state lineage r sources)) (\<lambda>held.
     if held = [] then ioReturn ()
     else
     ioBind (proofUnchanged e dataset [rf_Dataset r] (subtreeOf r) state) (\<lambda>_.
     ioEach (\<lambda>s. zRelease e (referenceHold r) (sourceSnapshot r (rs_Dataset s))) held))))"

subsection \<open>The abstract protocol\<close>

text \<open>
  What the operations promise about one proof, whatever the backend does: a state that says whether the record is on the root and which holds and
  bookmarks it accounts for, and the writes that are allowed in it. A hold or bookmark is only ever made under a stored record, only
  what the proof accounts for is removed, and the record goes last.
\<close>

record proofState =
  ps_Proved :: bool
  ps_Held :: "string set"
  ps_Marked :: "string set"

fun protocolStep :: "string \<Rightarrow> Reference \<Rightarrow> zwrite \<Rightarrow> proofState \<Rightarrow> proofState option" where
  "protocolStep root r (SetProps d kvs) s =
     (if d = root \<and> map fst kvs = [referenceProperty r] \<and> \<not> ps_Proved s then Some (s\<lparr>ps_Proved := True\<rparr>) else None)"
| "protocolStep root r (AddHold tag x) s =
     (if ps_Proved s \<and> tag = referenceHold r then Some (s\<lparr>ps_Held := insert x (ps_Held s)\<rparr>) else None)"
| "protocolStep root r (MakeBookmark x b) s =
     (if ps_Proved s \<and> x \<in> ps_Held s then Some (s\<lparr>ps_Marked := insert b (ps_Marked s)\<rparr>) else None)"
| "protocolStep root r (DestroyMark b) s =
     (if ps_Proved s \<and> b \<in> ps_Marked s then Some (s\<lparr>ps_Marked := ps_Marked s - {b}\<rparr>) else None)"
| "protocolStep root r (ReleaseHold tag x) s =
     (if ps_Proved s \<and> tag = referenceHold r \<and> x \<in> ps_Held s then Some (s\<lparr>ps_Held := ps_Held s - {x}\<rparr>) else None)"
| "protocolStep root r (InheritProp d p) s =
     (if d = root \<and> p = referenceProperty r \<and> ps_Proved s \<and> ps_Held s = {} \<and> ps_Marked s = {} then Some (s\<lparr>ps_Proved := False\<rparr>) else None)"
| "protocolStep root r _ s = None"

fun protocolRun :: "string \<Rightarrow> Reference \<Rightarrow> zwrite list \<Rightarrow> proofState \<Rightarrow> proofState option" where
  "protocolRun root r [] s = Some s"
| "protocolRun root r (c # cs) s = (case protocolStep root r c s of Some s' \<Rightarrow> protocolRun root r cs s' | None \<Rightarrow> None)"

lemma protocolRun_append:
  "protocolRun root r (cs @ ds) s = (case protocolRun root r cs s of Some s' \<Rightarrow> protocolRun root r ds s' | None \<Rightarrow> None)"
  by (induction cs arbitrary: s) (auto split: option.splits)

lemma protocolRun_prefix: "protocolRun root r cs s = Some t \<Longrightarrow> prefix ds cs \<Longrightarrow> \<exists>u. protocolRun root r ds s = Some u"
  by (auto simp: prefix_def protocolRun_append split: option.splits)

text \<open>What a state read from ZFS says about a proof: \<open>D\<close> are the datasets whose snapshots and bookmarks it may account for.\<close>

definition proofView :: "string \<Rightarrow> Reference \<Rightarrow> string set \<Rightarrow> State \<Rightarrow> proofState" where
  "proofView root r D state =
     \<lparr>ps_Proved = (\<exists>p \<in> set (st_Properties state). p_Dataset p = root \<and> p_Name p = referenceProperty r \<and> p_Source p = SourceLocal),
      ps_Held = {x \<in> sourceSnapshot r ` D. heldBy state r x}, ps_Marked = {b \<in> sourceBookmark r ` D. hasObject state b}\<rparr>"

subsection \<open>The plans\<close>

lemma names_inj [simp]:
  "sourceSnapshot r d = sourceSnapshot r d' \<longleftrightarrow> d = d'" "sourceBookmark r d = sourceBookmark r d' \<longleftrightarrow> d = d'"
  by (simp_all add: sourceSnapshot_def sourceBookmark_def)

lemma objectNamed_None: "objectNamed state name = None \<longleftrightarrow> \<not> hasObject state name"
  by (auto simp: objectNamed_def hasObject_def find_None_iff list_ex_iff)

lemma sourceAt_spec:
  "sourceAt r state d = Inr s \<Longrightarrow>
     (case s of Some x \<Rightarrow> rs_Dataset x = d \<and> (heldBy state r (sourceSnapshot r d) \<or> hasObject state (sourceBookmark r d))
      | None \<Rightarrow> \<not> heldBy state r (sourceSnapshot r d) \<and> \<not> hasObject state (sourceBookmark r d))"
  by (auto simp: sourceAt_def Let_def heldBy_def objectNamed_None [symmetric] split: if_splits option.splits)

lemma collectSources_datasets:
  "collectSources r state ds = Inr ss \<Longrightarrow>
     map rs_Dataset ss = filter (\<lambda>d. heldBy state r (sourceSnapshot r d) \<or> hasObject state (sourceBookmark r d)) ds"
proof (induction ds arbitrary: ss)
  case (Cons d ds)
  from Cons.prems obtain s ss' where s: "sourceAt r state d = Inr s" and ss': "collectSources r state ds = Inr ss'"
    and ss: "ss = (case s of Some x \<Rightarrow> x # ss' | None \<Rightarrow> ss')" by (auto simp: result_iffs)
  show ?case using sourceAt_spec [OF s] Cons.IH [OF ss'] ss by (auto split: option.splits)
qed simp

lemma collectReferences_mem:
  "collectReferences root lineage seen ps = Inr refs \<Longrightarrow> r \<in> set refs \<Longrightarrow>
     \<exists>p \<in> set ps. p_Dataset p = root \<and> p_Source p = SourceLocal \<and> decodeReference p root lineage = Inr r"
proof (induction ps arbitrary: seen refs)
  case (Cons p ps)
  show ?case
  proof (cases "p_Dataset p \<noteq> root \<or> \<not> HasPrefix (p_Name p) ReferencePrefix \<or> p_Source p \<noteq> SourceLocal")
    case True
    with Cons show ?thesis by fastforce
  next
    case False
    with Cons.prems(1) obtain q refs' where q: "decodeReference p root lineage = Inr q"
      and rest: "collectReferences root lineage (p_Name p # seen) ps = Inr refs'" "refs = q # refs'"
      by (auto simp: result_iffs split: if_splits sum.splits)
    show ?thesis using Cons.IH [OF rest(1)] Cons.prems(2) rest(2) q False by auto
  qed
qed simp

lemma decodeReference_name: "decodeReference p root lineage = Inr r \<Longrightarrow> p_Name p = referenceProperty r"
  by (auto simp: decodeReference_def Let_def split: if_splits option.splits)

lemma referenceRecords_proved:
  assumes "referenceRecords state root lineage = Inr refs" and "r \<in> set refs"
  shows "ps_Proved (proofView root r D state)"
proof -
  from assms(1) have "collectReferences root lineage [] (st_Properties state) = Inr refs" by (simp add: referenceRecords_def result_iffs)
  from collectReferences_mem [OF this assms(2)] show ?thesis using decodeReference_name by (auto simp: proofView_def)
qed

definition sourceMarks :: "Reference \<Rightarrow> State \<Rightarrow> string \<Rightarrow> zwrite list" where
  "sourceMarks r state d =
     (if hasObject state (sourceBookmark r d) then [DestroyMark (sourceBookmark r d)] else [])
     @ (if heldBy state r (sourceSnapshot r d) then [ReleaseHold (referenceHold r) (sourceSnapshot r d)] else [])"

definition afterRelease :: "Reference \<Rightarrow> string set \<Rightarrow> State \<Rightarrow> proofState" where
  "afterRelease r D state = \<lparr>ps_Proved = True, ps_Held = {x \<in> sourceSnapshot r ` D. heldBy state r x}, ps_Marked = {b \<in> sourceBookmark r ` D. hasObject state b}\<rparr>"

lemma sourceMarks_run:
  "distinct ds \<Longrightarrow> set ds \<subseteq> D \<Longrightarrow> protocolRun root r (concat (map (sourceMarks r state) ds)) (afterRelease r D state) = Some (afterRelease r (D - set ds) state)"
proof (induction ds arbitrary: D)
  case (Cons d ds)
  have "protocolRun root r (sourceMarks r state d) (afterRelease r D state) = Some (afterRelease r (D - {d}) state)"
    using Cons.prems by (auto simp: sourceMarks_def afterRelease_def)
  moreover have "D - {d} - set ds = D - set (d # ds)" by auto
  ultimately show ?case using Cons.IH [of "D - {d}"] Cons.prems by (auto simp: protocolRun_append)
qed simp

lemma releaseItems_Inr:
  "releaseItems state lineage r ss = Inr found \<Longrightarrow>
     found = map (\<lambda>s. (s, hasObject state (sourceBookmark r (rs_Dataset s)), heldBy state r (sourceSnapshot r (rs_Dataset s)))) ss"
  by (induction ss arbitrary: found) (auto simp: Let_def result_iffs split: if_splits)

lemma completedHolds_Inr:
  "completedHolds state lineage r ss = Inr held \<Longrightarrow>
     held = filter (\<lambda>s. heldBy state r (sourceSnapshot r (rs_Dataset s))) ss
     \<and> (\<forall>s \<in> set held. hasObject state (sourceBookmark r (rs_Dataset s)))"
  by (induction ss arbitrary: held) (auto simp: result_iffs split: if_splits)

lemma missingSources_Inr:
  "missingSources state lineage r verified ss = Inr missing \<Longrightarrow>
     missing = filter (\<lambda>s. \<not> hasObject state (sourceBookmark r (rs_Dataset s))) ss
     \<and> (\<forall>s \<in> set missing. heldBy state r (sourceSnapshot r (rs_Dataset s)) \<and> mget verified (sourceSnapshot r (rs_Dataset s)) = Some (rs_GUID s))"
proof (induction ss arbitrary: missing)
  case (Cons s ss)
  show ?case
  proof (cases "hasObject state (sourceBookmark r (rs_Dataset s))")
    case True
    with Cons show ?thesis by (auto simp: Let_def split: if_splits)
  next
    case False
    with Cons.prems obtain snap m rest where own: "findOwned state (rs_Dataset s) (sourceSnapshot r (rs_Dataset s)) lineage = Inr (snap, m)"
      and held: "referenceHold r \<in> set (sn_Holds snap)" and rest: "missingSources state lineage r verified ss = Inr rest" "missing = s # rest"
      and guid: "mget verified (sourceSnapshot r (rs_Dataset s)) = Some (rs_GUID s)"
      by (auto simp: Let_def result_iffs split: if_splits prod.splits)
    have "heldBy state r (sourceSnapshot r (rs_Dataset s))"
      using own held by (auto simp: findOwned_def heldBy_def snapshotsIn_def snapshotOf_def result_iffs dest!: find_SomeD split: option.splits)
    with Cons.IH [OF rest(1)] rest(2) guid False show ?thesis by auto
  qed
qed simp

subsection \<open>Runs\<close>

abbreviation anyWrite :: "zevent list \<Rightarrow> zwrite \<Rightarrow> bool" where "anyWrite \<equiv> \<lambda>_ _. True"

lemma guardedLog_anyWrite [simp]: "guardedLog anyWrite l"
  by (simp add: guardedLog_def)

lemma issues_lift:
  assumes "\<And>x. r = Inr x \<Longrightarrow> issues G (f x) W"
  shows "issues G (ioBind (ioLift r) f) W"
  using assms by (cases r) (auto simp: issues_fail)

lemma issues_if: "(b \<Longrightarrow> issues G m W) \<Longrightarrow> (\<not> b \<Longrightarrow> issues G n W) \<Longrightarrow> issues G (if b then m else n) W"
  by simp

lemma issues_seq: "issues G m W \<Longrightarrow> (\<And>x. issues G (f x) V) \<Longrightarrow> U = W @ V \<Longrightarrow> issues G (ioBind m f) U"
  by (simp add: issues_bind)

lemma inspectMembers_quiet: "issues G (inspectMembers (logged e) subtree inventory state ds) []"
proof (induction ds arbitrary: state)
  case (Cons d ds)
  show ?case unfolding inspectMembers.simps logged_simps
    by (intro issues_if Cons.IH issues_seq [OF issues_read Cons.IH]) simp_all
qed (simp only: inspectMembers.simps issues_return)

lemma proofScope_quiet: "issues G (proofScope (logged e) root ds subtree) []"
  unfolding proofScope_def Let_def logged_simps
  by (intro issues_seq [OF issues_read] issues_if) (simp_all add: issues_return inspectMembers_quiet)

lemma proofUnchanged_quiet: "issues G (proofUnchanged (logged e) root ds subtree state) []"
  unfolding proofUnchanged_def
  by (intro issues_seq [OF proofScope_quiet] issues_if) (simp_all add: issues_return issues_fail)

text \<open>What \<open>referenceState\<close> has established when it returns: the state is the one the proof's scope was read as at the start.\<close>

definition proofEvidence :: "'w Executor \<Rightarrow> 'w \<Rightarrow> string \<Rightarrow> string \<Rightarrow> Reference \<Rightarrow> State \<Rightarrow> string \<Rightarrow> ReferenceSource list \<Rightarrow> bool" where
  "proofEvidence e w installation root r state lineage sources \<longleftrightarrow>
     fst (proofScope e root [rf_Dataset r] (subtreeOf r) w) = Inr state \<and> scopeReady state root = None
     \<and> RootAuthority state root installation = Inr lineage \<and> (\<exists>refs. referenceRecords state root lineage = Inr refs \<and> r \<in> set refs)
     \<and> Sources r state = Inr sources"

lemma proofScope_runs:
  "runs (\<lambda>x. x = (w, [])) (proofScope (logged e) root ds subtree)
     (\<lambda>state x. writes (snd x) = [] \<and> fst (proofScope (logged e) root ds subtree (w, [])) = Inr state) (\<lambda>_ x. writes (snd x) = [])"
  (is "runs _ ?m _ _")
  unfolding runs_def
proof (intro allI impI)
  fix x y x'
  assume x: "x = (w, [])" and run: "?m x = (y, x')"
  have "issued anyWrite [] x" by (simp add: x issued_def)
  from runsD [OF issuesD [OF proofScope_quiet] this run] run x
  show "case y of Inl err \<Rightarrow> writes (snd x') = [] | Inr state \<Rightarrow> writes (snd x') = [] \<and> fst (?m (w, [])) = Inr state"
    by (auto simp: issued_def issuedPart_def split: sum.splits)
qed

lemma referenceState_runs:
  "runs (\<lambda>x. x = (w, [])) (referenceState (logged e) installation root r)
     (\<lambda>y x. writes (snd x) = [] \<and> proofEvidence (logged e) (w, []) installation root r (fst y) (fst (snd y)) (snd (snd y)))
     (\<lambda>_ x. writes (snd x) = [])"
  unfolding referenceState_def
  by (intro runs_check runs_bind [OF proofScope_runs] runs_bind_lift runs_if runs_fail runs_return) (auto simp: proofEvidence_def)

lemma reference_plan_runs:
  assumes "\<And>state p. issues anyWrite (body state p) (W p)"
  shows "runs (\<lambda>x. x = (w, [])) (ioBind (referenceState (logged e) installation root r) (\<lambda>(state, lineage, sources).
       ioBind (ioLift (planf state lineage sources)) (body state)))
     (\<lambda>_ x. \<exists>state lineage sources p. proofEvidence (logged e) (w, []) installation root r state lineage sources
        \<and> planf state lineage sources = Inr p \<and> writes (snd x) = W p)
     (\<lambda>_ x. writes (snd x) = [] \<or> (\<exists>state lineage sources p. proofEvidence (logged e) (w, []) installation root r state lineage sources
        \<and> planf state lineage sources = Inr p \<and> prefix (writes (snd x)) (W p)))"
  (is "runs _ _ ?Q ?E")
proof (rule runs_bind)
  show "runs (\<lambda>x. x = (w, [])) (referenceState (logged e) installation root r)
     (\<lambda>y x. writes (snd x) = [] \<and> proofEvidence (logged e) (w, []) installation root r (fst y) (fst (snd y)) (snd (snd y))) ?E"
    by (rule runs_weaken [OF referenceState_runs]) auto
  fix y :: "State \<times> string \<times> ReferenceSource list"
  obtain state lineage sources where y: "y = (state, lineage, sources)" by (cases y)
  have body: "runs (\<lambda>x. writes (snd x) = []) (body state p) (\<lambda>_ x. writes (snd x) = W p) (\<lambda>_ x. prefix (writes (snd x)) (W p))" for p
    by (rule runs_weaken [OF issuesD [OF assms, of "[]"]]) (auto simp: issued_def issuedPart_def)
  show "runs (\<lambda>x. writes (snd x) = [] \<and> proofEvidence (logged e) (w, []) installation root r (fst y) (fst (snd y)) (snd (snd y)))
      (case y of (state, lineage, sources) \<Rightarrow> ioBind (ioLift (planf state lineage sources)) (body state)) ?Q ?E"
    unfolding y prod.case fst_conv snd_conv
  proof (rule runs_bind_lift)
    fix p
    assume p: "planf state lineage sources = Inr p"
    show "runs (\<lambda>x. writes (snd x) = [] \<and> proofEvidence (logged e) (w, []) installation root r state lineage sources) (body state p) ?Q ?E"
      using body [of p] p unfolding runs_def by (fastforce split: sum.splits)
  qed simp
qed

subsection \<open>The operations follow the protocol\<close>

datatype proofOp = OpCheckpoint "(string, nat) gomap" | OpRelease | OpReleaseHold

fun proofOperation :: "'w Executor \<Rightarrow> string \<Rightarrow> string \<Rightarrow> Reference \<Rightarrow> proofOp \<Rightarrow> ('w, unit) zio" where
  "proofOperation e installation root r (OpCheckpoint verified) = CheckpointSet e installation root r verified"
| "proofOperation e installation root r OpRelease = ReleaseReference e installation root r"
| "proofOperation e installation root r OpReleaseHold = ReleaseCompletedHold e installation root r"

text \<open>What each promises when it succeeds, in terms of the abstract states before and after.\<close>

fun promised :: "proofOp \<Rightarrow> Reference \<Rightarrow> proofState \<Rightarrow> proofState \<Rightarrow> bool" where
  "promised (OpCheckpoint verified) r s t \<longleftrightarrow>
     ps_Proved t \<and> ps_Held t = ps_Held s \<and> ps_Marked s \<subseteq> ps_Marked t \<and> (\<forall>d. sourceSnapshot r d \<in> ps_Held s \<longrightarrow> sourceBookmark r d \<in> ps_Marked t)
     \<and> (\<forall>d. sourceBookmark r d \<in> ps_Marked t - ps_Marked s \<longrightarrow> sourceSnapshot r d \<in> ps_Held s \<and> sourceSnapshot r d \<in> set (mkeys verified))"
| "promised OpRelease r s t \<longleftrightarrow> t = \<lparr>ps_Proved = False, ps_Held = {}, ps_Marked = {}\<rparr>"
| "promised OpReleaseHold r s t \<longleftrightarrow>
     t = s\<lparr>ps_Held := {}\<rparr> \<and> ps_Proved t \<and> (\<forall>d. sourceSnapshot r d \<in> ps_Held s \<longrightarrow> sourceBookmark r d \<in> ps_Marked t)"

definition followed :: "proofOp \<Rightarrow> string \<Rightarrow> Reference \<Rightarrow> State \<Rightarrow> zwrite list \<Rightarrow> bool" where
  "followed op root r state W \<longleftrightarrow>
     (\<exists>t. protocolRun root r W (proofView root r (set (sourceCandidates r state)) state) = Some t
        \<and> promised op r (proofView root r (set (sourceCandidates r state)) state) t)"

lemma evidence_view:
  assumes "proofEvidence e w installation root r state lineage sources"
  shows "proofView root r (set (sourceCandidates r state)) state = afterRelease r (set (map rs_Dataset sources)) state"
    and "distinct (map rs_Dataset sources)"
    and "set (map rs_Dataset sources) = {d \<in> set (sourceCandidates r state). heldBy state r (sourceSnapshot r d) \<or> hasObject state (sourceBookmark r d)}"
proof -
  obtain refs where r: "referenceRecords state root lineage = Inr refs" "r \<in> set refs" and s: "collectSources r state (sourceCandidates r state) = Inr sources"
    using assms by (auto simp: proofEvidence_def Sources_def)
  have proved: "ps_Proved (proofView root r D state)" for D by (rule referenceRecords_proved [OF r])
  note ds = collectSources_datasets [OF s]
  show set: "set (map rs_Dataset sources) = {d \<in> set (sourceCandidates r state). heldBy state r (sourceSnapshot r d) \<or> hasObject state (sourceBookmark r d)}"
    unfolding ds by auto
  show "distinct (map rs_Dataset sources)" unfolding ds by (simp add: sourceCandidates_def distinct_SortCompact)
  show "proofView root r (set (sourceCandidates r state)) state = afterRelease r (set (map rs_Dataset sources)) state"
    using proved unfolding set by (auto simp: proofView_def afterRelease_def)
qed

fun itemWrites :: "Reference \<Rightarrow> ReferenceSource \<times> bool \<times> bool \<Rightarrow> zwrite list" where
  "itemWrites r (s, b, h) =
     (if b then [DestroyMark (sourceBookmark r (rs_Dataset s))] else []) @ (if h then [ReleaseHold (referenceHold r) (sourceSnapshot r (rs_Dataset s))] else [])"

lemma release_followed:
  assumes ev: "proofEvidence e w installation root r state lineage sources" and found: "releaseItems state lineage r sources = Inr found"
  shows "followed OpRelease root r state (concat (map (itemWrites r) found) @ [InheritProp root (referenceProperty r)])"
proof -
  have "map (itemWrites r) found = map (sourceMarks r state) (map rs_Dataset sources)"
    using releaseItems_Inr [OF found] by (simp add: sourceMarks_def)
  then show ?thesis
    using sourceMarks_run [OF evidence_view(2) [OF ev] order.refl, of root]
    by (simp add: followed_def evidence_view(1) [OF ev] protocolRun_append) (simp add: afterRelease_def)
qed

lemma protocol_bookmarks:
  "(\<And>d. d \<in> set ds \<Longrightarrow> sourceSnapshot r d \<in> ps_Held s) \<Longrightarrow> ps_Proved s \<Longrightarrow>
     protocolRun root r (map (\<lambda>d. MakeBookmark (sourceSnapshot r d) (sourceBookmark r d)) ds) s
       = Some (s\<lparr>ps_Marked := sourceBookmark r ` set ds \<union> ps_Marked s\<rparr>)"
  by (induction ds arbitrary: s) auto

lemma protocol_releases:
  "distinct ds \<Longrightarrow> (\<And>d. d \<in> set ds \<Longrightarrow> sourceSnapshot r d \<in> ps_Held s) \<Longrightarrow> ps_Proved s \<Longrightarrow>
     protocolRun root r (map (\<lambda>d. ReleaseHold (referenceHold r) (sourceSnapshot r d)) ds) s
       = Some (s\<lparr>ps_Held := ps_Held s - sourceSnapshot r ` set ds\<rparr>)"
proof (induction ds arbitrary: s)
  case (Cons d ds)
  let ?t = "s\<lparr>ps_Held := ps_Held s - {sourceSnapshot r d}\<rparr>"
  have "sourceSnapshot r x \<in> ps_Held ?t" if "x \<in> set ds" for x
  proof -
    have "x \<noteq> d" "sourceSnapshot r x \<in> ps_Held s" using Cons.prems(1,2) that by auto
    then show ?thesis by simp
  qed
  then have "protocolRun root r (map (\<lambda>d. ReleaseHold (referenceHold r) (sourceSnapshot r d)) ds) ?t
      = Some (?t\<lparr>ps_Held := ps_Held ?t - sourceSnapshot r ` set ds\<rparr>)"
    using Cons.prems(1,3) by (intro Cons.IH) simp_all
  moreover have "sourceSnapshot r d \<in> ps_Held s" using Cons.prems(2) by simp
  moreover have "ps_Held s - sourceSnapshot r ` set (d # ds) = ps_Held ?t - sourceSnapshot r ` set ds" by auto
  ultimately show ?case using Cons.prems(3) by simp
qed simp

lemma checkpoint_followed:
  assumes ev: "proofEvidence e w installation root r state lineage sources" and plan: "checkpointPlan state lineage r verified sources = Inr missing"
  shows "followed (OpCheckpoint verified) root r state
    (map (\<lambda>s. MakeBookmark (sourceSnapshot r (rs_Dataset s)) (sourceBookmark r (rs_Dataset s))) missing)"
proof -
  have "missingSources state lineage r verified sources = Inr missing"
    using plan by (auto simp: checkpointPlan_def split: if_splits option.splits)
  note miss = missingSources_Inr [OF this]
  let ?ds = "map rs_Dataset missing" and ?s = "proofView root r (set (sourceCandidates r state)) state"
  note view = evidence_view(1) [OF ev]
  have held: "sourceSnapshot r d \<in> ps_Held ?s" if "d \<in> set ?ds" for d
    using that miss unfolding view by (auto simp: afterRelease_def)
  have proved: "ps_Proved ?s" unfolding view by (simp add: afterRelease_def)
  have given: "sourceSnapshot r d \<in> set (mkeys verified)" if "d \<in> set ?ds" for d
  proof -
    have "mget verified (sourceSnapshot r d) \<noteq> None" using that miss by auto
    then show ?thesis by (simp add: mget_None_iff)
  qed
  have marked: "sourceBookmark r d \<in> sourceBookmark r ` set ?ds \<union> ps_Marked ?s" if "sourceSnapshot r d \<in> ps_Held ?s" for d
    using that miss unfolding view by (auto simp: afterRelease_def)
  have "protocolRun root r (map (\<lambda>d. MakeBookmark (sourceSnapshot r d) (sourceBookmark r d)) ?ds) ?s
      = Some (?s\<lparr>ps_Marked := sourceBookmark r ` set ?ds \<union> ps_Marked ?s\<rparr>)"
    by (rule protocol_bookmarks [OF held proved])
  moreover have "promised (OpCheckpoint verified) r ?s (?s\<lparr>ps_Marked := sourceBookmark r ` set ?ds \<union> ps_Marked ?s\<rparr>)"
    using proved held given marked by auto
  ultimately show ?thesis unfolding followed_def map_map comp_def by blast
qed

lemma releaseHold_followed:
  assumes ev: "proofEvidence e w installation root r state lineage sources" and plan: "completedHolds state lineage r sources = Inr held"
  shows "followed OpReleaseHold root r state (map (\<lambda>s. ReleaseHold (referenceHold r) (sourceSnapshot r (rs_Dataset s))) held)"
proof -
  note h = completedHolds_Inr [OF plan]
  let ?ds = "map rs_Dataset held" and ?s = "proofView root r (set (sourceCandidates r state)) state"
  note view = evidence_view(1) [OF ev]
  have proved: "ps_Proved ?s" unfolding view by (simp add: afterRelease_def)
  have all: "ps_Held ?s = sourceSnapshot r ` set ?ds" unfolding view using h by (auto simp: afterRelease_def)
  have marked: "sourceBookmark r d \<in> ps_Marked ?s" if "d \<in> set ?ds" for d
    using that h unfolding view by (auto simp: afterRelease_def)
  have "distinct ?ds" using evidence_view(2) [OF ev] h by (metis distinct_map_filter)
  from protocol_releases [OF this, of r ?s root] all proved
  have "protocolRun root r (map (\<lambda>d. ReleaseHold (referenceHold r) (sourceSnapshot r d)) ?ds) ?s = Some (?s\<lparr>ps_Held := {}\<rparr>)" by simp
  moreover have "promised OpReleaseHold r ?s (?s\<lparr>ps_Held := {}\<rparr>)" using proved all marked by auto
  ultimately show ?thesis unfolding followed_def map_map comp_def by blast
qed

lemma releaseItem_issues: "issues anyWrite (releaseItem (logged e) r item) (itemWrites r item)"
proof -
  obtain s b h where item: "item = (s, b, h)" by (cases item)
  show ?thesis unfolding item releaseItem_def prod.case itemWrites.simps logged_simps
    by (rule issues_bind) (auto simp: issues_return issues_write)
qed

lemma each_issues: "(\<And>x. issues G (f x) [c x]) \<Longrightarrow> issues G (ioEach f xs) (map c xs)"
  using issues_each [of G f "\<lambda>x. [c x]" xs] by (simp add: concat_map_singleton)

lemma operation_follows:
  assumes run: "lock root (ioBind (referenceState (logged e) installation root r) (\<lambda>(state, lineage, sources).
       ioBind (ioLift (planf state lineage sources)) (body state))) (w, []) = (res, (w', l))"
    and body: "\<And>state p. issues anyWrite (body state p) (W p)"
    and plan: "\<And>state lineage sources p. proofEvidence (logged e) (w, []) installation root r state lineage sources \<Longrightarrow>
       planf state lineage sources = Inr p \<Longrightarrow> followed op root r state (W p)"
  shows "(\<not> is_ok res \<and> writes l = [])
    \<or> (\<exists>state lineage sources t. proofEvidence (logged e) (w, []) installation root r state lineage sources
        \<and> protocolRun root r (writes l) (proofView root r (set (sourceCandidates r state)) state) = Some t
        \<and> (is_ok res \<longrightarrow> promised op r (proofView root r (set (sourceCandidates r state)) state) t))"
proof (cases "validateDataset root")
  case (Some err)
  with run show ?thesis by (auto simp: lock_def)
next
  case None
  then have "ioBind (referenceState (logged e) installation root r) (\<lambda>(state, lineage, sources).
       ioBind (ioLift (planf state lineage sources)) (body state)) (w, []) = (res, (w', l))" using run by (simp add: lock_def)
  note post = runsD [OF reference_plan_runs [OF body] refl this]
  show ?thesis
  proof (cases res)
    case (Inl err)
    then show ?thesis using post plan unfolding followed_def by simp (meson protocolRun_prefix)
  next
    case (Inr u)
    then show ?thesis using post plan unfolding followed_def by simp metis
  qed
qed

text \<open>
  C32: Checkpointing, releasing a finished hold and releasing a proof refine the abstract protocol. In every run, on any backend and with any outcome,
  either nothing was written and the operation failed, or the proof was stored under proved authority in the
  scope as first read and the writes made so far are ones the protocol allows from there; and a run that
  succeeds ends in the promised abstract state: every hold checkpointed by verified bookmarks, no hold
  left, or nothing left of the proof.
\<close>

theorem proof_operations_refine_protocol:
  assumes run: "proofOperation (logged e) installation root r op (w, []) = (res, (w', l))"
  shows "(\<not> is_ok res \<and> writes l = [])
    \<or> (\<exists>state lineage sources t. proofEvidence (logged e) (w, []) installation root r state lineage sources
        \<and> protocolRun root r (writes l) (proofView root r (set (sourceCandidates r state)) state) = Some t
        \<and> (is_ok res \<longrightarrow> promised op r (proofView root r (set (sourceCandidates r state)) state) t))"
proof (cases op)
  case (OpCheckpoint verified)
  note run = run [unfolded OpCheckpoint proofOperation.simps CheckpointSet_def]
  show ?thesis unfolding OpCheckpoint
  proof (rule operation_follows [OF run])
    show "issues anyWrite (if p = [] then ioReturn () else ioBind (proofUnchanged (logged e) root [rf_Dataset r] (subtreeOf r) state) (\<lambda>_.
        ioEach (\<lambda>s. zBookmark (logged e) (sourceSnapshot r (rs_Dataset s)) (sourceBookmark r (rs_Dataset s))) p))
      (map (\<lambda>s. MakeBookmark (sourceSnapshot r (rs_Dataset s)) (sourceBookmark r (rs_Dataset s))) p)" for state p
      unfolding logged_simps
      by (intro issues_if issues_seq [OF proofUnchanged_quiet]) (auto simp: issues_return intro!: each_issues issues_write)
  qed (rule checkpoint_followed)
next
  case OpRelease
  note run = run [unfolded OpRelease proofOperation.simps ReleaseReference_def]
  show ?thesis unfolding OpRelease
  proof (rule operation_follows [OF run])
    show "issues anyWrite (ioBind (proofUnchanged (logged e) root [rf_Dataset r] (subtreeOf r) state) (\<lambda>_.
        ioBind (ioEach (releaseItem (logged e) r) p) (\<lambda>_. zInheritProperty (logged e) root (referenceProperty r))))
      (concat (map (itemWrites r) p) @ [InheritProp root (referenceProperty r)])" for state p
      unfolding logged_simps
      by (rule issues_seq [OF proofUnchanged_quiet]) (auto intro!: issues_bind issues_each releaseItem_issues issues_write)
  qed (rule release_followed)
next
  case OpReleaseHold
  note run = run [unfolded OpReleaseHold proofOperation.simps ReleaseCompletedHold_def]
  show ?thesis unfolding OpReleaseHold
  proof (rule operation_follows [OF run])
    show "issues anyWrite (if p = [] then ioReturn () else ioBind (proofUnchanged (logged e) root [rf_Dataset r] (subtreeOf r) state) (\<lambda>_.
        ioEach (\<lambda>s. zRelease (logged e) (referenceHold r) (sourceSnapshot r (rs_Dataset s))) p))
      (map (\<lambda>s. ReleaseHold (referenceHold r) (sourceSnapshot r (rs_Dataset s))) p)" for state p
      unfolding logged_simps
      by (intro issues_if issues_seq [OF proofUnchanged_quiet]) (auto simp: issues_return intro!: each_issues issues_write)
  qed (rule releaseHold_followed)
qed

subsection \<open>Protecting follows the protocol\<close>

definition protectView :: "string \<Rightarrow> Reference \<Rightarrow> string list \<Rightarrow> State \<Rightarrow> proofState" where
  "protectView root r snapshots state =
     \<lparr>ps_Proved = (\<exists>p \<in> set (st_Properties state). p_Dataset p = root \<and> p_Name p = referenceProperty r \<and> p_Source p = SourceLocal),
      ps_Held = {x \<in> set snapshots. heldBy state r x}, ps_Marked = {}\<rparr>"

lemma collectReferences_complete:
  "collectReferences root lineage seen ps = Inr refs \<Longrightarrow> p \<in> set ps \<Longrightarrow> p_Dataset p = root \<Longrightarrow> p_Source p = SourceLocal \<Longrightarrow>
     HasPrefix (p_Name p) ReferencePrefix \<Longrightarrow> \<exists>q \<in> set refs. referenceProperty q = p_Name p"
proof (induction ps arbitrary: seen refs)
  case (Cons p' ps)
  show ?case
  proof (cases "p_Dataset p' \<noteq> root \<or> \<not> HasPrefix (p_Name p') ReferencePrefix \<or> p_Source p' \<noteq> SourceLocal")
    case True
    with Cons.prems have "collectReferences root lineage seen ps = Inr refs" "p \<in> set ps" by auto
    then show ?thesis by (rule Cons.IH) (rule Cons.prems(3-5))+
  next
    case False
    with Cons.prems(1) obtain q refs' where q: "decodeReference p' root lineage = Inr q"
      and rest: "collectReferences root lineage (p_Name p' # seen) ps = Inr refs'" "refs = q # refs'"
      by (auto simp: result_iffs split: if_splits sum.splits)
    show ?thesis
    proof (cases "p = p'")
      case True
      then show ?thesis using decodeReference_name [OF q] rest(2) by auto
    next
      case False
      with Cons.prems(2) have "p \<in> set ps" by simp
      from Cons.IH [OF rest(1) this Cons.prems(3-5)] rest(2) show ?thesis by auto
    qed
  qed
qed simp

lemma priorProof_spec:
  "priorProof r known refs = Inr (r', known') \<Longrightarrow>
     referenceProperty r' = referenceProperty r \<and> rf_Dataset r' = rf_Dataset r \<and> (r' = r \<or> r' \<in> set refs)
     \<and> known' = (known \<or> (\<exists>q \<in> set refs. referenceProperty q = referenceProperty r))"
  by (induction r known refs rule: priorProof.induct) (auto split: if_splits)

lemma referenceProperty_prefix: "HasPrefix (referenceProperty r) ReferencePrefix"
  unfolding referenceProperty_def by (simp only: HasPrefix_append)

lemma decodeReference_target: "decodeReference p root lineage = Inr r \<Longrightarrow> length (rf_TargetID r) = 64"
  by (auto simp: decodeReference_def Let_def split: if_splits option.splits)

lemma referenceProperty_target:
  assumes "referenceProperty r = referenceProperty q" and "length (rf_TargetID r) = length (rf_TargetID q)"
  shows "rf_TargetID r = rf_TargetID q"
  using assms by (simp add: referenceProperty_def append_eq_append_conv)

lemma protectPlan_Inr:
  assumes "protectPlan installation state root stream snapshots target = Inr (r, known)"
  shows "(\<exists>lineage. RootAuthority state root installation = Inr lineage) \<and> rf_Dataset r = stream \<and> rf_TargetID r = TargetID target
    \<and> known = ps_Proved (protectView root r snapshots state)"
proof -
  let ?r = "\<lambda>instant recursive. \<lparr>rf_TargetID = TargetID target, rf_Dataset = stream,
      rf_Metadata = (case instant of Some m \<Rightarrow> m | None \<Rightarrow> \<lparr>md_Lineage = [], md_Snapshot = [], md_Created = 0\<rparr>), rf_Recursive = recursive\<rparr>"
  from assms obtain lineage instant recursive refs where a: "RootAuthority state root installation = Inr lineage"
    and refs: "referenceRecords state root lineage = Inr refs" and pr0: "priorProof (?r instant recursive) False refs = Inr (r, known)"
    by (auto simp: protectPlan_def result_iffs Let_def split: if_splits prod.splits)
  define r0 where "r0 = ?r instant recursive"
  have pr: "priorProof r0 False refs = Inr (r, known)" and r0: "rf_TargetID r0 = TargetID target" "rf_Dataset r0 = stream"
    using pr0 by (simp_all add: r0_def)
  note sp = priorProof_spec [OF pr]
  have c: "collectReferences root lineage [] (st_Properties state) = Inr refs" using refs by (simp add: referenceRecords_def result_iffs)
  have len: "length (rf_TargetID r0) = 64" by (simp add: r0 TargetID_def EncodeToString_hex length_Sum256)
  have "length (rf_TargetID r) = 64" using sp len collectReferences_mem [OF c] decodeReference_target by metis
  then have "rf_TargetID r = TargetID target" using referenceProperty_target [of r r0] sp len r0 by simp
  moreover have "known = ps_Proved (protectView root r snapshots state)"
  proof
    assume known
    then obtain q where q: "q \<in> set refs" "referenceProperty q = referenceProperty r" using sp by auto
    from referenceRecords_proved [OF refs q(1)] q(2) show "ps_Proved (protectView root r snapshots state)"
      by (simp add: proofView_def protectView_def)
  next
    assume "ps_Proved (protectView root r snapshots state)"
    then obtain p where p: "p \<in> set (st_Properties state)" "p_Dataset p = root" "p_Source p = SourceLocal" "p_Name p = referenceProperty r"
      by (auto simp: protectView_def)
    from collectReferences_complete [OF c p(1-3)] p(4) referenceProperty_prefix sp show known by auto
  qed
  ultimately show ?thesis using a sp r0 by simp
qed

definition protectWrites :: "string \<Rightarrow> Reference \<Rightarrow> bool \<Rightarrow> State \<Rightarrow> string list \<Rightarrow> string \<Rightarrow> zwrite list" where
  "protectWrites root r known state snapshots v =
     (if known then [] else [SetProps root [(referenceProperty r, v)]]) @ map (AddHold (referenceHold r)) (filter (\<lambda>s. \<not> heldBy state r s) snapshots)"

lemma protocol_holds:
  "ps_Proved s \<Longrightarrow> protocolRun root r (map (AddHold (referenceHold r)) xs) s = Some (s\<lparr>ps_Held := set xs \<union> ps_Held s\<rparr>)"
  by (induction xs arbitrary: s) auto

lemma protect_followed:
  assumes "known = ps_Proved (protectView root r snapshots state)"
  shows "\<exists>t. protocolRun root r (protectWrites root r known state snapshots v) (protectView root r snapshots state) = Some t
    \<and> ps_Proved t \<and> set snapshots \<subseteq> ps_Held t"
proof -
  let ?s = "protectView root r snapshots state"
  have "protocolRun root r (if known then [] else [SetProps root [(referenceProperty r, v)]]) ?s = Some (?s\<lparr>ps_Proved := True\<rparr>)"
    using assms by (cases ?s) auto
  then show ?thesis
    by (auto simp: protectWrites_def protocolRun_append protocol_holds protectView_def)
qed

lemma storeProof_issues: "issues anyWrite (storeProof (logged e) root r) [SetProps root [(referenceProperty r, case encodeReference r root of Inr v \<Rightarrow> v | Inl _ \<Rightarrow> [])]]"
  unfolding storeProof_def logged_simps
  by (auto intro!: issues_lift issues_if issues_fail issues_write)

definition proofText :: "Reference \<Rightarrow> string \<Rightarrow> string" where
  "proofText r root = (case encodeReference r root of Inr v \<Rightarrow> v | Inl _ \<Rightarrow> [])"

lemma protectApply_issues:
  "issues anyWrite (protectApply (logged e) root ds snapshots state (r, known)) (protectWrites root r known state snapshots (proofText r root))"
proof -
  let ?u = "filter (\<lambda>s. \<not> heldBy state r s) snapshots"
  have hold: "issues anyWrite (ioBind (ioEach (zHold (logged e) (referenceHold r)) ?u) (\<lambda>_. ioReturn r)) (map (AddHold (referenceHold r)) ?u)"
    by (rule issues_seq [OF each_issues issues_return]) (auto intro!: issues_write)
  have store: "issues anyWrite (if known then ioReturn () else storeProof (logged e) root r)
      (if known then [] else [SetProps root [(referenceProperty r, proofText r root)]])"
    using storeProof_issues by (auto simp: issues_return proofText_def)
  show ?thesis unfolding protectApply_def prod.case Let_def
    by (intro issues_if issues_seq [OF proofUnchanged_quiet issues_bind [OF store hold]]) (auto simp: protectWrites_def issues_return)
qed

lemma protectApply_result: "runs (\<lambda>_. True) (protectApply e root ds snapshots state (r, known)) (\<lambda>r' _. r' = r) (\<lambda>_ _. True)"
proof -
  have any: "runs (\<lambda>_. True) m (\<lambda>_ _. True) (\<lambda>_ _. True)" for m :: "('w, 'x) zio"
    by (auto simp: runs_def split: sum.splits)
  show ?thesis unfolding protectApply_def prod.case Let_def by (intro runs_if runs_return runs_bind [OF any]) auto
qed

lemma protectApply_runs:
  "runs (\<lambda>x. writes (snd x) = []) (protectApply (logged e) root ds snapshots state (r, known))
     (\<lambda>r' x. r' = r \<and> writes (snd x) = protectWrites root r known state snapshots (proofText r root))
     (\<lambda>_ x. prefix (writes (snd x)) (protectWrites root r known state snapshots (proofText r root)))"
  using issuesD [OF protectApply_issues, of "[]" e root ds snapshots state r known] protectApply_result [of "logged e" root ds snapshots state r known]
  unfolding runs_def by (fastforce simp: issued_def issuedPart_def split: sum.splits)

definition protectEvidence :: "'w Executor \<Rightarrow> 'w \<Rightarrow> string \<Rightarrow> string \<Rightarrow> string \<Rightarrow> string list \<Rightarrow> string \<Rightarrow> State \<Rightarrow> Reference \<Rightarrow> bool \<Rightarrow> bool" where
  "protectEvidence e w installation root stream snapshots target state r known \<longleftrightarrow>
     fst (proofScope e root (map (\<lambda>s. cutBefore s (CHR ''@'')) snapshots) [] w) = Inr state
     \<and> protectPlan installation state root stream snapshots target = Inr (r, known)"

lemma ProtectSet_runs:
  "runs (\<lambda>x. x = (w, [])) (ProtectSet (logged e) installation root stream snapshots target)
     (\<lambda>r x. \<exists>state known. protectEvidence (logged e) (w, []) installation root stream snapshots target state r known
        \<and> writes (snd x) = protectWrites root r known state snapshots (proofText r root))
     (\<lambda>_ x. writes (snd x) = [] \<or> (\<exists>state r known. protectEvidence (logged e) (w, []) installation root stream snapshots target state r known
        \<and> prefix (writes (snd x)) (protectWrites root r known state snapshots (proofText r root))))"
  (is "runs _ _ ?Q ?E")
proof -
  let ?ds = "map (\<lambda>s. cutBefore s (CHR ''@'')) snapshots"
  let ?read = "\<lambda>state. fst (proofScope (logged e) root ?ds [] (w, [])) = Inr state"
  have start: "runs (\<lambda>x. x = (w, [])) (proofScope (logged e) root ?ds []) (\<lambda>state x. writes (snd x) = [] \<and> ?read state) ?E"
    by (rule runs_weaken [OF proofScope_runs]) auto
  have "runs (\<lambda>x. writes (snd x) = [] \<and> ?read state) (protectApply (logged e) root ?ds snapshots state y) ?Q ?E"
    if "protectPlan installation state root stream snapshots target = Inr y" for state y
  proof (cases y, rule runs_frame)
    fix r known
    assume "y = (r, known)" and "?read state"
    then have ev: "protectEvidence (logged e) (w, []) installation root stream snapshots target state r known" and y: "y = (r, known)"
      using that by (simp_all add: protectEvidence_def)
    show "runs (\<lambda>x. writes (snd x) = []) (protectApply (logged e) root ?ds snapshots state y) ?Q ?E"
      unfolding y by (rule runs_weaken [OF protectApply_runs]) (use ev in blast)+
  qed
  then show ?thesis unfolding ProtectSet_def lock_def Let_def
    by (intro runs_check runs_bind [OF start] runs_bind_lift) auto
qed

text \<open>
  C33: Protecting a stream's snapshots refines the abstract protocol: the record is on the root before the first hold under it, in every run, on any backend, also one
  that fails halfway. A run that wrote anything had read the scope, proved authority over the root and found a consistent plan; a run that
  succeeds returns that reference, for the stream and target asked for, with the record stored and every given snapshot held.
\<close>

theorem ProtectSet_refines_protocol:
  assumes run: "ProtectSet (logged e) installation root stream snapshots target (w, []) = (res, (w', l))"
  shows "(\<not> is_ok res \<and> writes l = [])
    \<or> (\<exists>state r known t. protectEvidence (logged e) (w, []) installation root stream snapshots target state r known \<and> rf_Dataset r = stream \<and> rf_TargetID r = TargetID target
        \<and> protocolRun root r (writes l) (protectView root r snapshots state) = Some t
        \<and> (is_ok res \<longrightarrow> res = Inr r \<and> ps_Proved t \<and> set snapshots \<subseteq> ps_Held t))"
proof (cases res)
  case (Inl err)
  show ?thesis
  proof (cases "writes l = []")
    case False
    with runsD [OF ProtectSet_runs refl run] Inl obtain state r known
      where ev: "protectEvidence (logged e) (w, []) installation root stream snapshots target state r known"
        and pre: "prefix (writes l) (protectWrites root r known state snapshots (proofText r root))" by auto
    note plan = protectPlan_Inr [OF conjunct2 [OF ev [unfolded protectEvidence_def]]]
    from protect_followed [of known root r snapshots state "proofText r root"] plan
    obtain t where "protocolRun root r (protectWrites root r known state snapshots (proofText r root)) (protectView root r snapshots state) = Some t" by auto
    from protocolRun_prefix [OF this pre] ev plan Inl show ?thesis by auto
  qed (simp add: Inl)
next
  case (Inr r)
  with runsD [OF ProtectSet_runs refl run] obtain state known
    where ev: "protectEvidence (logged e) (w, []) installation root stream snapshots target state r known"
      and W: "writes l = protectWrites root r known state snapshots (proofText r root)" by auto
  note plan = protectPlan_Inr [OF conjunct2 [OF ev [unfolded protectEvidence_def]]]
  from protect_followed [of known root r snapshots state "proofText r root"] plan W ev Inr show ?thesis by auto
qed

subsection \<open>A concrete proof\<close>

text \<open>The owned root \<open>tank\<close> with the record of a proof for the target \<open>nas\<close> whose snapshot is gone.\<close>

definition exMeta :: Metadata where
  "exMeta = \<lparr>md_Lineage = exLineage, md_Snapshot = exLineage, md_Created = 1001 * Minute\<rparr>"

definition exProof :: Reference where
  "exProof = \<lparr>rf_TargetID = TargetID ''nas'', rf_Dataset = ''tank'', rf_Metadata = exMeta, rf_Recursive = False\<rparr>"

lemma exProof_provable: "provable exProof ''tank''"
proof -
  have "list_all isHex (TargetID ''nas'')" "length (TargetID ''nas'') = 64"
    by (simp_all add: TargetID_def EncodeToString_hex length_Sum256)
  moreover have "inside ''tank'' ''tank'' \<and> validDataset ''tank'' \<and> list_all isASCII ''tank'' \<and> Valid exLineage \<and> \<not> IsZero (1001 * Minute) \<and> Year (1001 * Minute) = 1"
    by code_simp
  ultimately show ?thesis by (simp add: provable_def exProof_def exMeta_def)
qed

definition exProofRow :: Property where
  "exProofRow = \<lparr>p_Dataset = ''tank'', p_Name = referenceProperty exProof, p_Value = proofText exProof ''tank'', p_Source = SourceLocal\<rparr>"

definition exProofHost :: State where
  "exProofHost = exTank\<lparr>st_Properties := st_Properties exTank @ [exProofRow]\<rparr>"

lemma exProof_decodes: "decodeReference exProofRow ''tank'' exLineage = Inr exProof"
  using reference_reads_back [OF exProof_provable] by (auto simp: exProofRow_def proofText_def exProof_def exMeta_def)

abbreviation exRow :: "string \<Rightarrow> string \<Rightarrow> Property" where
  "exRow k v \<equiv> \<lparr>p_Dataset = ''tank'', p_Name = k, p_Value = v, p_Source = SourceLocal\<rparr>"

lemma exTank_eq:
  "st_Properties exTank = [exRow LineageProperty exLineage, exRow OwnerProperty exInstallation, exRow VersionProperty ''2'']"
  "st_Objects exTank = [\<lparr>ob_Name = ''tank'', ob_Type = Filesystem, ob_GUID = 7, ob_Creation = 0, ob_CreateTXG = 7\<rparr>]"
  "st_Holds exTank = []" "st_Received exTank = []" "st_ResumeTokens exTank = []" "st_Clones exTank = []"
  using marker_names by (simp_all add: exTank_def memSet_def memAdd_def emptyState_def authorityProperties_eq without_def)

lemma reference_not_marker:
  "referenceProperty r \<notin> {OwnerProperty, LineageProperty, VersionProperty}"
  by (simp add: referenceProperty_def LineageProperty_def)

lemma exTank_authority:
  assumes "filter (\<lambda>p. p_Dataset p = ''tank'' \<and> p_Name p \<in> {OwnerProperty, LineageProperty, VersionProperty}) rows = []"
  shows "RootAuthority (exTank\<lparr>st_Properties := st_Properties exTank @ rows\<rparr>) ''tank'' exInstallation = Inr exLineage"
proof (rule authority_reads_back)
  show "Valid exInstallation" "Valid exLineage" "validDataset ''tank''" by code_simp+
  show "receivedValue (exTank\<lparr>st_Properties := st_Properties exTank @ rows\<rparr>) ''tank'' LineageProperty = []"
    by (simp add: receivedValue_def exTank_eq)
  show "filter (\<lambda>p. p_Dataset p = ''tank'' \<and> p_Name p \<in> {OwnerProperty, LineageProperty, VersionProperty})
      (st_Properties (exTank\<lparr>st_Properties := st_Properties exTank @ rows\<rparr>))
    = map (\<lambda>(k, v). \<lparr>p_Dataset = ''tank'', p_Name = k, p_Value = v, p_Source = SourceLocal\<rparr>) (authorityProperties exInstallation exLineage)"
    using assms by (simp add: exTank_eq authorityProperties_eq)
qed

lemma exProofHost_read: "memInspect ''tank'' False exProofHost = (Inr exProofHost, exProofHost)"
proof -
  have t: "inScope ''tank'' False ''tank''" by code_simp
  show ?thesis by (simp add: memInspect_def exProofHost_def exTank_eq exProofRow_def t)
qed

lemma exProofHost_authority: "RootAuthority exProofHost ''tank'' exInstallation = Inr exLineage"
  unfolding exProofHost_def using reference_not_marker [of exProof] by (intro exTank_authority) (simp add: exProofRow_def)

lemma exTank_not_reference: "\<not> HasPrefix LineageProperty ReferencePrefix" "\<not> HasPrefix ''owner'' ''reference:''" "\<not> HasPrefix ''version'' ''reference:''"
  by code_simp+

lemma exProofHost_records: "referenceRecords exProofHost ''tank'' exLineage = Inr [exProof]"
proof -
  have v: "CurrentState exProofHost ''tank'' = None" using exProofHost_authority by (simp add: RootAuthority_iff)
  have "HasPrefix (p_Name exProofRow) ReferencePrefix" "p_Dataset exProofRow = ''tank''" "p_Source exProofRow = SourceLocal"
    by (simp_all add: exProofRow_def referenceProperty_prefix)
  then have "collectReferences ''tank'' exLineage [] (st_Properties exProofHost) = Inr [exProof]"
    using exProof_decodes by (simp add: exProofHost_def exTank_eq exTank_not_reference)
  then show ?thesis by (simp add: referenceRecords_def recordsReadable_def v)
qed

lemma exProofHost_sources: "Sources exProof exProofHost = Inr []"
proof -
  have "rf_Dataset exProof = ''tank''" by (simp add: exProof_def)
  moreover have "hasObject exProofHost b \<longleftrightarrow> b = ''tank''" for b by (auto simp: hasObject_def exProofHost_def exTank_eq)
  moreover have "sourceBookmark exProof d \<noteq> ''tank''" for d
  proof -
    have "CHR ''#'' \<in> set (sourceBookmark exProof d)" by (simp add: sourceBookmark_def)
    then show ?thesis by auto
  qed
  ultimately show ?thesis
    by (simp add: Sources_def sourceCandidates_def exProofHost_def exTank_eq isDataset_def SortCompact_def sourceAt_def Let_def objectNamed_None)
qed

lemma exRelease:
  "\<exists>x. proofOperation (logged memory) exInstallation ''tank'' exProof OpRelease (exProofHost, []) = (Inr (), x) \<and> writes (snd x) = [InheritProp ''tank'' (referenceProperty exProof)]"
proof -
  have f: "rf_Dataset exProof = ''tank''" "subtreeOf exProof = []" by (simp_all add: exProof_def subtreeOf_def)
  have read: "zInspectState (logged memory) ''tank'' False (exProofHost, l) = (Inr exProofHost, (exProofHost, l @ [Read ''tank'' False (Inr exProofHost)]))" for l
    by (simp add: noting_def exProofHost_read)
  have scope: "proofScope (logged memory) ''tank'' [''tank''] [] (exProofHost, l) = (Inr exProofHost, (exProofHost, l @ [Read ''tank'' False (Inr exProofHost)]))" for l
    by (simp add: proofScope_def wantedDatasets_def ioBind_def read del: logged_simps)
  have v: "validateDataset ''tank'' = None" by code_simp
  have ready: "scopeReady exProofHost ''tank'' = None" by (simp add: scopeReady_def exProofHost_def exTank_eq isDataset_def)
  have state: "referenceState (logged memory) exInstallation ''tank'' exProof (exProofHost, []) = (Inr (exProofHost, exLineage, []), (exProofHost, [Read ''tank'' False (Inr exProofHost)]))"
    by (simp add: referenceState_def f v ioBind_def scope ready exProofHost_authority exProofHost_records exProofHost_sources)
  show ?thesis
    by (simp add: ReleaseReference_def lock_def v ioBind_def state f proofUnchanged_def scope noting_def effect_def)
qed

theorem proof_operations_refine_protocol_witness:
  "\<exists>state t. protocolRun ''tank'' exProof [InheritProp ''tank'' (referenceProperty exProof)] (proofView ''tank'' exProof (set (sourceCandidates exProof state)) state) = Some t
     \<and> t = \<lparr>ps_Proved = False, ps_Held = {}, ps_Marked = {}\<rparr>"
proof -
  from exRelease obtain w l where run: "proofOperation (logged memory) exInstallation ''tank'' exProof OpRelease (exProofHost, []) = (Inr (), (w, l))"
    and l: "writes l = [InheritProp ''tank'' (referenceProperty exProof)]" by auto
  from proof_operations_refine_protocol [OF run, unfolded l] show ?thesis by (auto simp del: protocolRun.simps)
qed

text \<open>A host with one owned snapshot of \<open>tank\<close>, to be protected for \<open>nas\<close>.\<close>

definition exSource :: Snapshot where
  "exSource = exSnapshot (1001 * Minute) 12"

definition exSourceHost :: State where
  "exSourceHost = exTank\<lparr>st_Objects := st_Objects exTank @ [\<lparr>ob_Name = sn_Name exSource, ob_Type = ''snapshot'', ob_GUID = 12, ob_Creation = 0, ob_CreateTXG = 12\<rparr>],
     st_Properties := st_Properties exTank @ sn_Properties exSource\<rparr>"

lemma exSourceHost_facts:
  "memInspect ''tank'' False exSourceHost = (Inr exSourceHost, exSourceHost)"
  "scopeReady exSourceHost ''tank'' = None" "RootAuthority exSourceHost ''tank'' exInstallation = Inr exLineage"
  "referenceRecords exSourceHost ''tank'' exLineage = Inr []"
  "protectSnapshots exSourceHost ''tank'' exLineage [] None False False [sn_Name exSource] = Inr (Some exMeta, False, True)"
  "cutBefore (sn_Name exSource) (CHR ''@'') = ''tank''" "st_Holds exSourceHost = []"
  by code_simp+

lemma exText:
  "case encodeReference \<lparr>rf_TargetID = [], rf_Dataset = ''tank'', rf_Metadata = exMeta, rf_Recursive = False\<rparr> ''tank'' of
     Inr v \<Rightarrow> length v \<le> MaxUserPropertyValue | Inl _ \<Rightarrow> False"
  by code_simp

lemma exProof_text: "\<exists>v. encodeReference exProof ''tank'' = Inr v \<and> length v \<le> MaxUserPropertyValue"
proof -
  have "encodeReference exProof ''tank'' = encodeReference (exProof\<lparr>rf_TargetID := []\<rparr>) ''tank''" by (simp add: encodeReference_def)
  also have "exProof\<lparr>rf_TargetID := []\<rparr> = \<lparr>rf_TargetID = [], rf_Dataset = ''tank'', rf_Metadata = exMeta, rf_Recursive = False\<rparr>" by (simp add: exProof_def)
  finally show ?thesis
    using exText by (auto split: sum.splits)
qed

lemma exProtect:
  "\<exists>v x. ProtectSet (logged memory) exInstallation ''tank'' ''tank'' [sn_Name exSource] ''nas'' (exSourceHost, []) = (Inr exProof, x)
     \<and> writes (snd x) = [SetProps ''tank'' [(referenceProperty exProof, v)], AddHold (referenceHold exProof) (sn_Name exSource)]"
proof -
  obtain v where v: "encodeReference exProof ''tank'' = Inr v" "length v \<le> MaxUserPropertyValue" using exProof_text by blast
  have check: "validateDataset ''tank'' = None" "protectCheck ''tank'' ''tank'' [sn_Name exSource] ''nas'' = None" by code_simp+
  have scope: "proofScope (logged memory) ''tank'' [''tank''] [] (exSourceHost, l) = (Inr exSourceHost, (exSourceHost, l @ [Read ''tank'' False (Inr exSourceHost)]))" for l
    by (simp add: proofScope_def wantedDatasets_def ioBind_def noting_def exSourceHost_facts)
  have free: "\<not> heldBy exSourceHost exProof s" for s by (simp add: heldBy_def exSourceHost_facts)
  have "\<lparr>rf_TargetID = TargetID ''nas'', rf_Dataset = ''tank'', rf_Metadata = exMeta, rf_Recursive = False\<rparr> = exProof" by (simp add: exProof_def)
  then have plan: "protectPlan exInstallation exSourceHost ''tank'' ''tank'' [sn_Name exSource] ''nas'' = Inr (exProof, False)"
    by (simp add: protectPlan_def exSourceHost_facts free del: protectSnapshots.simps)
  show ?thesis using v
    by (simp add: ProtectSet_def lock_def Let_def check exSourceHost_facts ioBind_def scope plan protectApply_def free proofUnchanged_def storeProof_def noting_def effect_def)
qed

theorem ProtectSet_refines_protocol_witness:
  "\<exists>state v t. protocolRun ''tank'' exProof [SetProps ''tank'' [(referenceProperty exProof, v)], AddHold (referenceHold exProof) (sn_Name exSource)]
       (protectView ''tank'' exProof [sn_Name exSource] state) = Some t \<and> ps_Proved t \<and> sn_Name exSource \<in> ps_Held t"
proof -
  from exProtect obtain v w l where run: "ProtectSet (logged memory) exInstallation ''tank'' ''tank'' [sn_Name exSource] ''nas'' (exSourceHost, []) = (Inr exProof, (w, l))"
    and l: "writes l = [SetProps ''tank'' [(referenceProperty exProof, v)], AddHold (referenceHold exProof) (sn_Name exSource)]" by auto
  from ProtectSet_refines_protocol [OF run, unfolded l] show ?thesis by (auto simp del: protocolRun.simps)
qed

end
