(* ===== verification/Transfer_Binding.thy ===== *)
theory Transfer_Binding
  imports Lifecycle_References
begin

section \<open>Transfer requests and target bindings\<close>

text \<open>
  The request of \<open>internal/transfer/plan.go\<close> (which root is sent where, as which streams) and \<open>internal/transfer/binding.go\<close>: the
  persistent record of the pool and dataset a target was first resolved to, and the checks that later transfers still reach the
  same ones. A binding is stored as a JSON property of the source root under the hash of the target's canonical name; what
  configuration says about the target is not stored but compared. Shown: the search for the nearest dataset that is not a
  placeholder ends with the longest such ancestor; a stored binding reads back; a verified binding is the live identity of its anchor.
\<close>

subsection \<open>Requests\<close>

record Member =
  mb_Dataset :: string
  mb_Policy :: Effective
  mb_Snapshot :: string

record Request =
  rq_Source :: string
  rq_DestinationRoot :: string
  rq_Snapshot :: string
  rq_Policy :: Effective
  rq_Members :: "Member list"
  rq_Transport :: string
  rq_RemoteName :: string
  rq_CanonicalTarget :: string
  rq_HostLocal :: bool

fun checkMembers :: "string \<Rightarrow> string option \<Rightarrow> Member list \<Rightarrow> go_error option" where
  "checkMembers source prev [] = None"
| "checkMembers source prev (m # ms) =
     (case validateDataset (mb_Dataset m) of
        Some e \<Rightarrow> Some e
      | None \<Rightarrow>
          if \<not> inside (mb_Dataset m) source then Some (Errorf ''member %s is outside root %s'' [Arg (mb_Dataset m), Arg source])
          else if prev = Some (mb_Dataset m) then Some (Errorf ''member %s is repeated'' [Arg (mb_Dataset m)])
          else checkMembers source (Some (mb_Dataset m)) ms)"

definition Streams :: "Request \<Rightarrow> Member list result" where
  "Streams r =
     (if rq_Members r = [] then Inr [\<lparr>mb_Dataset = rq_Source r, mb_Policy = rq_Policy r, mb_Snapshot = rq_Snapshot r\<rparr>]
      else if f_Replicate (e_Send (rq_Policy r)) then Inl (Errorf ''a replication root sends one stream, not one per member'' [])
      else
        (let members = sort_key mb_Dataset (rq_Members r) in
         failIf (checkMembers (rq_Source r) None members) (Inr members)))"

definition streamNamed :: "Request \<Rightarrow> string \<Rightarrow> Member result" where
  "streamNamed r dataset =
     bindE (Streams r) (\<lambda>streams.
       (case find (\<lambda>m. mb_Dataset m = dataset) streams of
          Some m \<Rightarrow> Inr m
        | None \<Rightarrow> Inl (Errorf ''%s is not a stream of this request'' [Arg dataset])))"

definition mapped :: "Request \<Rightarrow> string \<Rightarrow> (string \<times> string) result" where
  "mapped r stream =
     bindE (MapReceiveDataset (rq_Source r) (rq_DestinationRoot r) (e_Discard (rq_Policy r))) (\<lambda>root.
       if \<not> inside stream (rq_Source r) then Inl (Errorf ''stream %s is outside root %s'' [Arg stream, Arg (rq_Source r)])
       else Inr (root, root @ TrimPrefix stream (rq_Source r)))"

definition requestTransport :: "Request \<Rightarrow> string" where
  "requestTransport request = (if rq_Transport request = [] then ''local'' else rq_Transport request)"

definition canonicalLocalTarget :: "string \<Rightarrow> string" where
  "canonicalLocalTarget root = ''local:'' @ root"

definition canonicalTarget :: "Request \<Rightarrow> string" where
  "canonicalTarget request =
     (if requestTransport request = ''local'' \<and> rq_CanonicalTarget request = [] then canonicalLocalTarget (rq_DestinationRoot request)
      else rq_CanonicalTarget request)"

subsection \<open>Bindings\<close>

record TargetBinding =
  tb_Transport :: string
  tb_CanonicalTarget :: string
  tb_DestinationRoot :: string
  tb_MappedDataset :: string
  tb_Pool :: string
  tb_PoolGUID :: nat
  tb_Anchor :: string
  tb_AnchorGUID :: nat
  tb_RelativePath :: string

record bindingRecord =
  br_PoolGUID :: nat
  br_Mapped :: string
  br_AnchorGUID :: nat
  br_Anchor :: string

text \<open>\<open>path.Clean\<close>: the elements of the path one after the other, and what they leave.\<close>

definition cleanElement :: "bool \<Rightarrow> string list \<Rightarrow> string \<Rightarrow> string list" where
  "cleanElement rooted out c =
     (if c = [] \<or> c = ''.'' then out
      else if c = ''..'' then
        (if out \<noteq> [] \<and> last out \<noteq> ''..'' then butlast out else if rooted then out else out @ [c])
      else out @ [c])"

definition pathClean :: "string \<Rightarrow> string" where
  "pathClean p =
     (if p = [] then ''.''
      else
        (let rooted = (hd p = CHR ''/''); out = Join (foldl (cleanElement rooted) [] (Split p (CHR ''/''))) ''/'' in
         if rooted then CHR ''/'' # out else if out = [] then ''.'' else out))"

definition targetBindingProperty :: "string \<Rightarrow> string" where
  "targetBindingProperty canonical = TargetStatePrefix @ TargetID canonical"

definition targetSuspendedProperty :: "string \<Rightarrow> string" where
  "targetSuspendedProperty canonical = targetBindingProperty canonical @ '':suspended''"

fun suspendedRows :: "string \<Rightarrow> string \<Rightarrow> bool \<Rightarrow> Property list \<Rightarrow> bool result" where
  "suspendedRows root property seen [] = Inr seen"
| "suspendedRows root property seen (row # rows) =
     (if p_Dataset row \<noteq> root \<or> p_Name row \<noteq> property \<or> p_Source row \<noteq> SourceLocal then suspendedRows root property seen rows
      else if seen \<or> p_Value row \<noteq> ''unverified'' then Inl (Errorf ''target suspension marker is invalid'' [])
      else suspendedRows root property True rows)"

definition TargetSuspended :: "State \<Rightarrow> string \<Rightarrow> string \<Rightarrow> bool result" where
  "TargetSuspended state root canonical = suspendedRows root (targetSuspendedProperty canonical) False (st_Properties state)"

abbreviation lineBreaks :: string where "lineBreaks \<equiv> [CHR 0x00, CHR 0x0D, CHR 0x0A]"

definition SetTargetSuspended :: "'w Executor \<Rightarrow> string \<Rightarrow> string \<Rightarrow> bool \<Rightarrow> ('w, unit) zio" where
  "SetTargetSuspended e source canonical suspended =
     (if canonical = [] \<or> ContainsAny canonical lineBreaks then ioFail (Errorf ''valid target suspension request required'' [])
      else if suspended then zSetProperties e source (mput (targetSuspendedProperty canonical) ''unverified'' [])
      else zInheritProperty e source (targetSuspendedProperty canonical))"

definition bindingTemplate :: "Request \<Rightarrow> string \<Rightarrow> string \<Rightarrow> string \<Rightarrow> TargetBinding" where
  "bindingTemplate request mappedName transport canonical =
     \<lparr>tb_Transport = transport, tb_CanonicalTarget = canonical, tb_DestinationRoot = rq_DestinationRoot request, tb_MappedDataset = mappedName,
      tb_Pool = [], tb_PoolGUID = 0, tb_Anchor = [], tb_AnchorGUID = 0, tb_RelativePath = []\<rparr>"

definition anchored :: "TargetBinding \<Rightarrow> string \<Rightarrow> nat \<Rightarrow> nat \<Rightarrow> TargetBinding result" where
  "anchored b anchor poolGUID anchorGUID =
     (let b = b\<lparr>tb_Pool := cutBefore anchor (CHR ''/''), tb_PoolGUID := poolGUID, tb_Anchor := anchor, tb_AnchorGUID := anchorGUID,
                tb_RelativePath := []\<rparr> in
      if anchor \<noteq> tb_MappedDataset b then
        (if \<not> inside (tb_MappedDataset b) anchor then Inl (Errorf ''destination anchor does not contain mapped dataset'' [])
         else
           (let relative = TrimPrefix (tb_MappedDataset b) (anchor @ ''/'') in
            if relative = [] \<or> pathClean relative \<noteq> relative then Inl (Errorf ''invalid destination path relative to anchor'' [])
            else Inr (b\<lparr>tb_RelativePath := relative\<rparr>)))
      else Inr b)"

definition bindingForTarget :: "Request \<Rightarrow> string \<Rightarrow> DatasetIdentity \<Rightarrow> string \<Rightarrow> string \<Rightarrow> TargetBinding result" where
  "bindingForTarget request mappedName identity transport canonical =
     anchored (bindingTemplate request mappedName transport canonical) (di_Name identity) (di_PoolGUID identity) (di_GUID identity)"

definition bindingTarget :: "Request \<Rightarrow> TargetBinding result" where
  "bindingTarget request =
     bindE (mapped request (rq_Source request)) (\<lambda>(root, _).
       Inr (bindingTemplate request root (requestTransport request) (canonicalTarget request)))"

definition storeBindingField :: "string \<Rightarrow> json \<Rightarrow> bindingRecord \<Rightarrow> bindingRecord option" where
  "storeBindingField f v r =
     (if f = ''pool_guid'' then map_option (\<lambda>x. r\<lparr>br_PoolGUID := x\<rparr>) (storeUint64 v (br_PoolGUID r))
      else if f = ''mapped'' then map_option (\<lambda>x. r\<lparr>br_Mapped := x\<rparr>) (storeString v (br_Mapped r))
      else if f = ''anchor_guid'' then map_option (\<lambda>x. r\<lparr>br_AnchorGUID := x\<rparr>) (storeUint64 v (br_AnchorGUID r))
      else map_option (\<lambda>x. r\<lparr>br_Anchor := x\<rparr>) (storeString v (br_Anchor r)))"

definition decodeBindingRecord :: "string \<Rightarrow> bindingRecord option" where
  "decodeBindingRecord stored =
     bindO (decodeValue stored) (\<lambda>(v, rest).
     bindO (decodeStruct True [''pool_guid'', ''mapped'', ''anchor_guid'', ''anchor''] storeBindingField v
              \<lparr>br_PoolGUID = 0, br_Mapped = [], br_AnchorGUID = 0, br_Anchor = []\<rparr>) (\<lambda>record.
       if More rest then None else Some record))"

text \<open>One row of \<open>storedTargetBinding\<close>, and the loop over the rows.\<close>

definition decodeBinding :: "TargetBinding \<Rightarrow> string \<Rightarrow> TargetBinding result" where
  "decodeBinding target stored =
     (case decodeBindingRecord stored of
        None \<Rightarrow> Inl (Errorf ''invalid target binding'' [])
      | Some record \<Rightarrow>
          if validateDataset (br_Mapped record) \<noteq> None then Inl (Errorf ''invalid target binding mapping'' [])
          else if br_Mapped record \<noteq> tb_MappedDataset target
          then Inl (MappingChangedError (br_Mapped record) (tb_MappedDataset target))
          else if br_Anchor record \<noteq> [] \<and> (br_Anchor record = br_Mapped record \<or> validateDataset (br_Anchor record) \<noteq> None)
          then Inl (Errorf ''invalid target binding anchor'' [])
          else
            (case anchored target (if br_Anchor record = [] then br_Mapped record else br_Anchor record)
                    (br_PoolGUID record) (br_AnchorGUID record) of
               Inl e \<Rightarrow> Inl (Errorf ''invalid target binding: %w'' [Wrap e])
             | Inr decoded \<Rightarrow> Inr decoded))"

fun bindingRows :: "State \<Rightarrow> string \<Rightarrow> TargetBinding \<Rightarrow> TargetBinding option \<Rightarrow> Property list \<Rightarrow> TargetBinding option result" where
  "bindingRows state root target binding [] = Inr binding"
| "bindingRows state root target binding (row # rows) =
     (if p_Dataset row \<noteq> root \<or> p_Name row \<noteq> targetBindingProperty (tb_CanonicalTarget target) \<or> p_Source row \<noteq> SourceLocal
      then bindingRows state root target binding rows
      else if binding \<noteq> None then Inl (Errorf ''target binding must be unambiguous'' [])
      else failIf (CurrentState state root)
        (bindE (decodeBinding target (p_Value row)) (\<lambda>decoded. bindingRows state root target (Some decoded) rows)))"

definition storedTargetBinding :: "State \<Rightarrow> string \<Rightarrow> TargetBinding \<Rightarrow> TargetBinding option result" where
  "storedTargetBinding state root target = bindingRows state root target None (st_Properties state)"

definition validateBinding :: "TargetBinding \<Rightarrow> go_error option" where
  "validateBinding b =
     (if (tb_Transport b \<noteq> ''local'' \<and> tb_Transport b \<noteq> ''ssh'' \<and> tb_Transport b \<noteq> ''native'') \<or> tb_CanonicalTarget b = []
         \<or> tb_DestinationRoot b = [] \<or> tb_MappedDataset b = [] \<or> tb_Pool b = [] \<or> tb_PoolGUID b = 0 \<or> tb_Anchor b = []
         \<or> tb_AnchorGUID b = 0
      then Some (Errorf ''target binding is incomplete or unsupported'' [])
      else if targetBindingProperty (tb_CanonicalTarget b) = TargetStatePrefix
      then Some (Errorf ''target binding identity is invalid'' [])
      else None)"

definition encodeBinding :: "TargetBinding \<Rightarrow> string result" where
  "encodeBinding b =
     failIf (validateBinding b)
       (let anchor = (if tb_Anchor b \<noteq> tb_MappedDataset b then tb_Anchor b else []) in
        Inr (marshalStruct
          ([(''pool_guid'', showNat (tb_PoolGUID b)), (''mapped'', quoteString (tb_MappedDataset b)),
            (''anchor_guid'', showNat (tb_AnchorGUID b))]
           @ (if anchor = [] then [] else [(''anchor'', quoteString anchor)]))))"

subsection \<open>Resolving a target\<close>

definition isPlaceholder :: "State \<Rightarrow> string \<Rightarrow> bool" where
  "isPlaceholder state dataset =
     (list_ex (\<lambda>p. p_Dataset p = dataset \<and> p_Name p = PlaceholderProperty \<and> p_Source p = SourceLocal \<and> p_Value p = ''on'')
        (st_Properties state)
      \<and> mindex (st_ResumeTokens state) dataset = []
      \<and> \<not> list_ex (\<lambda>ob. (ob_Type ob = ''snapshot'' \<or> ob_Type ob = ''bookmark'') \<and> datasetOf (ob_Name ob) = dataset) (st_Objects state))"

definition placeholderAt :: "('w, 'z) Destination_scheme \<Rightarrow> string \<Rightarrow> ('w, DatasetIdentity \<times> bool) zio" where
  "placeholderAt reader dataset =
     ioBind (zInspectDatasetIdentity reader dataset) (\<lambda>identity.
       if \<not> di_Placeholder identity then ioReturn (identity, False)
       else ioBind (zInspectState reader dataset False) (\<lambda>state. ioReturn (identity, isPlaceholder state dataset)))"

definition nearestExisting :: "string \<Rightarrow> Dataset list \<Rightarrow> string" where
  "nearestExisting name inventory =
     foldl (\<lambda>nearest d. if inside name (ds_Name d) \<and> length (ds_Name d) > length nearest then ds_Name d else nearest) [] inventory"

abbreviation noIdentity :: DatasetIdentity where
  "noIdentity \<equiv> \<lparr>di_Name = [], di_Type = [], di_GUID = 0, di_Pool = [], di_PoolGUID = 0, di_Placeholder = False\<rparr>"

lemma nearestExisting_snoc:
  "nearestExisting name (inventory @ [d]) =
     (if inside name (ds_Name d) \<and> length (ds_Name d) > length (nearestExisting name inventory) then ds_Name d
      else nearestExisting name inventory)"
  by (simp add: nearestExisting_def)

lemma nearestExisting_found:
  "nearestExisting name inventory \<noteq> [] \<Longrightarrow>
     nearestExisting name inventory \<in> ds_Name ` set inventory \<and> inside name (nearestExisting name inventory)"
  by (induction inventory rule: rev_induct) (auto simp: nearestExisting_snoc, simp add: nearestExisting_def)

lemma nearestExisting_longest:
  "d \<in> ds_Name ` set inventory \<Longrightarrow> inside name d \<Longrightarrow> length d \<le> length (nearestExisting name inventory)"
  by (induction inventory rule: rev_induct) (auto simp: nearestExisting_snoc)

lemma inside_length: "inside a b \<Longrightarrow> length b \<le> length a"
  by (auto dest: inside_cases)

lemma nearestExisting_length: "length (nearestExisting name inventory) \<le> length name"
  using nearestExisting_found inside_length by (cases "nearestExisting name inventory = []") force+

lemma LastIndexByte_bound: "LastIndexByte s c < int (length s)"
  by (cases s) (auto simp: LastIndexByte_def)

text \<open>
  The loop of \<open>nearestReal\<close>. Every round continues with a proper ancestor of the dataset it looked at, so the loop ends: the
  termination proof is that the name gets shorter.
\<close>

function nearestRealFrom :: "('w, 'z) Destination_scheme \<Rightarrow> string \<Rightarrow> Dataset list \<Rightarrow> string \<Rightarrow> ('w, DatasetIdentity) zio" where
  "nearestRealFrom reader configuredRoot inventory candidate =
     (if candidate = [] then ioReturn noIdentity
      else if \<not> inside candidate configuredRoot then zInspectDatasetIdentity reader candidate
      else
        ioBind (placeholderAt reader candidate) (\<lambda>found.
          if \<not> snd found then ioReturn (fst found)
          else if LastIndexByte candidate (CHR ''/'') < 0 then ioReturn noIdentity
          else nearestRealFrom reader configuredRoot inventory
                 (nearestExisting (take (nat (LastIndexByte candidate (CHR ''/''))) candidate) inventory)))"
  by pat_completeness auto
termination
proof (relation "measure (\<lambda>(_, _, _, candidate). length candidate)")
  fix reader :: "('w, 'z) Destination_scheme" and configuredRoot :: string and inventory :: "Dataset list" and candidate :: string
  assume "\<not> LastIndexByte candidate (CHR ''/'') < 0"
  then have "length (take (nat (LastIndexByte candidate (CHR ''/''))) candidate) < length candidate"
    using LastIndexByte_bound [of candidate "CHR ''/''"] by simp
  then show "((reader, configuredRoot, inventory, nearestExisting (take (nat (LastIndexByte candidate (CHR ''/''))) candidate) inventory),
      (reader, configuredRoot, inventory, candidate)) \<in> measure (\<lambda>(_, _, _, candidate). length candidate)"
    using nearestExisting_length [of "take (nat (LastIndexByte candidate (CHR ''/''))) candidate" inventory] by simp
qed simp

declare nearestRealFrom.simps [simp del]

definition nearestReal :: "('w, 'z) Destination_scheme \<Rightarrow> string \<Rightarrow> string \<Rightarrow> Dataset list \<Rightarrow> ('w, DatasetIdentity) zio" where
  "nearestReal reader name configuredRoot inventory =
     nearestRealFrom reader configuredRoot inventory (nearestExisting name inventory)"

record LocalTargetInspection =
  li_ConfiguredName :: string
  li_Transport :: string
  li_CanonicalEndpoint :: string
  li_DestinationRoot :: string
  li_MappedDataset :: string
  li_Stored :: "TargetBinding option"
  li_Resolved :: "TargetBinding option"
  li_Status :: string

text \<open>\<open>InspectTarget\<close> returns its inspection with the error that ended it.\<close>

type_synonym inspected = "LocalTargetInspection \<times> go_error option"

definition endInspection :: "LocalTargetInspection \<Rightarrow> string \<Rightarrow> go_error option \<Rightarrow> inspected" where
  "endInspection i status err = (i\<lparr>li_Status := status\<rparr>, err)"

definition compareBinding :: "LocalTargetInspection \<Rightarrow> TargetBinding option \<Rightarrow> TargetBinding \<Rightarrow> inspected" where
  "compareBinding i stored resolved =
     (let i = i\<lparr>li_Resolved := Some resolved\<rparr> in
      case stored of
        None \<Rightarrow> endInspection i ''unbound'' None
      | Some b \<Rightarrow>
          if b \<noteq> resolved then endInspection i ''mismatch'' (Some (Errorf ''target identity or mapping differs from persistent binding'' []))
          else endInspection i ''verified'' None)"

definition resolveAnchor ::
  "('w, 'z) Destination_scheme \<Rightarrow> Request \<Rightarrow> LocalTargetInspection \<Rightarrow> TargetBinding option \<Rightarrow> string \<Rightarrow> ('w, inspected) zio" where
  "resolveAnchor reader request i stored anchor =
     ioTry (zInspectDatasetIdentity reader anchor) (\<lambda>e. ioReturn (endInspection i ''unavailable'' (Some e))) (\<lambda>identity.
       (case bindingForTarget request (li_MappedDataset i) identity (li_Transport i) (li_CanonicalEndpoint i) of
          Inl e \<Rightarrow> ioReturn (endInspection i ''invalid-mapping'' (Some e))
        | Inr resolved \<Rightarrow> ioReturn (compareBinding i stored resolved)))"

definition inspectStored ::
  "('w, 'z) Destination_scheme \<Rightarrow> Request \<Rightarrow> State \<Rightarrow> LocalTargetInspection \<Rightarrow> string \<Rightarrow> ('w, inspected) zio" where
  "inspectStored reader request source i anchor =
     (case storedTargetBinding source (rq_Source request)
             (bindingTemplate request (li_MappedDataset i) (li_Transport i) (li_CanonicalEndpoint i)) of
        Inl (MappingChangedError stored configured) \<Rightarrow>
          ioReturn (endInspection i ''mismatch'' (Some (MappingChangedError stored configured)))
      | Inl e \<Rightarrow> ioReturn (endInspection i ''invalid-binding'' (Some e))
      | Inr stored \<Rightarrow>
          (let i = i\<lparr>li_Stored := stored\<rparr> in
           case stored of
             None \<Rightarrow> resolveAnchor reader request i stored anchor
           | Some b \<Rightarrow>
               (case validateBinding b of
                  Some e \<Rightarrow> ioReturn (endInspection i ''invalid-binding'' (Some e))
                | None \<Rightarrow> resolveAnchor reader request i stored (if anchor \<noteq> li_MappedDataset i then tb_Anchor b else anchor))))"

definition InspectTarget :: "('w, 'z) Destination_scheme \<Rightarrow> Request \<Rightarrow> State \<Rightarrow> ('w, inspected) zio" where
  "InspectTarget reader request source =
     (let transport = requestTransport request; canonical = canonicalTarget request;
          configured = (if transport = ''ssh'' \<or> transport = ''native'' then rq_RemoteName request else rq_DestinationRoot request);
          i = \<lparr>li_ConfiguredName = configured, li_Transport = transport, li_CanonicalEndpoint = canonical,
               li_DestinationRoot = rq_DestinationRoot request, li_MappedDataset = [], li_Stored = None, li_Resolved = None, li_Status = []\<rparr> in
      if (transport \<noteq> ''local'' \<and> transport \<noteq> ''ssh'' \<and> transport \<noteq> ''native'') \<or> canonical = []
      then ioReturn (endInspection i ''invalid-mapping'' (Some (Errorf ''unsupported or incomplete target transport'' [])))
      else
        (case mapped request (rq_Source request) of
           Inl e \<Rightarrow> ioReturn (endInspection i ''invalid-mapping'' (Some e))
         | Inr (root, _) \<Rightarrow>
             (let i = i\<lparr>li_MappedDataset := root\<rparr> in
              ioTry (zListDatasets reader) (\<lambda>e. ioReturn (endInspection i ''unavailable'' (Some e))) (\<lambda>inventory.
              ioTry (nearestReal reader root (rq_DestinationRoot request) inventory)
                (\<lambda>e. ioReturn (endInspection i ''unavailable'' (Some e))) (\<lambda>nearest.
              if di_Name nearest = []
              then ioReturn (endInspection i ''unavailable'' (Some (Errorf ''destination has no existing ancestor'' [])))
              else inspectStored reader request source i (di_Name nearest))))))"

definition VerifyTargetBinding :: "('w, 'z) Destination_scheme \<Rightarrow> State \<Rightarrow> Request \<Rightarrow> ('w, TargetBinding) zio" where
  "VerifyTargetBinding reader source request =
     ioBind (ioLift (bindingTarget request)) (\<lambda>target.
     ioBind (ioLift (storedTargetBinding source (rq_Source request) target)) (\<lambda>stored.
     case stored of
       None \<Rightarrow> ioFail (Errorf ''target has no persistent binding'' [])
     | Some b \<Rightarrow>
         ioCheck (validateBinding b)
           (ioBind (zInspectDatasetIdentity reader (tb_Anchor b)) (\<lambda>identity.
            ioBind (ioLift (anchored target (di_Name identity) (di_PoolGUID identity) (di_GUID identity))) (\<lambda>resolved.
            if resolved \<noteq> b then ioFail (Errorf ''target identity differs from persistent binding'' [])
            else ioReturn b)))))"

subsection \<open>The nearest real dataset\<close>

text \<open>A dataset that can anchor a binding: outside the configured root, or not a placeholder.\<close>

definition realDataset :: "(string \<Rightarrow> DatasetIdentity) \<Rightarrow> (string \<Rightarrow> State) \<Rightarrow> string \<Rightarrow> string \<Rightarrow> bool" where
  "realDataset identities states configuredRoot d \<longleftrightarrow>
     \<not> inside d configuredRoot \<or> \<not> (di_Placeholder (identities d) \<and> isPlaceholder (states d) d)"

definition nearestAmong :: "string \<Rightarrow> string set \<Rightarrow> (string \<Rightarrow> bool) \<Rightarrow> string \<Rightarrow> bool" where
  "nearestAmong name names good d \<longleftrightarrow>
     d \<in> names \<and> d \<noteq> [] \<and> inside name d \<and> good d \<and> (\<forall>d' \<in> names. d' \<noteq> [] \<and> inside name d' \<and> good d' \<longrightarrow> inside d d')"

lemma placeholderAt_reads:
  assumes "zInspectDatasetIdentity reader d w = (Inr (identities d), w)" "zInspectState reader d False w = (Inr (states d), w)"
  shows "placeholderAt reader d w = (Inr (identities d, di_Placeholder (identities d) \<and> isPlaceholder (states d) d), w)"
  using assms by (simp add: placeholderAt_def ioBind_def)

lemma shorter_ancestor: "inside n a \<Longrightarrow> inside n b \<Longrightarrow> length b \<le> length a \<Longrightarrow> inside a b"
  using names.within_chain [of n a b] inside_cases [of b a] by force

lemma nearestRealFrom_exact:
  assumes ids: "\<And>d. zInspectDatasetIdentity reader d w = (Inr (identities d), w)"
    and states: "\<And>d. zInspectState reader d False w = (Inr (states d), w)"
    and candidate: "candidate = nearestExisting n inventory" and below: "inside name n"
    and past: "\<And>d. d \<in> ds_Name ` set inventory \<Longrightarrow> d \<noteq> [] \<Longrightarrow> inside name d \<Longrightarrow> realDataset identities states root d \<Longrightarrow> inside n d"
  shows "\<exists>i. nearestRealFrom reader root inventory candidate w = (Inr i, w)
    \<and> (i = noIdentity \<and> (\<forall>d \<in> ds_Name ` set inventory. d \<noteq> [] \<and> inside name d \<longrightarrow> \<not> realDataset identities states root d)
       \<or> (\<exists>d. i = identities d \<and> nearestAmong name (ds_Name ` set inventory) (realDataset identities states root) d))"
  using candidate below past
proof (induction "length candidate" arbitrary: candidate n rule: less_induct)
  case less
  let ?real = "realDataset identities states root" and ?names = "ds_Name ` set inventory"
  have place: "placeholderAt reader d w = (Inr (identities d, di_Placeholder (identities d) \<and> isPlaceholder (states d) d), w)" for d
    by (rule placeholderAt_reads) (rule ids, rule states)
  have longest: "inside candidate d" if "d \<in> ?names" "d \<noteq> []" "inside name d" "?real d" for d
  proof -
    have d: "inside n d" using less.prems(3) that .
    then have "length d \<le> length candidate" using nearestExisting_longest that(1) less.prems(1) by simp
    moreover have "candidate \<noteq> []" using calculation that(2) by auto
    ultimately show ?thesis
      using shorter_ancestor [OF _ d] nearestExisting_found less.prems(1) by blast
  qed
  have found: "candidate \<in> ?names" "inside name candidate" if "candidate \<noteq> []"
  proof -
    note f = nearestExisting_found [of n inventory, folded less.prems(1), OF that]
    show "candidate \<in> ?names" using f ..
    show "inside name candidate" using names.within_trans [OF less.prems(2)] f by blast
  qed
  consider "candidate = []" | "candidate \<noteq> []" "?real candidate" | "candidate \<noteq> []" "\<not> ?real candidate" by blast
  then show ?case
  proof cases
    case 1
    then have "\<not> ?real d" if "d \<in> ?names" "d \<noteq> []" "inside name d" for d
      using longest [OF that] inside_length [of "[]" d] that(2) by auto
    moreover have "nearestRealFrom reader root inventory candidate w = (Inr noIdentity, w)"
      using 1 by (simp add: nearestRealFrom.simps)
    ultimately show ?thesis by blast
  next
    case 2
    then have "nearestRealFrom reader root inventory candidate w = (Inr (identities candidate), w)"
      by (subst nearestRealFrom.simps) (auto simp: ids ioBind_def realDataset_def place)
    moreover have "nearestAmong name ?names ?real candidate"
      using 2 found longest by (auto simp: nearestAmong_def)
    ultimately show ?thesis by blast
  next
    case False: 3
    define parent where "parent = parentName candidate"
    from False have step: "nearestRealFrom reader root inventory candidate w =
        (if LastIndexByte candidate (CHR ''/'') < 0 then (Inr noIdentity, w)
         else nearestRealFrom reader root inventory (nearestExisting parent inventory) w)"
      by (subst nearestRealFrom.simps)
        (auto simp: ioBind_def realDataset_def place parent_def parentName_def Let_def)
    have up: "inside parent d" if "d \<in> ?names" "d \<noteq> []" "inside name d" "?real d" for d
      using strict_inside_parent [of candidate d] longest [OF that] False that unfolding parent_def by auto
    show ?thesis
    proof (cases "LastIndexByte candidate (CHR ''/'') < 0")
      case True
      then have "CHR ''/'' \<notin> set candidate" using LastIndexByte_append split_list_last [of "CHR ''/''" candidate] by fastforce
      then have "\<not> ?real d" if "d \<in> ?names" "d \<noteq> []" "inside name d" for d
        using longest [OF that] False inside_cases [of candidate d] by auto
      with True show ?thesis by (auto simp: step)
    next
      case slash: False
      have "CHR ''/'' \<in> set candidate" using slash by (auto simp: LastIndexByte_def split: if_splits)
      then have in_parent: "inside candidate parent"
        unfolding parent_def by (cases candidate rule: parentName_cases) auto
      have "length parent < length candidate"
        using slash LastIndexByte_bound [of candidate "CHR ''/''"] by (simp add: parent_def parentName_def Let_def)
      then have shorter: "length (nearestExisting parent inventory) < length candidate"
        using nearestExisting_length [of parent inventory] by simp
      have "inside name parent" using found False in_parent names.within_trans by blast
      from less.hyps [OF shorter refl this up] slash show ?thesis unfolding step by simp
    qed
  qed
qed

text \<open>
  C0: The search for a dataset that can anchor a binding always ends, on every inventory: as long as its reads are answered, it
  returns the identity of the nearest ancestor of the mapped dataset that exists and is no placeholder, and the empty identity
  exactly when there is none.
\<close>

theorem nearestReal_ends_at_nearest:
  assumes "\<And>d. zInspectDatasetIdentity reader d w = (Inr (identities d), w)"
    and "\<And>d. zInspectState reader d False w = (Inr (states d), w)"
  shows "\<exists>i. nearestReal reader name root inventory w = (Inr i, w)
    \<and> (i = noIdentity \<and> (\<forall>d \<in> ds_Name ` set inventory. d \<noteq> [] \<and> inside name d \<longrightarrow> \<not> realDataset identities states root d)
       \<or> (\<exists>d. i = identities d \<and> nearestAmong name (ds_Name ` set inventory) (realDataset identities states root) d))"
  unfolding nearestReal_def by (rule nearestRealFrom_exact [OF assms refl]) (simp_all add: names.within_refl)

definition exIdentities :: "string \<Rightarrow> DatasetIdentity" where
  "exIdentities d = noIdentity\<lparr>di_Name := d, di_Placeholder := (d = ''backup/a'')\<rparr>"

definition exStates :: "string \<Rightarrow> State" where
  "exStates d = emptyState\<lparr>st_Properties := [\<lparr>p_Dataset = d, p_Name = PlaceholderProperty, p_Value = ''on'', p_Source = SourceLocal\<rparr>]\<rparr>"

definition exReader :: "unit Destination" where
  "exReader =
     \<lparr>zListDatasets = ioReturn [], zInspectDatasetIdentity = (\<lambda>d. ioReturn (exIdentities d)),
      zCheckPermissions = (\<lambda>_ _. ioReturn ()), zInspectState = (\<lambda>d _. ioReturn (exStates d)),
      zCreateReceiveParent = (\<lambda>_. ioReturn ()), zSetProperties = (\<lambda>_ _. ioReturn ()), zInheritProperty = (\<lambda>_ _. ioReturn ()),
      zDestroySnapshot = (\<lambda>_. ioReturn ()), zReseed = None, zReplica = None\<rparr>"

definition exInventory :: "Dataset list" where
  "exInventory = map (\<lambda>d. \<lparr>ds_Name = d, ds_Type = Filesystem, ds_EncryptionRoot = ''-''\<rparr>) [''backup'', ''backup/a'', ''backup/b'', ''tank'']"

lemma exReader_facts:
  "realDataset exIdentities exStates ''backup'' ''backup''" "inside ''backup/a/b/c'' ''backup''"
  "\<not> realDataset exIdentities exStates ''backup'' ''backup/a''" "\<not> inside ''backup/a/b/c'' ''tank''" "\<not> inside ''backup/a/b/c'' ''backup/b''"
  unfolding realDataset_def by code_simp+

theorem nearestReal_ends_at_nearest_witness:
  "\<exists>i. nearestReal exReader ''backup/a/b/c'' ''backup'' exInventory () = (Inr i, ()) \<and> di_Name i = ''backup''"
proof -
  let ?good = "realDataset exIdentities exStates ''backup''" and ?names = "ds_Name ` set exInventory"
  have dom: "?names = {''backup'', ''backup/a'', ''backup/b'', ''tank''}" by (simp add: exInventory_def)
  have nearest: "d = ''backup''" if "nearestAmong ''backup/a/b/c'' ?names ?good d" for d
    using that exReader_facts unfolding nearestAmong_def dom by (elim conjE insertE) simp_all
  obtain i where run: "nearestReal exReader ''backup/a/b/c'' ''backup'' exInventory () = (Inr i, ())"
    and i: "i = noIdentity \<and> (\<forall>d \<in> ?names. d \<noteq> [] \<and> inside ''backup/a/b/c'' d \<longrightarrow> \<not> ?good d)
       \<or> (\<exists>d. i = exIdentities d \<and> nearestAmong ''backup/a/b/c'' ?names ?good d)"
    using nearestReal_ends_at_nearest [of exReader "()" exIdentities exStates "''backup/a/b/c''" "''backup''" exInventory]
    by (auto simp: exReader_def)
  have "di_Name i = ''backup''"
    using i
  proof
    assume "i = noIdentity \<and> (\<forall>d \<in> ?names. d \<noteq> [] \<and> inside ''backup/a/b/c'' d \<longrightarrow> \<not> ?good d)"
    then show ?thesis using exReader_facts(1,2) unfolding dom by simp
  next
    assume "\<exists>d. i = exIdentities d \<and> nearestAmong ''backup/a/b/c'' ?names ?good d"
    then show ?thesis using nearest by (auto simp: exIdentities_def)
  qed
  with run show ?thesis by blast
qed

subsection \<open>A stored binding reads back\<close>

definition bindingRow :: "string \<Rightarrow> string \<Rightarrow> Property \<Rightarrow> bool" where
  "bindingRow root canonical p \<longleftrightarrow> p_Dataset p = root \<and> p_Name p = targetBindingProperty canonical \<and> p_Source p = SourceLocal"

lemma bindingRows_filter:
  "bindingRows state root target b ps = bindingRows state root target b (filter (bindingRow root (tb_CanonicalTarget target)) ps)"
proof (induction ps arbitrary: b)
  case (Cons p ps)
  then show ?case by (simp add: bindingRow_def)
qed simp

lemma decodeBindingRecord_marshal:
  assumes "list_all isASCII m" "list_all isASCII a" "pg < 2 ^ 64" "ag < 2 ^ 64"
  shows "decodeBindingRecord (marshalStruct ([(''pool_guid'', showNat pg), (''mapped'', quoteString m), (''anchor_guid'', showNat ag)]
      @ (if a = [] then [] else [(''anchor'', quoteString a)])))
    = Some \<lparr>br_PoolGUID = pg, br_Mapped = m, br_AnchorGUID = ag, br_Anchor = a\<rparr>"
proof -
  define fs where "fs = [(''pool_guid'', showNat pg, JNum (showNat pg)), (''mapped'', quoteString m, JStr (concat (map escapeChar m))),
      (''anchor_guid'', showNat ag, JNum (showNat ag))] @ (if a = [] then [] else [(''anchor'', quoteString a, JStr (concat (map escapeChar a)))])"
  have ascii: "list_all isASCII ''pool_guid''" "list_all isASCII ''mapped''" "list_all isASCII ''anchor_guid''" "list_all isASCII ''anchor''"
    by code_simp+
  have ok: "list_all (\<lambda>(k, v, j). list_all isASCII k \<and> scansTo v j) fs" "fs \<noteq> []"
    "list_all (\<lambda>(k, v, j). k \<in> set [''pool_guid'', ''mapped'', ''anchor_guid'', ''anchor''] \<and> list_all isASCII k) fs"
    using assms ascii by (auto simp: fs_def scansTo_string scansTo_nat)
  have "[(''pool_guid'', showNat pg), (''mapped'', quoteString m), (''anchor_guid'', showNat ag)]
      @ (if a = [] then [] else [(''anchor'', quoteString a)]) = map (\<lambda>(k, v, j). (k, v)) fs"
    by (simp add: fs_def)
  moreover have "foldl (\<lambda>acc (k, v, j). bindO acc (storeBindingField k j)) (Some \<lparr>br_PoolGUID = 0, br_Mapped = [], br_AnchorGUID = 0, br_Anchor = []\<rparr>) fs
    = Some \<lparr>br_PoolGUID = pg, br_Mapped = m, br_AnchorGUID = ag, br_Anchor = a\<rparr>"
    using assms by (simp add: fs_def storeBindingField_def storeString_def storeUint64_def ParseUint64_def quoteString_scans)
  ultimately show ?thesis
    by (simp add: decodeBindingRecord_def decode_marshal [OF ok(2,1)] decodeStruct_fields [OF ok(3)])
qed

lemma anchored_Inr:
  "anchored t anchor pg ag = Inr b \<Longrightarrow>
     tb_MappedDataset b = tb_MappedDataset t \<and> tb_CanonicalTarget b = tb_CanonicalTarget t \<and> tb_Anchor b = anchor
     \<and> tb_PoolGUID b = pg \<and> tb_AnchorGUID b = ag \<and> inside (tb_MappedDataset b) (tb_Anchor b)
     \<and> tb_Pool b = cutBefore anchor (CHR ''/'') \<and> tb_Transport b = tb_Transport t \<and> tb_DestinationRoot b = tb_DestinationRoot t"
  by (auto simp: anchored_def Let_def names.within_refl split: if_splits)

lemma binding_reads_back:
  assumes made: "anchored target anchor pg ag = Inr b" and valid: "validateBinding b = None"
    and name: "validDataset (tb_MappedDataset target)" "list_all isASCII (tb_MappedDataset target)" and guids: "pg < 2 ^ 64" "ag < 2 ^ 64"
  shows "\<exists>v. encodeBinding b = Inr v
    \<and> (\<forall>state root. CurrentState state root = None
         \<longrightarrow> map p_Value (filter (bindingRow root (tb_CanonicalTarget target)) (st_Properties state)) = [v]
         \<longrightarrow> storedTargetBinding state root target = Inr (Some b))"
proof -
  note b = anchored_Inr [OF made]
  define a where "a = (if tb_Anchor b \<noteq> tb_MappedDataset b then tb_Anchor b else [])"
  define v where "v = marshalStruct ([(''pool_guid'', showNat pg), (''mapped'', quoteString (tb_MappedDataset b)), (''anchor_guid'', showNat ag)]
      @ (if a = [] then [] else [(''anchor'', quoteString a)]))"
  have valid_anchor: "validDataset anchor" using validDataset_ancestor b name(1) by metis
  note anchor = valid_anchor validDataset_not_Nil [OF valid_anchor]
  have "list_all isASCII a"
    using name(2) b inside_cases [of "tb_MappedDataset b" "tb_Anchor b"] by (auto simp: a_def)
  have m: "tb_MappedDataset b = tb_MappedDataset target" using b by blast
  from \<open>list_all isASCII a\<close> have rec: "decodeBindingRecord v = Some \<lparr>br_PoolGUID = pg, br_Mapped = tb_MappedDataset target, br_AnchorGUID = ag, br_Anchor = a\<rparr>"
    unfolding v_def m using name(2) guids by (intro decodeBindingRecord_marshal)
  have dec: "decodeBinding target v = Inr b"
    using name(1) b anchor made by (cases "anchor = tb_MappedDataset target") (simp_all add: decodeBinding_def rec a_def)
  have "encodeBinding b = Inr v" using valid b by (simp add: encodeBinding_def v_def a_def Let_def)
  moreover have "storedTargetBinding state root target = Inr (Some b)"
    if "CurrentState state root = None" "map p_Value (filter (bindingRow root (tb_CanonicalTarget target)) (st_Properties state)) = [v]" for state root
  proof -
    from that(2) obtain p where p: "filter (bindingRow root (tb_CanonicalTarget target)) (st_Properties state) = [p]" "p_Value p = v" by auto
    then have "p \<in> set (filter (bindingRow root (tb_CanonicalTarget target)) (st_Properties state))" by simp
    then have "bindingRow root (tb_CanonicalTarget target) p" by simp
    then show ?thesis
      unfolding storedTargetBinding_def using that(1) p dec by (subst bindingRows_filter) (simp add: bindingRow_def)
  qed
  ultimately show ?thesis by blast
qed

text \<open>
  C0: A target binding reads back. What \<open>encodeBinding\<close> writes for the binding of a target to a live dataset, stored as the one local
  property of the root for that target, is read by \<open>storedTargetBinding\<close> as the same binding, in every state of the current
  format.
\<close>

theorem binding_roundtrip:
  assumes made: "anchored target anchor pg ag = Inr b" and valid: "validateBinding b = None"
    and name: "validDataset (tb_MappedDataset target)" "list_all isASCII (tb_MappedDataset target)" and guids: "pg < 2 ^ 64" "ag < 2 ^ 64"
  shows "\<exists>v. encodeBinding b = Inr v
    \<and> (\<forall>state root. CurrentState state root = None
         \<longrightarrow> map p_Value (filter (bindingRow root (tb_CanonicalTarget target)) (st_Properties state)) = [v]
         \<longrightarrow> storedTargetBinding state root target = Inr (Some b))"
  using assms by (rule binding_reads_back)

text \<open>
  C0: A binding that is verified before it is relied on is the live identity of its anchor: the dataset the stored binding names was
  read, and its name and GUID and its pool's GUID are those of the binding; the mapped dataset lies inside the anchor and is the
  one configuration maps the root to; nothing else was asked of the destination.
\<close>

theorem verified_binding_is_live:
  assumes "VerifyTargetBinding reader source request w = (Inr b, w')"
  shows "\<exists>identity mappedRoot target. mapped request (rq_Source request) = Inr (mappedRoot, target)
    \<and> storedTargetBinding source (rq_Source request)
        (bindingTemplate request mappedRoot (requestTransport request) (canonicalTarget request)) = Inr (Some b)
    \<and> zInspectDatasetIdentity reader (tb_Anchor b) w = (Inr identity, w')
    \<and> di_Name identity = tb_Anchor b \<and> di_GUID identity = tb_AnchorGUID b \<and> di_PoolGUID identity = tb_PoolGUID b
    \<and> tb_PoolGUID b \<noteq> 0 \<and> tb_AnchorGUID b \<noteq> 0
    \<and> tb_MappedDataset b = mappedRoot \<and> inside mappedRoot (tb_Anchor b)
    \<and> tb_CanonicalTarget b = canonicalTarget request \<and> tb_Transport b = requestTransport request"
proof -
  from assms obtain target where target: "bindingTarget request = Inr target"
    and stored: "storedTargetBinding source (rq_Source request) target = Inr (Some b)" and valid: "validateBinding b = None"
    and rest: "ioBind (zInspectDatasetIdentity reader (tb_Anchor b)) (\<lambda>identity.
            ioBind (ioLift (anchored target (di_Name identity) (di_PoolGUID identity) (di_GUID identity))) (\<lambda>resolved.
            if resolved \<noteq> b then ioFail (Errorf ''target identity differs from persistent binding'' [])
            else ioReturn b)) w = (Inr b, w')"
    by (auto simp: VerifyTargetBinding_def io_iffs split: option.splits if_splits)
  from target obtain m t where m: "mapped request (rq_Source request) = Inr (m, t)"
    and tmpl: "target = bindingTemplate request m (requestTransport request) (canonicalTarget request)"
    by (auto simp: bindingTarget_def result_iffs)
  from rest obtain identity where id: "zInspectDatasetIdentity reader (tb_Anchor b) w = (Inr identity, w')"
    and anch: "anchored target (di_Name identity) (di_PoolGUID identity) (di_GUID identity) = Inr b"
    by (auto simp: io_iffs split: if_splits)
  have "tb_PoolGUID b \<noteq> 0 \<and> tb_AnchorGUID b \<noteq> 0" using valid by (auto simp: validateBinding_def split: if_splits)
  with anchored_Inr [OF anch] id m stored tmpl show ?thesis by (auto simp: bindingTemplate_def)
qed

definition exSendPolicy :: Effective where
  "exSendPolicy =
     \<lparr>e_Enabled = True, e_Grid = zeroGrid, e_Remote = [], e_Local = [''backup/tank''], e_Incremental = ''latest'',
      e_Requested = \<lparr>f_LargeBlocks = True, f_Compressed = True, f_EmbeddedData = False, f_Raw = False, f_Props = False, f_Replicate = False\<rparr>,
      e_Send = \<lparr>f_LargeBlocks = True, f_Compressed = True, f_EmbeddedData = False, f_Raw = False, f_Props = False, f_Replicate = False\<rparr>,
      e_SetProperties = [], e_IgnoreProperties = [], e_Discard = ''off'',
      e_Values = [(Namespace @ ''enabled'', \<lparr>v_Value = ''on'', v_Dataset = ''tank''\<rparr>)], e_Warnings = [], e_Errors = []\<rparr>"

definition exRequest :: Request where
  "exRequest =
     \<lparr>rq_Source = ''tank'', rq_DestinationRoot = ''backup/tank'', rq_Snapshot = [], rq_Policy = exSendPolicy, rq_Members = [],
      rq_Transport = [], rq_RemoteName = [], rq_CanonicalTarget = [], rq_HostLocal = False\<rparr>"

abbreviation exCanonical :: string where "exCanonical \<equiv> ''local:backup/tank''"

definition exTemplate :: TargetBinding where
  "exTemplate = bindingTemplate exRequest ''backup/tank'' ''local'' exCanonical"

definition exBinding :: TargetBinding where
  "exBinding = exTemplate\<lparr>tb_Pool := ''backup'', tb_PoolGUID := 7, tb_Anchor := ''backup'', tb_AnchorGUID := 9, tb_RelativePath := ''tank''\<rparr>"

text \<open>The state of a root this installation owns, with a stored binding.\<close>

definition exBoundState :: "string \<Rightarrow> State" where
  "exBoundState v = exAuthority\<lparr>st_Properties := st_Properties exAuthority
     @ [\<lparr>p_Dataset = ''tank'', p_Name = targetBindingProperty exCanonical, p_Value = v, p_Source = SourceLocal\<rparr>]\<rparr>"

lemma targetBindingProperty_long: "targetBindingProperty c \<noteq> TargetStatePrefix"
  using EncodeToString_hex(2) [of "Sum256 c"] length_Sum256 [of c] by (auto simp: targetBindingProperty_def TargetID_def)

lemma exBinding_anchored: "anchored exTemplate ''backup'' 7 9 = Inr exBinding"
proof -
  have "inside ''backup/tank'' ''backup'' \<and> TrimPrefix ''backup/tank'' ''backup/'' = ''tank'' \<and> pathClean ''tank'' = ''tank''
      \<and> cutBefore ''backup'' (CHR ''/'') = ''backup''" by code_simp
  then show ?thesis by (simp add: anchored_def exBinding_def exTemplate_def bindingTemplate_def Let_def)
qed

lemma exBinding_valid: "validateBinding exBinding = None"
  using targetBindingProperty_long
  by (simp add: validateBinding_def exBinding_def exTemplate_def bindingTemplate_def exRequest_def)

lemma marker_not_binding:
  "LineageProperty \<noteq> targetBindingProperty c" "OwnerProperty \<noteq> targetBindingProperty c" "VersionProperty \<noteq> targetBindingProperty c"
  by (simp_all add: LineageProperty_def targetBindingProperty_def)

lemma exBoundState_rows:
  "map p_Value (filter (bindingRow ''tank'' exCanonical) (st_Properties (exBoundState v))) = [v]"
  by (simp add: exBoundState_def exAuthority_def authorityProperties_eq bindingRow_def marker_not_binding)

lemma exBoundState_authority:
  "RootAuthority (exBoundState v) ''tank'' ''03030303-0303-4303-8303-030303030303'' = Inr ''01010101-0101-4101-8101-010101010101''"
proof (rule authority_reads_back)
  show "Valid ''03030303-0303-4303-8303-030303030303''" "Valid ''01010101-0101-4101-8101-010101010101''" "validDataset ''tank''"
    by code_simp+
  show "filter (\<lambda>p. p_Dataset p = ''tank'' \<and> p_Name p \<in> {OwnerProperty, LineageProperty, VersionProperty}) (st_Properties (exBoundState v))
    = map (\<lambda>(k, v). \<lparr>p_Dataset = ''tank'', p_Name = k, p_Value = v, p_Source = SourceLocal\<rparr>)
        (authorityProperties ''03030303-0303-4303-8303-030303030303'' ''01010101-0101-4101-8101-010101010101'')"
    using marker_not_binding [symmetric] by (simp add: exBoundState_def exAuthority_def authorityProperties_eq)
  show "receivedValue (exBoundState v) ''tank'' LineageProperty = []"
    by (simp add: exBoundState_def exAuthority_def receivedValue_def emptyState_def mindex_def)
qed

lemma exBoundState_current: "CurrentState (exBoundState v) ''tank'' = None"
  using exBoundState_authority RootAuthority_iff by blast

lemma exBinding_names: "validDataset (tb_MappedDataset exTemplate)" "list_all isASCII (tb_MappedDataset exTemplate)"
  "(7 :: nat) < 2 ^ 64" "(9 :: nat) < 2 ^ 64" "tb_CanonicalTarget exTemplate = exCanonical"
  by (simp_all add: exTemplate_def bindingTemplate_def) code_simp+

theorem binding_roundtrip_witness:
  "\<exists>v. encodeBinding exBinding = Inr v \<and> storedTargetBinding (exBoundState v) ''tank'' exTemplate = Inr (Some exBinding)"
  using binding_roundtrip [OF exBinding_anchored exBinding_valid exBinding_names(1,2,3,4)] exBoundState_current exBoundState_rows
    exBinding_names(5) by metis

definition exDisk :: "unit Destination" where
  "exDisk = exReader\<lparr>zInspectDatasetIdentity := (\<lambda>d. ioReturn (noIdentity\<lparr>di_Name := d, di_GUID := 9, di_PoolGUID := 7\<rparr>))\<rparr>"

theorem verified_binding_is_live_witness:
  "\<exists>v identity. encodeBinding exBinding = Inr v \<and> VerifyTargetBinding exDisk (exBoundState v) exRequest () = (Inr exBinding, ())
    \<and> zInspectDatasetIdentity exDisk ''backup'' () = (Inr identity, ()) \<and> di_GUID identity = 9"
proof -
  obtain v where v: "encodeBinding exBinding = Inr v" and st: "storedTargetBinding (exBoundState v) ''tank'' exTemplate = Inr (Some exBinding)"
    using binding_reads_back [OF exBinding_anchored exBinding_valid exBinding_names(1,2,3,4)] exBoundState_current exBoundState_rows
      exBinding_names(5) by metis
  have "mapped exRequest ''tank'' = Inr (''backup/tank'', ''backup/tank'')" by code_simp
  then have target: "bindingTarget exRequest = Inr exTemplate"
    by (simp add: bindingTarget_def exTemplate_def exRequest_def requestTransport_def canonicalTarget_def canonicalLocalTarget_def)
  have anchor: "tb_Anchor exBinding = ''backup''" "rq_Source exRequest = ''tank''" by (simp_all add: exBinding_def exRequest_def)
  have run: "VerifyTargetBinding exDisk (exBoundState v) exRequest () = (Inr exBinding, ())"
    using exBinding_anchored
    by (simp add: VerifyTargetBinding_def target anchor st exBinding_valid exDisk_def ioBind_def ioLift_def)
  from verified_binding_is_live [OF run] obtain identity
    where "zInspectDatasetIdentity exDisk (tb_Anchor exBinding) () = (Inr identity, ())" "di_GUID identity = tb_AnchorGUID exBinding" by blast
  with run v anchor show ?thesis by (auto simp: exBinding_def)
qed

end
