(* ===== verification/Transfer_Plan.thy ===== *)
theory Transfer_Plan
  imports Transfer_Binding
begin

section \<open>Transfer plans\<close>

text \<open>
  \<open>Build\<close> of \<open>internal/transfer/plan.go\<close> and \<open>BuildResume\<close> of \<open>internal/transfer/resume.go\<close>: from a request and an inventory of both
  sides, the send and the receive of one stream, with the snapshots that must exist afterwards. Each group of checks of the code
  is a definition of its own, composed in the order of the code. Of a plan that is returned with an error only the error is kept.
  The warnings are not rendered, so they are kept in the order they arise instead of the order of their texts.
\<close>

subsection \<open>Views and plans\<close>

record View =
  vw_Stream :: string
  vw_Inventory :: "Dataset list"
  vw_DestinationInventory :: "Dataset list option"
  vw_Source :: State
  vw_Destination :: State
  vw_DestinationExists :: bool
  vw_DestinationIdentity :: DatasetIdentity
  vw_RootDestinationExists :: bool
  vw_RootDestinationIdentity :: DatasetIdentity
  vw_BindingIdentity :: DatasetIdentity

record Expected =
  ex_Source :: string
  ex_Destination :: string
  ex_GUID :: nat
  ex_Metadata :: "Metadata option"

record Plan =
  pl_Source :: string
  pl_Destination :: string
  pl_Snapshot :: string
  pl_Base :: string
  pl_Lineage :: string
  pl_Mode :: string
  pl_Send :: SendOptions
  pl_Receive :: ReceiveOptions
  pl_Expected :: "Expected list"
  pl_Endpoints :: "Expected list"
  pl_Warnings :: "go_error list"
  pl_TargetBinding :: TargetBinding
  pl_BindingNew :: bool

definition destinationInventory :: "Request \<Rightarrow> View \<Rightarrow> Dataset list" where
  "destinationInventory request view =
     (if requestTransport request = ''local'' then vw_Inventory view
      else (case vw_DestinationInventory view of None \<Rightarrow> vw_Inventory view | Some inventory \<Rightarrow> inventory))"

definition canResumeFromBookmark :: "Effective \<Rightarrow> bool" where
  "canResumeFromBookmark effective = (e_Incremental effective = ''latest'' \<and> \<not> f_Replicate (e_Send effective))"

definition streamPolicy :: "Request \<Rightarrow> Member \<Rightarrow> Effective result" where
  "streamPolicy request stream =
     (if mb_Dataset stream = rq_Source request then Inr (rq_Policy request)
      else
        (let p = mb_Policy stream;
             configured = (if requestTransport request \<noteq> ''local'' then rq_RemoteName request \<in> set (e_Remote p)
                           else rq_DestinationRoot request \<in> set (e_Local p)) in
         if \<not> e_Enabled p \<or> \<not> policyValid p then Inl (Errorf ''member %s policy must be enabled and valid'' [Arg (mb_Dataset stream)])
         else if f_Replicate (e_Send p) then Inl (Errorf ''member %s cannot send recursively'' [Arg (mb_Dataset stream)])
         else if e_Discard p \<noteq> e_Discard (rq_Policy request)
         then Inl (Errorf ''member %s does not share the root's receive mapping'' [Arg (mb_Dataset stream)])
         else if \<not> configured then Inl (Errorf ''member %s does not send to this target'' [Arg (mb_Dataset stream)])
         else Inr p))"

text \<open>\<open>ownership\<close> of an object of a state; \<open>objectNamed\<close> is the lookup in \<open>objectMap\<close>.\<close>

definition objectOwnership :: "State \<Rightarrow> Object \<Rightarrow> string \<Rightarrow> Metadata result" where
  "objectOwnership state ob lineage =
     Ownership \<lparr>sn_Name = ob_Name ob, sn_GUID = ob_GUID ob, sn_Properties = filter (\<lambda>p. p_Dataset p = ob_Name ob) (st_Properties state),
       sn_Holds = [], sn_Clones = [], sn_ResumeRequired = False\<rparr> lineage"

definition completeReceiveExclusions :: "ReceiveOptions \<Rightarrow> Effective \<Rightarrow> State \<Rightarrow> ReceiveOptions" where
  "completeReceiveExclusions options p source =
     options\<lparr>ro_Exclude := SortCompact (ro_Exclude options @ filter IsPublic (mkeys (e_Values p))
       @ filter (\<lambda>name. IsPublic name \<or> HasPrefix name ReferencePrefix \<or> HasPrefix name TargetStatePrefix)
           (map p_Name (st_Properties source)))\<rparr>"

subsection \<open>Checks on the request\<close>

text \<open>What both plans check first: the root, its policy, the stream and the stream's policy.\<close>

definition planStream :: "Request \<Rightarrow> View \<Rightarrow> (Member \<times> Effective) result" where
  "planStream request view =
     failIf (validateDataset (rq_Source request))
       (if \<not> e_Enabled (rq_Policy request) \<or> \<not> policyValid (rq_Policy request)
        then Inl (Errorf ''source policy must be enabled and valid'' [])
        else failIf (ActiveRoot (rq_Policy request) (rq_Source request))
          (bindE (streamNamed request (if vw_Stream view = [] then rq_Source request else vw_Stream view)) (\<lambda>stream.
           bindE (streamPolicy request stream) (\<lambda>p. Inr (stream, p)))))"

definition planCanonical :: "Request \<Rightarrow> Member \<Rightarrow> string result" where
  "planCanonical request stream =
     (let transport = requestTransport request; canonical = rq_CanonicalTarget request; isRoot = (mb_Dataset stream = rq_Source request) in
      if transport = ''local'' then
        (if rq_DestinationRoot request \<notin> set (e_Local (rq_Policy request)) \<and> isRoot
         then Inl (Errorf ''destination is not configured by the source local property'' [])
         else
           (let canonical = (if canonical = [] then canonicalLocalTarget (rq_DestinationRoot request) else canonical) in
            if canonical \<noteq> canonicalLocalTarget (rq_DestinationRoot request)
            then Inl (Errorf ''local canonical target does not match destination'' [])
            else Inr canonical))
      else if transport = ''ssh'' \<or> transport = ''native'' then
        (if rq_RemoteName request = [] \<or> (isRoot \<and> rq_RemoteName request \<notin> set (e_Remote (rq_Policy request)))
         then Inl (Errorf ''remote is not configured by the source remote property'' [])
         else if canonical = [] \<or> ContainsAny canonical lineBreaks then Inl (Errorf ''canonical remote target is required'' [])
         else Inr canonical)
      else Inl (Errorf ''unsupported transfer transport %q'' [Arg transport]))"

definition planMapped :: "Request \<Rightarrow> Member \<Rightarrow> (string \<times> string) result" where
  "planMapped request stream =
     bindE (mapped request (mb_Dataset stream)) (\<lambda>(mappedRoot, target).
       if requestTransport request = ''local'' \<and> (inside mappedRoot (rq_Source request) \<or> inside (rq_Source request) mappedRoot)
       then Inl (Errorf ''source and destination scopes overlap'' [])
       else Inr (mappedRoot, target))"

subsection \<open>Checks on the view\<close>

definition presentDataset :: "State \<Rightarrow> string \<Rightarrow> bool" where
  "presentDataset state name = (case objectNamed state name of Some ob \<Rightarrow> ob_GUID ob \<noteq> 0 \<and> isDataset ob | None \<Rightarrow> False)"

definition checkScopes :: "Request \<Rightarrow> View \<Rightarrow> string \<Rightarrow> go_error option" where
  "checkScopes request view target =
     (if list_ex (\<lambda>ob. \<not> inside (datasetOf (ob_Name ob)) (rq_Source request)) (st_Objects (vw_Source view))
      then Some (Errorf ''source inventory escapes selected scope'' [])
      else if list_ex (\<lambda>ob. \<not> inside (datasetOf (ob_Name ob)) target) (st_Objects (vw_Destination view))
      then Some (Errorf ''destination inventory escapes selected scope'' [])
      else None)"

fun inventoryMap :: "string \<Rightarrow> (string, Dataset) gomap \<Rightarrow> Dataset list \<Rightarrow> (string, Dataset) gomap result" where
  "inventoryMap message seen [] = Inr seen"
| "inventoryMap message seen (d # ds) =
     (if mget seen (ds_Name d) \<noteq> None then Inl (Errorf message [Arg (ds_Name d)])
      else inventoryMap message (mput (ds_Name d) d seen) ds)"

abbreviation noDataset :: Dataset where "noDataset \<equiv> \<lparr>ds_Name = [], ds_Type = [], ds_EncryptionRoot = []\<rparr>"

definition datasetIn :: "(string, Dataset) gomap \<Rightarrow> string \<Rightarrow> Dataset" where
  "datasetIn m name = (case mget m name of Some d \<Rightarrow> d | None \<Rightarrow> noDataset)"

definition checkInventory :: "State \<Rightarrow> (string, Dataset) gomap \<Rightarrow> go_error option" where
  "checkInventory state inventory =
     map_option (\<lambda>ob. Errorf ''source dataset lacks complete matching inventory: %s'' [Arg (ob_Name ob)])
       (find (\<lambda>ob. isDataset ob \<and> (mget inventory (ob_Name ob) = None \<or> ds_Type (datasetIn inventory (ob_Name ob)) \<noteq> ob_Type ob
               \<or> ds_EncryptionRoot (datasetIn inventory (ob_Name ob)) = [])) (st_Objects state))"

definition identityListed :: "(string, Dataset) gomap \<Rightarrow> DatasetIdentity \<Rightarrow> bool" where
  "identityListed datasets identity =
     (di_Name identity \<noteq> [] \<and> ds_Name (datasetIn datasets (di_Name identity)) \<noteq> []
      \<and> ds_Type (datasetIn datasets (di_Name identity)) = di_Type identity)"

definition checkDestination :: "View \<Rightarrow> string \<Rightarrow> string \<Rightarrow> (string, Dataset) gomap \<Rightarrow> go_error option" where
  "checkDestination view mappedRoot target datasets =
     (let root = vw_RootDestinationIdentity view in
      if \<not> identityListed datasets (vw_DestinationIdentity view)
      then Some (Errorf ''destination identity does not match sparse inventory'' [])
      else if \<not> identityListed datasets root \<or> (vw_RootDestinationExists view \<and> di_Name root \<noteq> mappedRoot)
              \<or> (\<not> vw_RootDestinationExists view \<and> \<not> inside mappedRoot (di_Name root))
      then Some (Errorf ''root destination identity does not match sparse inventory'' [])
      else if vw_DestinationExists view then
        (case objectNamed (vw_Destination view) target of
           None \<Rightarrow> Some (Errorf ''destination identity does not match exact destination root'' [])
         | Some ob \<Rightarrow>
             if di_Name (vw_DestinationIdentity view) \<noteq> target \<or> ob_GUID ob \<noteq> di_GUID (vw_DestinationIdentity view)
                \<or> ob_Type ob \<noteq> di_Type (vw_DestinationIdentity view)
             then Some (Errorf ''destination identity does not match exact destination root'' [])
             else None)
      else if nearestExisting target (map snd datasets) \<noteq> di_Name (vw_DestinationIdentity view)
      then Some (Errorf ''destination identity is not the nearest existing ancestor'' [])
      else None)"

text \<open>The policy with what an encrypted descendant changes.\<close>

definition scopePolicy :: "Request \<Rightarrow> View \<Rightarrow> (string, Dataset) gomap \<Rightarrow> Member \<Rightarrow> Effective \<Rightarrow> Effective result" where
  "scopePolicy request view inventory stream p =
     (let encrypted = isEncrypted (datasetIn inventory (mb_Dataset stream));
          descendant = (case find (\<lambda>d. ds_Name d \<noteq> rq_Source request \<and> inside (ds_Name d) (rq_Source request) \<and> isEncrypted d)
                               (vw_Inventory view) of Some d \<Rightarrow> ds_Name d | None \<Rightarrow> []);
          p = (if f_Replicate (e_Send p) then ForReplicationScope p encrypted descendant else p) in
      if \<not> policyValid p then Inl (Errorf ''replication-scope policy is invalid: %s'' (map Wrap (e_Errors p)))
      else if encrypted \<and> f_Props (e_Send p) \<and> \<not> f_Raw (e_Send p) then Inl (Errorf ''encrypted property streams require raw mode'' [])
      else Inr p)"

subsection \<open>The binding\<close>

definition planBinding :: "Request \<Rightarrow> View \<Rightarrow> string \<Rightarrow> string \<Rightarrow> (TargetBinding \<times> bool) result" where
  "planBinding request view mappedRoot canonical =
     (let transport = requestTransport request in
      bindE (bindingForTarget request mappedRoot (vw_RootDestinationIdentity view) transport canonical) (\<lambda>wanted.
      bindE (storedTargetBinding (vw_Source view) (rq_Source request) wanted) (\<lambda>stored.
        case stored of
          None \<Rightarrow> Inr (wanted, True)
        | Some b \<Rightarrow>
            failIf (validateBinding b)
              (bindE
                (if vw_RootDestinationExists view then Inr wanted
                 else if di_Name (vw_BindingIdentity view) = [] then Inl (Errorf ''bound destination identity is missing'' [])
                 else bindingForTarget request mappedRoot (vw_BindingIdentity view) transport canonical) (\<lambda>verified.
               if b \<noteq> verified
               then Inl (Errorf ''target identity or mapping differs from persistent binding; run boomerangz dataset reseed for this source and target'' [])
               else Inr (b, False))))))"

text \<open>A recursive stream is refused when the target was last sent one stream per member.\<close>

definition checkRecursive :: "Request \<Rightarrow> View \<Rightarrow> Effective \<Rightarrow> string \<Rightarrow> TargetBinding \<Rightarrow> go_error option" where
  "checkRecursive request view p lineage binding =
     (if \<not> f_Replicate (e_Send p) then None
      else
        (case referenceRecords (vw_Source view) (rq_Source request) lineage of
           Inl e \<Rightarrow> Some e
         | Inr refs \<Rightarrow>
             if list_ex (\<lambda>r. rf_TargetID r = TargetID (tb_CanonicalTarget binding) \<and> rf_Dataset r \<noteq> rq_Source request) refs
             then Some (Errorf ''target was last replicated one stream per member, and replicate=on needs a replica of the whole subtree; run boomerangz dataset reseed for this source and target'' [])
             else None))"

subsection \<open>The snapshot that is sent\<close>

abbreviation noObject :: Object where
  "noObject \<equiv> \<lparr>ob_Name = [], ob_Type = [], ob_GUID = 0, ob_Creation = 0, ob_CreateTXG = 0\<rparr>"

fun selectEndpoint :: "State \<Rightarrow> Member \<Rightarrow> string \<Rightarrow> Object \<Rightarrow> Object list \<Rightarrow> Object result" where
  "selectEndpoint state stream lineage endpoint [] = Inr endpoint"
| "selectEndpoint state stream lineage endpoint (ob # obs) =
     (if ob_Type ob \<noteq> ''snapshot'' \<or> datasetOf (ob_Name ob) \<noteq> mb_Dataset stream
         \<or> (mb_Snapshot stream \<noteq> [] \<and> ob_Name ob \<noteq> mb_Snapshot stream) \<or> \<not> is_ok (objectOwnership state ob lineage)
      then selectEndpoint state stream lineage endpoint obs
      else if ob_CreateTXG ob = 0 then Inl (Errorf ''snapshot creation transaction is missing'' [])
      else selectEndpoint state stream lineage (if ob_CreateTXG ob > ob_CreateTXG endpoint then ob else endpoint) obs)"

definition planEndpoint :: "View \<Rightarrow> Member \<Rightarrow> string \<Rightarrow> Object result" where
  "planEndpoint view stream lineage =
     bindE (selectEndpoint (vw_Source view) stream lineage noObject (st_Objects (vw_Source view))) (\<lambda>endpoint.
       if ob_Name endpoint = [] then Inl (Errorf ''no selected owned snapshot exists'' []) else Inr endpoint)"

text \<open>The check of what exists at a mapped dataset, and one round of the loop that collects the endpoints.\<close>

definition checkMapped :: "View \<Rightarrow> string \<Rightarrow> Object \<Rightarrow> string \<Rightarrow> go_error option" where
  "checkMapped view lineage ob mappedName =
     (case objectNamed (vw_Destination view) mappedName of
        None \<Rightarrow> None
      | Some existing \<Rightarrow>
          if ob_Type existing \<noteq> ob_Type ob then Some (Errorf ''source/destination dataset types differ'' [])
          else
            (case storedLineage (vw_Destination view) mappedName of
               Inl e \<Rightarrow> Some e
             | Inr l \<Rightarrow> if l \<noteq> [] \<and> l \<noteq> lineage then Some (Errorf ''destination has a conflicting lineage'' []) else None))"

definition mappedName :: "Request \<Rightarrow> string \<Rightarrow> string \<Rightarrow> string" where
  "mappedName request mappedRoot name = mappedRoot @ TrimPrefix name (rq_Source request)"

definition endpointOf :: "Request \<Rightarrow> View \<Rightarrow> string \<Rightarrow> string \<Rightarrow> string \<Rightarrow> Object \<Rightarrow> Expected result" where
  "endpointOf request view mappedRoot lineage component ob =
     bindE (storedLineage (vw_Source view) (ob_Name ob)) (\<lambda>childLineage.
       if childLineage \<noteq> [] \<and> childLineage \<noteq> lineage then Inl (Errorf ''conflicting source lineage on %s'' [Arg (ob_Name ob)])
       else
         (case objectNamed (vw_Source view) (ob_Name ob @ ''@'' @ component) of
            None \<Rightarrow> Inl (Errorf ''replication endpoint missing on %s'' [Arg (ob_Name ob)])
          | Some snap \<Rightarrow>
              bindE (objectOwnership (vw_Source view) snap lineage) (\<lambda>metadata.
                let name = mappedName request mappedRoot (ob_Name ob) in
                failIf (checkMapped view lineage ob name)
                  (Inr \<lparr>ex_Source = ob_Name snap, ex_Destination = name @ ''@'' @ component, ex_GUID = ob_GUID snap, ex_Metadata = Some metadata\<rparr>))))"

fun collectE :: "('a \<Rightarrow> 'b result) \<Rightarrow> 'a list \<Rightarrow> 'b list result" where
  "collectE f [] = Inr []"
| "collectE f (x # xs) = bindE (f x) (\<lambda>y. bindE (collectE f xs) (\<lambda>ys. Inr (y # ys)))"

definition planEndpoints :: "Request \<Rightarrow> View \<Rightarrow> Member \<Rightarrow> Effective \<Rightarrow> string \<Rightarrow> string \<Rightarrow> string \<Rightarrow> Expected list result" where
  "planEndpoints request view stream p mappedRoot lineage component =
     collectE (endpointOf request view mappedRoot lineage component)
       (filter (\<lambda>ob. isDataset ob \<and> (f_Replicate (e_Send p) \<or> ob_Name ob = mb_Dataset stream)) (st_Objects (vw_Source view)))"

fun alreadyReceived :: "State \<Rightarrow> bool \<Rightarrow> Expected list \<Rightarrow> bool result" where
  "alreadyReceived dest already [] = Inr already"
| "alreadyReceived dest already (x # xs) =
     (case objectNamed dest (ex_Destination x) of
        None \<Rightarrow> alreadyReceived dest False xs
      | Some ob \<Rightarrow>
          if ob_GUID ob \<noteq> ex_GUID x then Inl (Errorf ''destination snapshot name has a different GUID'' [])
          else alreadyReceived dest already xs)"

subsection \<open>Mode and base\<close>

definition checkParent :: "Request \<Rightarrow> Member \<Rightarrow> Effective \<Rightarrow> (string, Dataset) gomap \<Rightarrow> go_error option" where
  "checkParent request stream p datasets =
     (let remoteMember = (requestTransport request \<noteq> ''local'' \<and> mb_Dataset stream \<noteq> rq_Source request);
          root = rq_DestinationRoot request; index = LastIndexByte root (CHR ''/'');
          up = (e_Discard p = ReceiveExact \<and> \<not> remoteMember) in
      if up \<and> index < 0 then Some (Errorf ''cannot bootstrap into an absent pool root'' [])
      else
        (let parent = (if up then take (nat index) root else root) in
         if mget datasets parent \<noteq> None then None
         else if e_Discard p = ReceiveExact \<and> remoteMember
         then Some (Errorf ''remote %s has no configured root %s, which %s's stream receives beneath and only %s's own stream would create; create it on the remote, or send %s to this remote too''
           [Arg (rq_RemoteName request), Arg parent, Arg (mb_Dataset stream), Arg (rq_Source request), Arg (rq_Source request)])
         else Some (Errorf ''receive parent %s does not exist'' [Arg parent])))"

definition latestSnapshot :: "State \<Rightarrow> string \<Rightarrow> Object" where
  "latestSnapshot dest target =
     foldl (\<lambda>latest ob. if ob_Type ob = ''snapshot'' \<and> datasetOf (ob_Name ob) = target \<and> ob_CreateTXG ob > ob_CreateTXG latest then ob else latest)
       noObject (st_Objects dest)"

definition snapshotBase :: "View \<Rightarrow> Member \<Rightarrow> string \<Rightarrow> Object \<Rightarrow> Object \<Rightarrow> Object option" where
  "snapshotBase view stream lineage endpoint latest =
     find (\<lambda>ob. datasetOf (ob_Name ob) = mb_Dataset stream \<and> ob_GUID ob = ob_GUID latest \<and> ob_CreateTXG ob < ob_CreateTXG endpoint
         \<and> ob_Type ob = ''snapshot'' \<and> is_ok (objectOwnership (vw_Source view) ob lineage)) (st_Objects (vw_Source view))"

fun bookmarkBase :: "View \<Rightarrow> Member \<Rightarrow> TargetBinding \<Rightarrow> Object \<Rightarrow> Object \<Rightarrow> Reference list \<Rightarrow> Object option" where
  "bookmarkBase view stream binding endpoint latest [] = None"
| "bookmarkBase view stream binding endpoint latest (r # rs) =
     (case objectNamed (vw_Source view) (referenceBookmark r) of
        Some ob \<Rightarrow>
          if rf_TargetID r = TargetID (tb_CanonicalTarget binding) \<and> rf_Dataset r = mb_Dataset stream \<and> ob_Type ob = ''bookmark''
             \<and> ob_GUID ob = ob_GUID latest \<and> ob_CreateTXG ob > 0 \<and> ob_CreateTXG ob < ob_CreateTXG endpoint
          then Some ob
          else bookmarkBase view stream binding endpoint latest rs
      | None \<Rightarrow> bookmarkBase view stream binding endpoint latest rs)"

definition planBase :: "Request \<Rightarrow> View \<Rightarrow> Member \<Rightarrow> Effective \<Rightarrow> string \<Rightarrow> string \<Rightarrow> TargetBinding \<Rightarrow> Object \<Rightarrow> Object result" where
  "planBase request view stream p target lineage binding endpoint =
     (let latest = latestSnapshot (vw_Destination view) target in
      if ob_Name latest = []
      then Inl (Errorf ''existing destination has no common base; run boomerangz dataset reseed for this source and target'' [])
      else
        (case snapshotBase view stream lineage endpoint latest of
           Some ob \<Rightarrow> Inr ob
         | None \<Rightarrow>
             bindE (if canResumeFromBookmark p
                    then bindE (referenceRecords (vw_Source view) (rq_Source request) lineage) (\<lambda>refs.
                      Inr (bookmarkBase view stream binding endpoint latest refs))
                    else Inr None) (\<lambda>found.
               case found of
                 Some ob \<Rightarrow> Inr ob
               | None \<Rightarrow> Inl (Errorf ''destination latest snapshot has no eligible common source base; run boomerangz dataset reseed for this source and target'' []))))"

text \<open>The mode of the plan with the base, which is missing unless the stream is incremental.\<close>

definition planMode ::
  "Request \<Rightarrow> View \<Rightarrow> Member \<Rightarrow> Effective \<Rightarrow> string \<Rightarrow> string \<Rightarrow> TargetBinding \<Rightarrow> Object \<Rightarrow> (string, Dataset) gomap \<Rightarrow> bool
     \<Rightarrow> (string \<times> Object option) result" where
  "planMode request view stream p target lineage binding endpoint datasets already =
     (if already then Inr (''up-to-date'', None)
      else if \<not> vw_DestinationExists view then failIf (checkParent request stream p datasets) (Inr (''full'', None))
      else bindE (planBase request view stream p target lineage binding endpoint) (\<lambda>base.
        Inr (if e_Incremental p = ''all'' then ''incremental-all'' else ''incremental-latest'', Some base)))"

subsection \<open>The plan\<close>

definition sendOptions :: "Member \<Rightarrow> Effective \<Rightarrow> Object \<Rightarrow> Object option \<Rightarrow> SendOptions" where
  "sendOptions stream p endpoint base =
     \<lparr>so_Source = mb_Dataset stream, so_Snapshot = ob_Name endpoint, so_ResumeToken = [],
      so_Base = (case base of Some ob \<Rightarrow> ob_Name ob | None \<Rightarrow> []), so_Intermediates = (base \<noteq> None \<and> e_Incremental p = ''all''),
      so_Recursive = f_Replicate (e_Send p), so_LargeBlocks = f_LargeBlocks (e_Send p), so_Compressed = f_Compressed (e_Send p),
      so_EmbeddedData = f_EmbeddedData (e_Send p), so_Raw = f_Raw (e_Send p), so_Properties = f_Props (e_Send p)\<rparr>"

definition receiveOptions :: "Effective \<Rightarrow> string \<Rightarrow> string \<Rightarrow> State \<Rightarrow> ReceiveOptions" where
  "receiveOptions p kind target source =
     completeReceiveExclusions
       \<lparr>ro_Root = target, ro_Discard = ReceiveExact,
        ro_Set = (if kind = Filesystem \<and> mget (e_SetProperties p) ''canmount'' = None
                  then mput ''canmount'' ''noauto'' (e_SetProperties p) else e_SetProperties p),
        ro_Exclude = e_IgnoreProperties p\<rparr> p source"

text \<open>Whether the stream carries a snapshot of the source, and what it is expected to be after the receive.\<close>

definition streamed :: "Member \<Rightarrow> SendOptions \<Rightarrow> string \<Rightarrow> Object \<Rightarrow> nat \<Rightarrow> string \<Rightarrow> Object \<Rightarrow> bool" where
  "streamed stream send mode endpoint baseTXG component ob =
     (ob_Type ob = ''snapshot'' \<and> ob_CreateTXG ob \<noteq> 0 \<and> ob_CreateTXG ob \<le> ob_CreateTXG endpoint
      \<and> (so_Recursive send \<or> datasetOf (ob_Name ob) = mb_Dataset stream)
      \<and> mode \<noteq> ''up-to-date''
      \<and> (if so_Intermediates send then ob_CreateTXG ob > baseTXG
         else if so_Recursive send then mode = ''full'' \<or> (ob_CreateTXG ob > baseTXG \<and> HasSuffix (ob_Name ob) (''@'' @ component))
         else ob_Name ob = ob_Name endpoint))"

definition expectedOf :: "Request \<Rightarrow> View \<Rightarrow> string \<Rightarrow> string \<Rightarrow> Object \<Rightarrow> Expected" where
  "expectedOf request view mappedRoot lineage ob =
     \<lparr>ex_Source = ob_Name ob, ex_Destination = mappedName request mappedRoot (ob_Name ob), ex_GUID = ob_GUID ob,
      ex_Metadata = (case objectOwnership (vw_Source view) ob lineage of Inr m \<Rightarrow> Some m | Inl _ \<Rightarrow> None)\<rparr>"

text \<open>What \<open>Build\<close> does once stream, policy and destination are settled, and the composition of all of it.\<close>

definition buildStream ::
  "Request \<Rightarrow> View \<Rightarrow> Member \<Rightarrow> Effective \<Rightarrow> string \<Rightarrow> string \<Rightarrow> string \<Rightarrow> TargetBinding \<times> bool \<Rightarrow> (string, Dataset) gomap \<Rightarrow> Plan result" where
  "buildStream request view stream p mappedRoot target lineage binding datasets =
     failIf (checkRecursive request view p lineage (fst binding))
       (bindE (planEndpoint view stream lineage) (\<lambda>endpoint.
        let component = TrimPrefix (ob_Name endpoint) (mb_Dataset stream @ ''@'') in
        bindE (planEndpoints request view stream p mappedRoot lineage component) (\<lambda>endpoints.
        bindE (alreadyReceived (vw_Destination view) (vw_DestinationExists view) endpoints) (\<lambda>already.
        bindE (planMode request view stream p target lineage (fst binding) endpoint datasets already) (\<lambda>(mode, base).
        let send = sendOptions stream p endpoint base;
            baseTXG = (case base of Some ob \<Rightarrow> ob_CreateTXG ob | None \<Rightarrow> 0);
            sent = filter (streamed stream send mode endpoint baseTXG component) (st_Objects (vw_Source view));
            kind = (case objectNamed (vw_Source view) (mb_Dataset stream) of Some ob \<Rightarrow> ob_Type ob | None \<Rightarrow> []);
            foreign = filter (\<lambda>ob. \<not> is_ok (objectOwnership (vw_Source view) ob lineage)) sent in
        Inr \<lparr>pl_Source = mb_Dataset stream, pl_Destination = target, pl_Snapshot = ob_Name endpoint,
             pl_Base = (case base of Some ob \<Rightarrow> ob_Name ob | None \<Rightarrow> []), pl_Lineage = lineage, pl_Mode = mode, pl_Send = send,
             pl_Receive = receiveOptions p kind target (vw_Source view),
             pl_Expected = sort_key ex_Source (if mode = ''up-to-date'' then endpoints
               else map (expectedOf request view mappedRoot lineage) sent),
             pl_Endpoints = sort_key ex_Source endpoints,
             pl_Warnings = remdups (e_Warnings p
               @ (if so_Recursive send then [Errorf ''recursive replication uses native package semantics and may affect foreign destination snapshots'' []] else [])
               @ map (\<lambda>ob. Errorf ''stream includes foreign snapshot: %s'' [Arg (ob_Name ob)]) foreign),
             pl_TargetBinding = fst binding, pl_BindingNew = snd binding\<rparr>)))))"

definition Build :: "Request \<Rightarrow> View \<Rightarrow> string \<Rightarrow> Plan result" where
  "Build request view installation =
     bindE (planStream request view) (\<lambda>(stream, p).
     bindE (planCanonical request stream) (\<lambda>canonical.
     bindE (planMapped request stream) (\<lambda>(mappedRoot, target).
     if \<not> presentDataset (vw_Source view) (rq_Source request) then Inl (Errorf ''source dataset is missing'' [])
     else if \<not> presentDataset (vw_Source view) (mb_Dataset stream) then Inl (Errorf ''member dataset is missing: %s'' [Arg (mb_Dataset stream)])
     else failIf (checkScopes request view target)
       (if st_ResumeTokens (vw_Source view) \<noteq> [] \<or> st_ResumeTokens (vw_Destination view) \<noteq> []
        then Inl (Errorf ''resumable receive state requires recovery before a new stream'' [])
        else
          bindE (inventoryMap ''duplicate dataset in transfer inventory: %s'' [] (vw_Inventory view)) (\<lambda>inventory.
          failIf (checkInventory (vw_Source view) inventory)
            (bindE (inventoryMap ''duplicate dataset in destination transfer inventory: %s'' [] (destinationInventory request view)) (\<lambda>datasets.
             failIf (checkDestination view mappedRoot target datasets)
               (bindE (scopePolicy request view inventory stream p) (\<lambda>p.
                bindE (RootAuthority (vw_Source view) (rq_Source request) installation) (\<lambda>lineage.
                bindE (TargetSuspended (vw_Source view) (rq_Source request) canonical) (\<lambda>suspended.
                if suspended then Inl (Errorf ''target is suspended pending explicit remote revalidation'' [])
                else if di_Name (vw_RootDestinationIdentity view) = [] then Inl (Errorf ''destination identity is missing'' [])
                else
                  bindE (planBinding request view mappedRoot canonical) (\<lambda>binding.
                  buildStream request view stream p mappedRoot target lineage binding datasets))))))))))))"

subsection \<open>Resuming an interrupted receive\<close>

definition resumeCanonical :: "Request \<Rightarrow> Member \<Rightarrow> string result" where
  "resumeCanonical request stream =
     (let transport = requestTransport request; canonical = canonicalTarget request; isRoot = (mb_Dataset stream = rq_Source request) in
      if transport = ''local'' then
        (if (isRoot \<and> rq_DestinationRoot request \<notin> set (e_Local (rq_Policy request))) \<or> canonical \<noteq> canonicalLocalTarget (rq_DestinationRoot request)
         then Inl (Errorf ''destination is not configured by the source local property'' [])
         else Inr canonical)
      else if transport = ''ssh'' \<or> transport = ''native'' then
        (if rq_RemoteName request = [] \<or> (isRoot \<and> rq_RemoteName request \<notin> set (e_Remote (rq_Policy request)))
            \<or> canonical = [] \<or> ContainsAny canonical lineBreaks
         then Inl (Errorf ''remote is not configured with a canonical target'' [])
         else Inr canonical)
      else Inl (Errorf ''unsupported transfer transport %q'' [Arg transport]))"

definition resumeToken :: "View \<Rightarrow> string \<Rightarrow> (string \<times> string) result" where
  "resumeToken view target =
     (case st_ResumeTokens (vw_Destination view) of
        [(dataset, token)] \<Rightarrow>
          if st_ResumeTokens (vw_Source view) \<noteq> [] then Inl (Errorf ''exactly one destination resume token is required'' [])
          else if \<not> inside dataset target \<or> token = [] then Inl (Errorf ''resume token escapes the mapped destination'' [])
          else if \<not> vw_DestinationExists view then Inl (Errorf ''resumable destination root is missing'' [])
          else Inr (dataset, token)
      | _ \<Rightarrow> Inl (Errorf ''exactly one destination resume token is required'' []))"

definition checkResumeInventory :: "Request \<Rightarrow> View \<Rightarrow> Member \<Rightarrow> string \<Rightarrow> go_error option" where
  "checkResumeInventory request view stream target =
     (case inventoryMap ''duplicate dataset in source transfer inventory: %s'' [] (vw_Inventory view) of
        Inl e \<Rightarrow> Some e
      | Inr inventory \<Rightarrow>
          (let sent = datasetIn inventory (mb_Dataset stream) in
           if mget inventory (mb_Dataset stream) = None \<or> (ds_Type sent \<noteq> Filesystem \<and> ds_Type sent \<noteq> Volume) \<or> ds_EncryptionRoot sent = []
           then Some (Errorf ''source dataset lacks complete matching inventory'' [])
           else
             (case inventoryMap ''duplicate dataset in destination transfer inventory: %s'' [] (destinationInventory request view) of
                Inl e \<Rightarrow> Some e
              | Inr datasets \<Rightarrow>
                  if di_Name (vw_DestinationIdentity view) \<noteq> target \<or> di_GUID (vw_DestinationIdentity view) = 0
                     \<or> ds_Type (datasetIn datasets target) \<noteq> di_Type (vw_DestinationIdentity view)
                  then Some (Errorf ''destination identity does not match resumable root'' [])
                  else None)))"

definition resumeBinding :: "Request \<Rightarrow> View \<Rightarrow> string \<Rightarrow> string \<Rightarrow> TargetBinding result" where
  "resumeBinding request view mappedRoot canonical =
     (case storedTargetBinding (vw_Source view) (rq_Source request) (bindingTemplate request mappedRoot (requestTransport request) canonical) of
        Inr (Some b) \<Rightarrow>
          failIf (validateBinding b)
            (if di_Name (vw_BindingIdentity view) = [] then Inl (Errorf ''bound destination identity is missing'' [])
             else if bindingForTarget request mappedRoot (vw_BindingIdentity view) (requestTransport request) canonical \<noteq> Inr b
             then Inl (Errorf ''resumable target differs from persistent binding'' [])
             else Inr b)
      | _ \<Rightarrow> Inl (Errorf ''resumable transfer lacks a valid target binding'' []))"

text \<open>A proof whose every snapshot is still held, and the one with the newest snapshot.\<close>

definition heldMember :: "State \<Rightarrow> string \<Rightarrow> Reference \<Rightarrow> ReferenceSource \<Rightarrow> bool" where
  "heldMember state lineage r member =
     (let name = rs_Dataset member @ ''@'' @ metadataName (rf_Metadata r) in
      case objectNamed state name of
        None \<Rightarrow> False
      | Some ob \<Rightarrow>
          ob_Type ob = ''snapshot'' \<and> ob_GUID ob = rs_GUID member \<and> referenceHold r \<in> set (mindex (st_Holds state) name)
          \<and> objectOwnership state ob lineage = Inr (rf_Metadata r))"

definition heldProof :: "State \<Rightarrow> string \<Rightarrow> string \<Rightarrow> Reference \<Rightarrow> bool" where
  "heldProof state dataset lineage r =
     (case Sources r state of
        Inl _ \<Rightarrow> False
      | Inr members \<Rightarrow> members \<noteq> [] \<and> rs_Dataset (hd members) = dataset \<and> list_all (heldMember state lineage r) members)"

fun newestProof :: "State \<Rightarrow> string \<Rightarrow> string \<Rightarrow> string \<Rightarrow> Reference option \<times> nat \<times> bool \<Rightarrow> Reference list \<Rightarrow> Reference option \<times> nat \<times> bool" where
  "newestProof state dataset lineage targetID best [] = best"
| "newestProof state dataset lineage targetID (candidate, candidateTXG, tied) (r # rs) =
     (let txg = (case objectNamed state (referenceSnapshot r) of Some ob \<Rightarrow> ob_CreateTXG ob | None \<Rightarrow> 0) in
      newestProof state dataset lineage targetID
        (if rf_TargetID r \<noteq> targetID \<or> rf_Dataset r \<noteq> dataset \<or> \<not> heldProof state dataset lineage r \<or> txg = 0
         then (candidate, candidateTXG, tied)
         else if txg > candidateTXG then (Some r, txg, False)
         else (candidate, candidateTXG, tied \<or> txg = candidateTXG)) rs)"

definition resumeProof :: "View \<Rightarrow> string \<Rightarrow> string \<Rightarrow> string \<Rightarrow> Reference list \<Rightarrow> Reference result" where
  "resumeProof view dataset lineage canonical refs =
     (case newestProof (vw_Source view) dataset lineage (TargetID canonical) (None, 0, False) refs of
        (Some r, _, False) \<Rightarrow> Inr r
      | _ \<Rightarrow> Inl (Errorf ''resume token does not have an unambiguous newest held source proof'' []))"

definition resumeMember :: "Request \<Rightarrow> View \<Rightarrow> string \<Rightarrow> string \<Rightarrow> Reference \<Rightarrow> ReferenceSource \<Rightarrow> Expected result" where
  "resumeMember request view mappedRoot lineage r member =
     (let name = mappedName request mappedRoot (rs_Dataset member);
          kind = (case objectNamed (vw_Source view) (rs_Dataset member) of Some ob \<Rightarrow> ob_Type ob | None \<Rightarrow> []);
          x = \<lparr>ex_Source = rs_Dataset member @ ''@'' @ metadataName (rf_Metadata r), ex_Destination = name @ ''@'' @ metadataName (rf_Metadata r),
               ex_GUID = rs_GUID member, ex_Metadata = Some (rf_Metadata r)\<rparr> in
      case objectNamed (vw_Destination view) name of
        None \<Rightarrow> Inr x
      | Some existing \<Rightarrow>
          if ob_Type existing \<noteq> kind then Inl (Errorf ''source/destination dataset types differ'' [])
          else
            (case storedLineage (vw_Destination view) name of
               Inl e \<Rightarrow> Inl (Errorf ''destination has a conflicting lineage'' [])
             | Inr l \<Rightarrow> if l \<noteq> [] \<and> l \<noteq> lineage then Inl (Errorf ''destination has a conflicting lineage'' []) else Inr x))"

definition resumePlan ::
  "Request \<Rightarrow> View \<Rightarrow> Member \<Rightarrow> Effective \<Rightarrow> string \<Rightarrow> string \<Rightarrow> string \<Rightarrow> TargetBinding \<Rightarrow> string \<times> string \<Rightarrow> Reference \<Rightarrow> (Plan \<times> Reference) result" where
  "resumePlan request view stream p mappedRoot target lineage binding token r =
     bindE (Sources r (vw_Source view)) (\<lambda>members.
     bindE (collectE (resumeMember request view mappedRoot lineage r) members) (\<lambda>expected.
     if fst token \<notin> set (map (mappedName request mappedRoot \<circ> rs_Dataset) members) \<or> mb_Dataset stream \<notin> set (map rs_Dataset members)
     then Inl (Errorf ''resume token is not covered by its held source proof'' [])
     else Inr
       (\<lparr>pl_Source = mb_Dataset stream, pl_Destination = target, pl_Snapshot = mb_Dataset stream @ ''@'' @ metadataName (rf_Metadata r),
         pl_Base = [], pl_Lineage = lineage, pl_Mode = ''resume'',
         pl_Send = \<lparr>so_Source = mb_Dataset stream, so_Snapshot = [], so_ResumeToken = snd token, so_Base = [], so_Intermediates = False,
           so_Recursive = False, so_LargeBlocks = False, so_Compressed = False, so_EmbeddedData = False, so_Raw = False, so_Properties = False\<rparr>,
         pl_Receive = completeReceiveExclusions
           \<lparr>ro_Root = fst token, ro_Discard = ReceiveExact, ro_Set = e_SetProperties p, ro_Exclude = e_IgnoreProperties p\<rparr> p (vw_Source view),
         pl_Expected = expected, pl_Endpoints = expected, pl_Warnings = e_Warnings p, pl_TargetBinding = binding, pl_BindingNew = False\<rparr>, r)))"

definition BuildResume :: "Request \<Rightarrow> View \<Rightarrow> string \<Rightarrow> (Plan \<times> Reference) result" where
  "BuildResume request view installation =
     bindE (planStream request view) (\<lambda>(stream, p).
     bindE (resumeCanonical request stream) (\<lambda>canonical.
     bindE (planMapped request stream) (\<lambda>(mappedRoot, target).
     bindE (resumeToken view target) (\<lambda>token.
     failIf (checkScopes request view target)
       (failIf (checkResumeInventory request view stream target)
         (bindE (RootAuthority (vw_Source view) (rq_Source request) installation) (\<lambda>lineage.
          bindE (TargetSuspended (vw_Source view) (rq_Source request) canonical) (\<lambda>suspended.
          if suspended then Inl (Errorf ''target is suspended pending explicit remote revalidation'' [])
          else
            bindE (resumeBinding request view mappedRoot canonical) (\<lambda>binding.
            bindE (referenceRecords (vw_Source view) (rq_Source request) lineage) (\<lambda>refs.
            bindE (resumeProof view (mb_Dataset stream) lineage canonical refs) (\<lambda>r.
            resumePlan request view stream p mappedRoot target lineage binding token r)))))))))))"

end
