(* ===== verification/Transfer_Plan_Proofs.thy ===== *)
theory Transfer_Plan_Proofs
  imports Transfer_Plan
begin

section \<open>What transfer plans promise\<close>

text \<open>
  The properties of \<open>Build\<close> and \<open>BuildResume\<close>: where an incremental stream starts, that a plan stays between the source scope and
  the mapped destination, that the send it describes is accepted, and what proof a resumed receive rests on; with a concrete
  root, replica and interrupted receive.
\<close>

subsection \<open>What a plan rests on\<close>

lemma Build_Inr:
  assumes "Build request view installation = Inr plan"
  obtains stream p0 p canonical mappedRoot target lineage binding inventory datasets where
    "planStream request view = Inr (stream, p0)" "planCanonical request stream = Inr canonical"
    "planMapped request stream = Inr (mappedRoot, target)"
    "presentDataset (vw_Source view) (mb_Dataset stream)" "checkScopes request view target = None"
    "st_ResumeTokens (vw_Source view) = []" "st_ResumeTokens (vw_Destination view) = []"
    "checkDestination view mappedRoot target datasets = None"
    "scopePolicy request view inventory stream p0 = Inr p"
    "RootAuthority (vw_Source view) (rq_Source request) installation = Inr lineage"
    "TargetSuspended (vw_Source view) (rq_Source request) canonical = Inr False"
    "planBinding request view mappedRoot canonical = Inr binding"
    "buildStream request view stream p mappedRoot target lineage binding datasets = Inr plan"
proof -
  from assms obtain stream p0 where 1: "planStream request view = Inr (stream, p0)"
    by (auto simp: Build_def result_iffs)
  note b = assms [unfolded Build_def 1 bindE_simps prod.case]
  from b obtain canonical where 2: "planCanonical request stream = Inr canonical" by (auto simp only: result_iffs)
  note b = b [unfolded 2 bindE_simps]
  from b obtain mappedRoot target where 3: "planMapped request stream = Inr (mappedRoot, target)" by (auto simp only: result_iffs prod.exhaust)
  note b = b [unfolded 3 bindE_simps prod.case]
  show thesis
    using b by (auto simp: result_iffs simp del: not_None_eq split: if_splits) (rule that [OF 1 2 3]; (assumption | simp))
qed

lemma buildStream_Inr:
  assumes "buildStream request view stream p mappedRoot target lineage binding datasets = Inr plan"
  obtains endpoint component endpoints already mode base where
    "planEndpoint view stream lineage = Inr endpoint" "component = TrimPrefix (ob_Name endpoint) (mb_Dataset stream @ ''@'')"
    "planEndpoints request view stream p mappedRoot lineage component = Inr endpoints"
    "alreadyReceived (vw_Destination view) (vw_DestinationExists view) endpoints = Inr already"
    "planMode request view stream p target lineage (fst binding) endpoint datasets already = Inr (mode, base)"
    "pl_Source plan = mb_Dataset stream" "pl_Destination plan = target" "pl_Snapshot plan = ob_Name endpoint"
    "pl_Base plan = (case base of Some ob \<Rightarrow> ob_Name ob | None \<Rightarrow> [])" "pl_Lineage plan = lineage" "pl_Mode plan = mode"
    "pl_Send plan = sendOptions stream p endpoint base" "ro_Root (pl_Receive plan) = target" "ro_Discard (pl_Receive plan) = ReceiveExact"
    "pl_TargetBinding plan = fst binding" "set (pl_Endpoints plan) = set endpoints"
    "set (pl_Expected plan) = (if mode = ''up-to-date'' then set endpoints
       else expectedOf request view mappedRoot lineage `
         {ob \<in> set (st_Objects (vw_Source view)). streamed stream (sendOptions stream p endpoint base) mode endpoint
            (case base of Some ob \<Rightarrow> ob_CreateTXG ob | None \<Rightarrow> 0) component ob})"
proof -
  from assms obtain endpoint where 1: "planEndpoint view stream lineage = Inr endpoint"
    by (auto simp: buildStream_def result_iffs)
  define component where "component = TrimPrefix (ob_Name endpoint) (mb_Dataset stream @ ''@'')"
  note b = assms [unfolded buildStream_def 1 bindE_simps failIf_Inr_iff Let_def, folded component_def, THEN conjunct2]
  from b obtain endpoints where 2: "planEndpoints request view stream p mappedRoot lineage component = Inr endpoints"
    by (auto simp only: result_iffs)
  note b = b [unfolded 2 bindE_simps]
  from b obtain already where 3: "alreadyReceived (vw_Destination view) (vw_DestinationExists view) endpoints = Inr already"
    by (auto simp only: result_iffs)
  note b = b [unfolded 3 bindE_simps]
  from b obtain mode base where 4: "planMode request view stream p target lineage (fst binding) endpoint datasets already = Inr (mode, base)"
    by (auto simp only: result_iffs)
  note b = b [unfolded 4 bindE_simps prod.case sum.inject]
  show thesis
    by (rule that [OF 1 component_def 2 3 4]) (unfold b [symmetric], simp_all add: receiveOptions_def completeReceiveExclusions_def)
qed

lemma planMapped_Inr:
  assumes "planMapped request stream = Inr (mappedRoot, target)"
  shows "MapReceiveDataset (rq_Source request) (rq_DestinationRoot request) (e_Discard (rq_Policy request)) = Inr mappedRoot"
    "inside (mb_Dataset stream) (rq_Source request)" "target = mappedName request mappedRoot (mb_Dataset stream)"
    "requestTransport request = ''local'' \<Longrightarrow> \<not> inside mappedRoot (rq_Source request) \<and> \<not> inside (rq_Source request) mappedRoot"
  using assms by (auto simp: planMapped_def mapped_def mappedName_def result_iffs split: if_splits)

lemma selectEndpoint_Inr:
  "selectEndpoint state stream lineage start obs = Inr endpoint \<Longrightarrow>
     (endpoint = start \<or> (endpoint \<in> set obs \<and> ob_Type endpoint = ''snapshot'' \<and> datasetOf (ob_Name endpoint) = mb_Dataset stream
        \<and> (mb_Snapshot stream = [] \<or> ob_Name endpoint = mb_Snapshot stream) \<and> is_ok (objectOwnership state endpoint lineage)
        \<and> ob_CreateTXG endpoint > 0))
     \<and> ob_CreateTXG start \<le> ob_CreateTXG endpoint
     \<and> (\<forall>ob \<in> set obs. ob_Type ob = ''snapshot'' \<longrightarrow> datasetOf (ob_Name ob) = mb_Dataset stream
          \<longrightarrow> (mb_Snapshot stream = [] \<or> ob_Name ob = mb_Snapshot stream) \<longrightarrow> is_ok (objectOwnership state ob lineage)
          \<longrightarrow> ob_CreateTXG ob \<le> ob_CreateTXG endpoint)"
proof (induction obs arbitrary: start)
  case (Cons ob obs)
  from Cons.prems show ?case
    by (simp split: if_splits) (use Cons.IH in \<open>fastforce\<close>)+
qed simp

definition newestOn :: "State \<Rightarrow> string \<Rightarrow> Object \<Rightarrow> bool" where
  "newestOn state dataset latest \<longleftrightarrow>
     latest \<in> set (st_Objects state) \<and> ob_Type latest = ''snapshot'' \<and> datasetOf (ob_Name latest) = dataset
     \<and> (\<forall>ob \<in> set (st_Objects state). ob_Type ob = ''snapshot'' \<and> datasetOf (ob_Name ob) = dataset \<longrightarrow> ob_CreateTXG ob \<le> ob_CreateTXG latest)"

lemma latestSnapshot_fold:
  fixes obs target
  defines "step \<equiv> \<lambda>latest ob. if ob_Type ob = ''snapshot'' \<and> datasetOf (ob_Name ob) = target \<and> ob_CreateTXG ob > ob_CreateTXG latest then ob else latest"
  shows "(foldl step noObject obs = noObject
       \<or> foldl step noObject obs \<in> set obs \<and> ob_Type (foldl step noObject obs) = ''snapshot'' \<and> datasetOf (ob_Name (foldl step noObject obs)) = target)
     \<and> (\<forall>ob \<in> set obs. ob_Type ob = ''snapshot'' \<and> datasetOf (ob_Name ob) = target \<longrightarrow> ob_CreateTXG ob \<le> ob_CreateTXG (foldl step noObject obs))"
proof (induction obs rule: rev_induct)
  case (snoc ob obs)
  define latest where "latest = foldl step noObject obs"
  have "foldl step noObject (obs @ [ob]) = step latest ob" by (simp add: latest_def)
  with snoc [folded latest_def] show ?case by (auto simp: step_def)
qed simp

lemma latestSnapshot_newest:
  assumes "ob_Name (latestSnapshot dest target) \<noteq> []"
  shows "newestOn dest target (latestSnapshot dest target)"
  using assms latestSnapshot_fold [of target "st_Objects dest"] unfolding newestOn_def latestSnapshot_def by fastforce

text \<open>What makes an object of the source the base of an incremental stream.\<close>

definition provenBase :: "Request \<Rightarrow> View \<Rightarrow> Plan \<Rightarrow> Object \<Rightarrow> bool" where
  "provenBase request view plan base \<longleftrightarrow>
     ob_Type base = ''snapshot'' \<and> is_ok (objectOwnership (vw_Source view) base (pl_Lineage plan))
     \<or> ob_Type base = ''bookmark'' \<and> \<not> so_Intermediates (pl_Send plan) \<and> \<not> so_Recursive (pl_Send plan)
       \<and> (\<exists>refs r. referenceRecords (vw_Source view) (rq_Source request) (pl_Lineage plan) = Inr refs \<and> r \<in> set refs
            \<and> rf_TargetID r = TargetID (tb_CanonicalTarget (pl_TargetBinding plan)) \<and> rf_Dataset r = pl_Source plan \<and> ob_Name base = referenceBookmark r)"

lemma objectNamed_Some: "objectNamed state name = Some ob \<Longrightarrow> ob \<in> set (st_Objects state) \<and> ob_Name ob = name"
  by (auto simp: objectNamed_def dest: find_SomeD)

lemma bookmarkBase_Some:
  "bookmarkBase view stream binding endpoint latest refs = Some base \<Longrightarrow>
     \<exists>r \<in> set refs. rf_TargetID r = TargetID (tb_CanonicalTarget binding) \<and> rf_Dataset r = mb_Dataset stream
       \<and> base \<in> set (st_Objects (vw_Source view)) \<and> ob_Name base = referenceBookmark r
       \<and> ob_Type base = ''bookmark'' \<and> ob_GUID base = ob_GUID latest \<and> ob_CreateTXG base < ob_CreateTXG endpoint"
  by (induction refs) (auto split: option.splits if_splits dest: objectNamed_Some)

lemma snapshotBase_Some:
  "snapshotBase view stream lineage endpoint latest = Some base \<Longrightarrow>
     base \<in> set (st_Objects (vw_Source view)) \<and> datasetOf (ob_Name base) = mb_Dataset stream \<and> ob_GUID base = ob_GUID latest
     \<and> ob_CreateTXG base < ob_CreateTXG endpoint \<and> ob_Type base = ''snapshot'' \<and> is_ok (objectOwnership (vw_Source view) base lineage)"
  unfolding snapshotBase_def by (auto dest: find_SomeD)

lemma planBase_Inr:
  assumes "planBase request view stream p target lineage binding endpoint = Inr base"
  shows "\<exists>latest. newestOn (vw_Destination view) target latest \<and> base \<in> set (st_Objects (vw_Source view)) \<and> ob_GUID base = ob_GUID latest
    \<and> ob_CreateTXG base < ob_CreateTXG endpoint
    \<and> (ob_Type base = ''snapshot'' \<and> datasetOf (ob_Name base) = mb_Dataset stream \<and> is_ok (objectOwnership (vw_Source view) base lineage)
       \<or> ob_Type base = ''bookmark'' \<and> canResumeFromBookmark p
         \<and> (\<exists>refs r. referenceRecords (vw_Source view) (rq_Source request) lineage = Inr refs \<and> r \<in> set refs
              \<and> rf_TargetID r = TargetID (tb_CanonicalTarget binding) \<and> rf_Dataset r = mb_Dataset stream \<and> ob_Name base = referenceBookmark r))"
proof -
  define latest where "latest = latestSnapshot (vw_Destination view) target"
  from assms have "ob_Name latest \<noteq> []" by (auto simp: planBase_def latest_def split: if_splits)
  then have new: "newestOn (vw_Destination view) target latest" unfolding latest_def by (rule latestSnapshot_newest)
  show ?thesis
  proof (cases "snapshotBase view stream lineage endpoint latest")
    case (Some ob)
    then have "base = ob" using assms \<open>ob_Name latest \<noteq> []\<close> by (simp add: planBase_def latest_def [symmetric])
    with snapshotBase_Some [OF Some] new show ?thesis by blast
  next
    case None
    then obtain refs where "canResumeFromBookmark p" "referenceRecords (vw_Source view) (rq_Source request) lineage = Inr refs"
      "bookmarkBase view stream binding endpoint latest refs = Some base"
      using assms \<open>ob_Name latest \<noteq> []\<close>
      by (auto simp: planBase_def latest_def [symmetric] result_iffs split: if_splits option.splits)
    with bookmarkBase_Some new show ?thesis by blast
  qed
qed

lemma planMode_Inr:
  assumes "planMode request view stream p target lineage binding endpoint datasets already = Inr (mode, base)"
  shows "already \<and> mode = ''up-to-date'' \<and> base = None
    \<or> \<not> already \<and> \<not> vw_DestinationExists view \<and> mode = ''full'' \<and> base = None
    \<or> \<not> already \<and> vw_DestinationExists view \<and> mode = (if e_Incremental p = ''all'' then ''incremental-all'' else ''incremental-latest'')
      \<and> (\<exists>ob. base = Some ob \<and> planBase request view stream p target lineage binding endpoint = Inr ob)"
  using assms by (auto simp: planMode_def result_iffs split: if_splits)

text \<open>
  C0: An incremental stream starts where the destination is. When \<open>Build\<close> plans one, the base is an object of the source with the GUID
  of the newest snapshot the destination has on the mapped dataset, older than the snapshot sent; and it is an owned
  snapshot of the sent dataset, or the checkpoint bookmark of a recorded proof of this stream for this target, which is never
  combined with intermediate or recursive sends. A full stream is only planned into a destination that does not exist.
\<close>

theorem Build_base_is_destination_latest:
  assumes "Build request view installation = Inr plan"
  shows "pl_Mode plan \<in> {''up-to-date'', ''full'', ''incremental-latest'', ''incremental-all''}
    \<and> (pl_Mode plan = ''full'' \<longrightarrow> \<not> vw_DestinationExists view \<and> so_Base (pl_Send plan) = [])
    \<and> (pl_Mode plan = ''incremental-latest'' \<or> pl_Mode plan = ''incremental-all'' \<longrightarrow>
         vw_DestinationExists view
         \<and> (\<exists>latest base endpoint. newestOn (vw_Destination view) (pl_Destination plan) latest
              \<and> base \<in> set (st_Objects (vw_Source view)) \<and> ob_Name base = so_Base (pl_Send plan) \<and> ob_GUID base = ob_GUID latest
              \<and> endpoint \<in> set (st_Objects (vw_Source view)) \<and> ob_Name endpoint = so_Snapshot (pl_Send plan)
              \<and> ob_CreateTXG base < ob_CreateTXG endpoint \<and> provenBase request view plan base))"
proof -
  from assms obtain stream p0 p canonical mappedRoot target lineage binding inventory datasets where
    b: "buildStream request view stream p mappedRoot target lineage binding datasets = Inr plan"
    by (rule Build_Inr) blast
  from b obtain endpoint component endpoints already mode base where
    e: "planEndpoint view stream lineage = Inr endpoint"
    and m: "planMode request view stream p target lineage (fst binding) endpoint datasets already = Inr (mode, base)"
    and f: "pl_Source plan = mb_Dataset stream" "pl_Destination plan = target" "pl_Lineage plan = lineage" "pl_Mode plan = mode"
      "pl_Send plan = sendOptions stream p endpoint base" "pl_TargetBinding plan = fst binding"
    by (rule buildStream_Inr) blast
  have endpoint: "endpoint \<in> set (st_Objects (vw_Source view))"
    using e selectEndpoint_Inr unfolding planEndpoint_def by (fastforce simp: result_iffs split: if_splits)
  show ?thesis
  proof (cases base)
    case None
    then show ?thesis using planMode_Inr [OF m] f by (auto simp: sendOptions_def)
  next
    case (Some ob)
    then have inc: "vw_DestinationExists view" "mode = (if e_Incremental p = ''all'' then ''incremental-all'' else ''incremental-latest'')"
      and ob: "planBase request view stream p target lineage (fst binding) endpoint = Inr ob"
      using planMode_Inr [OF m] by auto
    obtain latest where l: "newestOn (vw_Destination view) target latest" "ob \<in> set (st_Objects (vw_Source view))" "ob_GUID ob = ob_GUID latest"
      "ob_CreateTXG ob < ob_CreateTXG endpoint"
      using planBase_Inr [OF ob] by blast
    have "canResumeFromBookmark p \<Longrightarrow> \<not> so_Intermediates (pl_Send plan) \<and> \<not> so_Recursive (pl_Send plan)"
      using f by (simp add: sendOptions_def canResumeFromBookmark_def)
    then have proven: "provenBase request view plan ob"
      using planBase_Inr [OF ob] unfolding provenBase_def f by blast
    have "ob_Name ob = so_Base (pl_Send plan)" "ob_Name endpoint = so_Snapshot (pl_Send plan)" using f Some by (simp_all add: sendOptions_def)
    with l proven endpoint inc f show ?thesis by auto
  qed
qed

subsection \<open>Where a plan sends and receives\<close>

lemma checkMembers_None:
  "checkMembers source prev ms = None \<Longrightarrow> m \<in> set ms \<Longrightarrow> validDataset (mb_Dataset m) \<and> inside (mb_Dataset m) source"
  by (induction ms arbitrary: prev) (auto split: option.splits if_splits)

lemma planStream_Inr:
  assumes "planStream request view = Inr (stream, p)"
  shows "validDataset (rq_Source request)" "validDataset (mb_Dataset stream)" "streamPolicy request stream = Inr p"
    "policyValid (rq_Policy request)" "ActiveRoot (rq_Policy request) (rq_Source request) = None"
proof -
  from assms show src: "validDataset (rq_Source request)" and "streamPolicy request stream = Inr p" "policyValid (rq_Policy request)"
    "ActiveRoot (rq_Policy request) (rq_Source request) = None"
    by (auto simp: planStream_def result_iffs split: if_splits)
  from assms obtain name streams where "Streams request = Inr streams" "find (\<lambda>m. mb_Dataset m = name) streams = Some stream"
    by (auto simp: planStream_def streamNamed_def result_iffs split: if_splits option.splits)
  then show "validDataset (mb_Dataset stream)"
    using src by (auto simp: Streams_def Let_def result_iffs dest: find_SomeD checkMembers_None split: if_splits)
qed

lemma scopePolicy_Inr: "scopePolicy request view inventory stream p0 = Inr p \<Longrightarrow> f_Replicate (e_Send p) = f_Replicate (e_Send p0) \<and> policyValid p"
  by (auto simp: scopePolicy_def Let_def ForReplicationScope_def split: if_splits)

lemma recursive_is_root:
  "streamPolicy request stream = Inr p \<Longrightarrow> f_Replicate (e_Send p) \<Longrightarrow> mb_Dataset stream = rq_Source request"
  by (auto simp: streamPolicy_def Let_def split: if_splits)

lemma datasetOf_takes: "datasetOf s = takeWhile (\<lambda>c. c \<noteq> CHR ''@'' \<and> c \<noteq> CHR ''#'') s"
  by (induction s) (auto simp: datasetOf_def cutBefore_def Cut_def)

lemma datasetOf_at [simp]: "datasetOf (a @ CHR ''@'' # c) = datasetOf a"
  unfolding datasetOf_takes by (induction a) auto

lemma datasetOf_after:
  assumes "CHR ''@'' \<notin> set m" "CHR ''#'' \<notin> set m"
  shows "datasetOf (m @ t) = m @ datasetOf t"
  using assms unfolding datasetOf_takes by (induction m) auto

lemma mappedName_below:
  assumes "validDataset (rq_Source request)" "validDataset mappedRoot" "inside (datasetOf name) (rq_Source request)"
  shows "datasetOf (mappedName request mappedRoot name) = mappedName request mappedRoot (datasetOf name)"
    "inside (mappedName request mappedRoot (datasetOf name)) mappedRoot"
proof -
  obtain rest where "name = datasetOf name @ rest" using takeWhile_dropWhile_id unfolding datasetOf_takes by metis
  with inside_cases [OF assms(3)] obtain t where t: "name = rq_Source request @ t" by (metis append.assoc)
  then have d: "datasetOf name = rq_Source request @ datasetOf t"
    using datasetOf_after validDataset_chars [OF assms(1)] by simp
  show "datasetOf (mappedName request mappedRoot name) = mappedName request mappedRoot (datasetOf name)"
    using validDataset_chars [OF assms(2)] unfolding mappedName_def d by (simp add: t datasetOf_after TrimPrefix_append)
  have "datasetOf t = [] \<or> (\<exists>u. datasetOf t = CHR ''/'' # u)" using inside_cases [OF assms(3)] unfolding d by auto
  then show "inside (mappedName request mappedRoot (datasetOf name)) mappedRoot"
    unfolding mappedName_def d TrimPrefix_append by (auto simp: names.within_refl)
qed

lemma planMapped_valid:
  assumes "planMapped request stream = Inr (mappedRoot, target)" "validDataset (mb_Dataset stream)"
  shows "validDataset mappedRoot" "validDataset target" "inside mappedRoot (rq_DestinationRoot request)" "inside target mappedRoot"
proof -
  note m = planMapped_Inr [OF assms(1)]
  from m(1) have v: "validDataset (rq_Source request)" "validDataset (rq_DestinationRoot request)"
    "e_Discard (rq_Policy request) \<in> {ReceiveExact, ReceiveDropFirst, ReceiveDropAll}"
    by (auto simp: MapReceiveDataset_def result_iffs split: if_splits)
  show root: "validDataset mappedRoot" "inside mappedRoot (rq_DestinationRoot request)"
    using MapReceiveDataset_spec [OF v] m(1) by auto
  show "inside target mappedRoot"
    using mappedName_below(2) [OF v(1) root(1), of "mb_Dataset stream"] m(2,3) datasetOf_dataset [OF assms(2)] by simp
  show "validDataset target"
  proof (cases "mb_Dataset stream = rq_Source request")
    case True
    have "TrimPrefix (rq_Source request) (rq_Source request) = []" using TrimPrefix_append [of "rq_Source request" "[]"] by simp
    then show ?thesis using True root m(3) by (simp add: mappedName_def)
  next
    case False
    then obtain t where t: "mb_Dataset stream = rq_Source request @ CHR ''/'' # t" using m(2) inside_cases by blast
    then show ?thesis
      using assms(2) root(1) validDataset_append m(3) by (simp add: mappedName_def TrimPrefix_append)
  qed
qed

lemma checkScopes_None:
  "checkScopes request view target = None \<Longrightarrow> ob \<in> set (st_Objects (vw_Source view)) \<Longrightarrow> inside (datasetOf (ob_Name ob)) (rq_Source request)"
  by (auto simp: checkScopes_def list_ex_iff split: if_splits)

lemma collectE_Inr: "collectE f xs = Inr ys \<Longrightarrow> y \<in> set ys \<Longrightarrow> \<exists>x \<in> set xs. f x = Inr y"
  by (induction xs arbitrary: ys) (auto simp: result_iffs)

text \<open>An expected snapshot is one of the source, placed below the destination.\<close>

definition placedBelow :: "View \<Rightarrow> string \<Rightarrow> Expected \<Rightarrow> bool" where
  "placedBelow view target x \<longleftrightarrow>
     (\<exists>ob \<in> set (st_Objects (vw_Source view)). ex_Source x = ob_Name ob \<and> ex_GUID x = ob_GUID ob)
     \<and> inside (datasetOf (ex_Destination x)) target"

lemma streamed_placed:
  assumes scope: "checkScopes request view target = None" and v: "validDataset (rq_Source request)" "validDataset (mb_Dataset stream)"
    and m: "planMapped request stream = Inr (mappedRoot, target)" and ob: "ob \<in> set (st_Objects (vw_Source view))"
    and here: "mb_Dataset stream = rq_Source request \<or> datasetOf (ob_Name ob) = mb_Dataset stream"
  shows "inside (datasetOf (mappedName request mappedRoot (ob_Name ob))) target"
proof -
  note mv = planMapped_valid [OF m v(2)] and t = planMapped_Inr(3) [OF m]
  note b = mappedName_below [OF v(1) mv(1) checkScopes_None [OF scope ob]]
  show ?thesis
  proof (cases "mb_Dataset stream = rq_Source request")
    case True
    have "TrimPrefix (rq_Source request) (rq_Source request) = []" using TrimPrefix_append [of "rq_Source request" "[]"] by simp
    then have "target = mappedRoot" using True t by (simp add: mappedName_def)
    then show ?thesis using b by simp
  next
    case False
    then show ?thesis using b(1) here t by (simp add: names.within_refl)
  qed
qed

text \<open>
  C0: A plan stays between the source scope and its mapped destination. The stream is a dataset of the root, the receive
  goes exactly to the mapped dataset, which is a valid name inside the configured destination and, on the same host, neither
  above nor below the source; neither side has an interrupted receive; the root is this installation's and the target not suspended;
  and every snapshot the plan expects is a snapshot of the source, placed at or below the destination.
\<close>

theorem Build_stays_in_scope:
  assumes "Build request view installation = Inr plan"
  shows "validDataset (pl_Source plan) \<and> inside (pl_Source plan) (rq_Source request)
    \<and> validDataset (pl_Destination plan) \<and> inside (pl_Destination plan) (rq_DestinationRoot request)
    \<and> ro_Root (pl_Receive plan) = pl_Destination plan \<and> ro_Discard (pl_Receive plan) = ReceiveExact
    \<and> (requestTransport request = ''local'' \<longrightarrow> \<not> inside (pl_Destination plan) (rq_Source request) \<and> \<not> inside (rq_Source request) (pl_Destination plan))
    \<and> st_ResumeTokens (vw_Source view) = [] \<and> st_ResumeTokens (vw_Destination view) = []
    \<and> RootAuthority (vw_Source view) (rq_Source request) installation = Inr (pl_Lineage plan)
    \<and> (\<forall>x \<in> set (pl_Expected plan) \<union> set (pl_Endpoints plan). placedBelow view (pl_Destination plan) x)"
proof -
  from assms obtain stream p0 p mappedRoot target lineage binding inventory datasets where
    s: "planStream request view = Inr (stream, p0)" and m: "planMapped request stream = Inr (mappedRoot, target)"
    and scope: "checkScopes request view target = None"
    and tok: "st_ResumeTokens (vw_Source view) = []" "st_ResumeTokens (vw_Destination view) = []"
    and sp: "scopePolicy request view inventory stream p0 = Inr p"
    and auth: "RootAuthority (vw_Source view) (rq_Source request) installation = Inr lineage"
    and b: "buildStream request view stream p mappedRoot target lineage binding datasets = Inr plan"
    by (rule Build_Inr) blast
  from b obtain endpoint component endpoints mode base where
    e: "planEndpoints request view stream p mappedRoot lineage component = Inr endpoints"
    and f: "pl_Source plan = mb_Dataset stream" "pl_Destination plan = target" "pl_Lineage plan = lineage"
      "ro_Root (pl_Receive plan) = target" "ro_Discard (pl_Receive plan) = ReceiveExact"
      "set (pl_Endpoints plan) = set endpoints"
      "set (pl_Expected plan) = (if mode = ''up-to-date'' then set endpoints
       else expectedOf request view mappedRoot lineage `
         {ob \<in> set (st_Objects (vw_Source view)). streamed stream (sendOptions stream p endpoint base) mode endpoint
            (case base of Some ob \<Rightarrow> ob_CreateTXG ob | None \<Rightarrow> 0) component ob})"
    by (rule buildStream_Inr) blast
  note v = planStream_Inr [OF s] and mv = planMapped_valid [OF m planStream_Inr(2) [OF s]] and mi = planMapped_Inr [OF m]
  have root: "f_Replicate (e_Send p) \<Longrightarrow> mb_Dataset stream = rq_Source request"
    using recursive_is_root [OF v(3)] scopePolicy_Inr [OF sp] by simp
  have ends: "placedBelow view target x" if in_ends: "x \<in> set endpoints" for x
  proof -
    obtain ob where ob: "ob \<in> set (st_Objects (vw_Source view))" "f_Replicate (e_Send p) \<or> ob_Name ob = mb_Dataset stream"
      and x: "endpointOf request view mappedRoot lineage component ob = Inr x"
      using collectE_Inr [OF e [unfolded planEndpoints_def] in_ends] by auto
    then obtain snap where "snap \<in> set (st_Objects (vw_Source view))" "ex_Source x = ob_Name snap" "ex_GUID x = ob_GUID snap"
      "ex_Destination x = mappedName request mappedRoot (ob_Name ob) @ ''@'' @ component"
      by (auto simp: endpointOf_def Let_def result_iffs split: if_splits option.splits dest: objectNamed_Some)
    moreover have "inside (datasetOf (mappedName request mappedRoot (ob_Name ob))) target"
      using streamed_placed [OF scope v(1,2) m ob(1)] root ob(2) datasetOf_dataset [OF v(2)] by auto
    ultimately show ?thesis by (auto simp: placedBelow_def)
  qed
  have sent: "placedBelow view target (expectedOf request view mappedRoot lineage ob)"
    if "ob \<in> set (st_Objects (vw_Source view))" "streamed stream (sendOptions stream p endpoint base) mode endpoint t component ob" for ob t
    using streamed_placed [OF scope v(1,2) m that(1)] that root by (auto simp: placedBelow_def expectedOf_def streamed_def sendOptions_def)
  have apart: "\<not> inside target (rq_Source request) \<and> \<not> inside (rq_Source request) target" if "requestTransport request = ''local''"
    using mi(4) [OF that] mv(4) names.disjoint_below [of mappedRoot "rq_Source request" target "rq_Source request"] names.within_refl by blast
  have "inside target (rq_DestinationRoot request)" using mv(3,4) names.within_trans by blast
  moreover have "\<forall>x \<in> set (pl_Expected plan) \<union> set (pl_Endpoints plan). placedBelow view (pl_Destination plan) x"
    unfolding f(2) f(6) f(7) using ends sent by auto
  ultimately show ?thesis using v(2) mv(2) mi(2) f tok auth apart by simp
qed

subsection \<open>A planned send is accepted\<close>

lemma Valid_chars: "Valid v \<Longrightarrow> c \<in> set v \<Longrightarrow> isHex c \<or> c = CHR ''-''"
proof -
  have "\<forall>p \<in> set uuidPattern. \<forall>c. p c \<longrightarrow> isHex c \<or> c = CHR ''-''"
    by (auto simp: uuidPattern_def Let_def isHex_def isDigit_def)
  then show "Valid v \<Longrightarrow> c \<in> set v \<Longrightarrow> isHex c \<or> c = CHR ''-''"
    by (auto simp: Valid_def in_set_conv_nth list_all2_conv_all_nth) (metis nth_mem)
qed

lemma owned_name:
  assumes "is_ok (objectOwnership state ob lineage)"
  shows "validateSnapshot (ob_Name ob) = None" "CHR ''@'' \<in> set (ob_Name ob)" "CHR ''#'' \<notin> set (ob_Name ob)"
proof -
  obtain m where "objectOwnership state ob lineage = Inr m" using assms by (cases "objectOwnership state ob lineage") auto
  then obtain d where d: "validDataset d" "ob_Name ob = d @ CHR ''@'' # metadataName m" and m: "Valid (md_Snapshot m)" "0 \<le> Year (md_Created m)"
    unfolding objectOwnership_def Ownership_iff ownedBy_def by auto
  show "validateSnapshot (ob_Name ob) = None"
    unfolding d(2) using d(1) metadataName_component [OF m] validDataset_chars by (simp add: validateSnapshot_append)
  show "CHR ''@'' \<in> set (ob_Name ob)" "CHR ''#'' \<notin> set (ob_Name ob)"
    unfolding d(2) using metadataName_component(3) [OF m] validDataset_chars [OF d(1)] by auto
qed

lemma referenceBookmark_object:
  assumes "validDataset (rf_Dataset r)" "list_all isHexDigit (rf_TargetID r)" "Valid (md_Snapshot (rf_Metadata r))"
  shows "validateObject (referenceBookmark r) = None" "datasetOf (referenceBookmark r) = rf_Dataset r" "CHR ''#'' \<in> set (referenceBookmark r)"
proof -
  define c where "c = referenceHold r @ ''-'' @ md_Snapshot (rf_Metadata r)"
  define ok where "ok x \<longleftrightarrow> isASCII x \<and> \<not> IsSpace (of_char x) \<and> \<not> IsControl (of_char x) \<and> x \<notin> {CHR ''/'', CHR ''@'', CHR ''#''}" for x
  have hex: "isHexDigit x \<Longrightarrow> ok x" "isHex x \<Longrightarrow> ok x" for x
    by (auto simp: ok_def isHexDigit_def isHex_def isDigit_def isASCII_def IsSpace_def IsControl_def)
  have "list_all ok SnapshotPrefix" "ok (CHR ''-'')"
    by (simp_all add: ok_def SnapshotPrefix_def isASCII_def IsSpace_def IsControl_def)
  moreover have "list_all ok (md_Snapshot (rf_Metadata r))"
    using Valid_chars [OF assms(3)] hex calculation(2) by (auto simp: list_all_iff)
  moreover have "list_all ok (rf_TargetID r)" using assms(2) hex by (auto simp: list_all_iff)
  ultimately have ok: "list_all ok c" by (simp add: c_def referenceHold_def)
  have "runes c = map (\<lambda>x. (of_char x, [x])) c" using ok by (intro runes_ASCII) (auto simp: list_all_iff ok_def)
  then have space: "\<not> hasSpaceOrControl c" using ok by (auto simp: hasSpaceOrControl_def list_ex_iff list_all_iff ok_def)
  have sep: "set c \<inter> {CHR ''/'', CHR ''@'', CHR ''#''} = {}" using ok by (auto simp: list_all_iff ok_def)
  have name: "referenceBookmark r = rf_Dataset r @ CHR ''#'' # c" by (simp add: referenceBookmark_def c_def)
  have chars: "CHR ''@'' \<notin> set (rf_Dataset r)" "CHR ''#'' \<notin> set (rf_Dataset r)" using validDataset_chars [OF assms(1)] by simp_all
  show "CHR ''#'' \<in> set (referenceBookmark r)" by (simp add: name)
  have "c \<noteq> []" by (simp add: c_def)
  then show "validateObject (referenceBookmark r) = None"
    using assms(1) space sep chars unfolding name validateObject_def by (simp add: validateBookmark_append)
  show "datasetOf (referenceBookmark r) = rf_Dataset r"
    unfolding name using assms(1) sep by (intro datasetOf_bookmark) auto
qed

lemma recorded_reference:
  assumes "referenceRecords state root lineage = Inr refs" "r \<in> set refs"
  shows "validDataset (rf_Dataset r)" "list_all isHexDigit (rf_TargetID r)" "Valid (md_Snapshot (rf_Metadata r))"
proof -
  from assms obtain p where "decodeReference p root lineage = Inr r"
    using collectReferences_mem by (fastforce simp: referenceRecords_def result_iffs)
  then show "validDataset (rf_Dataset r)" "list_all isHexDigit (rf_TargetID r)" "Valid (md_Snapshot (rf_Metadata r))"
    by (auto simp: decodeReference_def Let_def split: if_splits option.splits)
qed

text \<open>
  C0: The send of a plan is always accepted. Whatever \<open>Build\<close> plans from an inventory that lists no object twice, \<open>sendArgs\<close> turns
  into an argument vector: the snapshot and the base are valid names of one dataset, distinct, and a bookmark base is
  never combined with flags that need a snapshot.
\<close>

theorem Build_send_accepted:
  assumes "Build request view installation = Inr plan" and once: "distinct (map ob_Name (st_Objects (vw_Source view)))"
  shows "is_ok (sendArgs (pl_Send plan) estimate)"
proof -
  from assms(1) obtain stream p mappedRoot target lineage binding datasets where
    b: "buildStream request view stream p mappedRoot target lineage binding datasets = Inr plan"
    by (rule Build_Inr) blast
  from b obtain endpoint endpoints already mode base where
    e: "planEndpoint view stream lineage = Inr endpoint"
    and m: "planMode request view stream p target lineage (fst binding) endpoint datasets already = Inr (mode, base)"
    and send: "pl_Send plan = sendOptions stream p endpoint base"
    by (rule buildStream_Inr) blast
  have endpoint: "endpoint \<in> set (st_Objects (vw_Source view))" "datasetOf (ob_Name endpoint) = mb_Dataset stream"
    "is_ok (objectOwnership (vw_Source view) endpoint lineage)"
    using e selectEndpoint_Inr unfolding planEndpoint_def by (fastforce simp: result_iffs split: if_splits)+
  note snap = owned_name [OF endpoint(3)]
  have "is_ok (baseArgs (pl_Send plan))"
  proof (cases base)
    case None
    then show ?thesis by (simp add: send sendOptions_def baseArgs_def)
  next
    case (Some ob)
    then have "planBase request view stream p target lineage (fst binding) endpoint = Inr ob" using planMode_Inr [OF m] by auto
    from planBase_Inr [OF this] have ob: "ob \<in> set (st_Objects (vw_Source view))" "ob_CreateTXG ob < ob_CreateTXG endpoint"
      and kind: "ob_Type ob = ''snapshot'' \<and> datasetOf (ob_Name ob) = mb_Dataset stream \<and> is_ok (objectOwnership (vw_Source view) ob lineage)
        \<or> canResumeFromBookmark p \<and> (\<exists>refs r. referenceRecords (vw_Source view) (rq_Source request) lineage = Inr refs \<and> r \<in> set refs
              \<and> rf_Dataset r = mb_Dataset stream \<and> ob_Name ob = referenceBookmark r)"
      by blast+
    have other: "ob_Name ob \<noteq> ob_Name endpoint"
      using once ob endpoint(1) by (metis distinct_map inj_onD less_irrefl)
    have fields: "so_Base (pl_Send plan) = ob_Name ob" "so_Snapshot (pl_Send plan) = ob_Name endpoint"
      "canResumeFromBookmark p \<Longrightarrow> \<not> so_Intermediates (pl_Send plan) \<and> \<not> so_Recursive (pl_Send plan)"
      using Some by (auto simp: send sendOptions_def canResumeFromBookmark_def)
    note cut = cutBefore_snapshot [OF snap(1)]
    from kind show ?thesis
    proof (elim disjE conjE exE)
      assume o: "datasetOf (ob_Name ob) = mb_Dataset stream" "is_ok (objectOwnership (vw_Source view) ob lineage)"
      note n = owned_name [OF o(2)]
      show ?thesis by (rule baseArgs_accepts) (use n o other fields cut endpoint(2) validateSnapshot_Object in simp_all)
    next
      fix refs r
      assume r: "canResumeFromBookmark p" "referenceRecords (vw_Source view) (rq_Source request) lineage = Inr refs" "r \<in> set refs"
        "rf_Dataset r = mb_Dataset stream" "ob_Name ob = referenceBookmark r"
      note n = referenceBookmark_object [OF recorded_reference [OF r(2,3)]]
      show ?thesis by (rule baseArgs_accepts) (use n r other fields cut endpoint(2) in simp_all)
    qed
  qed
  then show ?thesis
    using snap(1) by (cases "baseArgs (pl_Send plan)") (simp_all add: sendArgs_def send sendOptions_def)
qed

subsection \<open>What a resumed receive rests on\<close>

definition proofTXG :: "State \<Rightarrow> Reference \<Rightarrow> nat" where
  "proofTXG state r = (case objectNamed state (referenceSnapshot r) of Some ob \<Rightarrow> ob_CreateTXG ob | None \<Rightarrow> 0)"

text \<open>The proofs of a stream for a target that an interrupted receive can belong to.\<close>

definition resumable :: "State \<Rightarrow> string \<Rightarrow> string \<Rightarrow> string \<Rightarrow> Reference \<Rightarrow> bool" where
  "resumable state dataset lineage targetID r \<longleftrightarrow>
     rf_TargetID r = targetID \<and> rf_Dataset r = dataset \<and> heldProof state dataset lineage r \<and> proofTXG state r > 0"

lemma newestProof_best:
  assumes "newestProof state dataset lineage targetID (c, t, tied) refs = (c', t', False)"
  shows "(c' = c \<and> t' = t \<and> \<not> tied \<and> (\<forall>r' \<in> set refs. resumable state dataset lineage targetID r' \<longrightarrow> proofTXG state r' < t))
    \<or> (\<exists>r \<in> set refs. c' = Some r \<and> resumable state dataset lineage targetID r \<and> t < proofTXG state r
         \<and> t' = proofTXG state r
         \<and> (\<forall>r' \<in> set refs. resumable state dataset lineage targetID r' \<and> r' \<noteq> r \<longrightarrow> proofTXG state r' < proofTXG state r))"
  using assms
proof (induction refs arbitrary: c t tied)
  case (Cons r refs)
  let ?ok = "resumable state dataset lineage targetID" and ?txg = "proofTXG state"
  have step: "newestProof state dataset lineage targetID (c, t, tied) (r # refs) = newestProof state dataset lineage targetID
      (if \<not> ?ok r then (c, t, tied) else if ?txg r > t then (Some r, ?txg r, False) else (c, t, tied \<or> ?txg r = t)) refs"
    by (auto simp: Let_def resumable_def proofTXG_def)
  consider "\<not> ?ok r" | "?ok r" "?txg r > t" | "?ok r" "?txg r \<le> t" by linarith
  then show ?case
  proof cases
    case 1
    with Cons.IH [of c t tied] Cons.prems show ?thesis unfolding step by auto
  next
    case 2
    with Cons.prems have run: "newestProof state dataset lineage targetID (Some r, ?txg r, False) refs = (c', t', False)"
      unfolding step by simp
    from Cons.IH [OF run] 2 show ?thesis by (elim disjE) (auto dest: less_trans)
  next
    case 3
    with Cons.prems have run: "newestProof state dataset lineage targetID (c, t, tied \<or> ?txg r = t) refs = (c', t', False)"
      unfolding step by simp
    from Cons.IH [OF run] 3 show ?thesis by (elim disjE) (auto intro: le_less_trans)
  qed
qed simp

lemma BuildResume_Inr:
  assumes "BuildResume request view installation = Inr (plan, r)"
  obtains stream p canonical mappedRoot target token lineage binding refs where
    "planStream request view = Inr (stream, p)" "resumeCanonical request stream = Inr canonical"
    "planMapped request stream = Inr (mappedRoot, target)" "resumeToken view target = Inr token" "checkScopes request view target = None"
    "RootAuthority (vw_Source view) (rq_Source request) installation = Inr lineage"
    "resumeBinding request view mappedRoot canonical = Inr binding"
    "referenceRecords (vw_Source view) (rq_Source request) lineage = Inr refs"
    "resumeProof view (mb_Dataset stream) lineage canonical refs = Inr r"
    "resumePlan request view stream p mappedRoot target lineage binding token r = Inr (plan, r)"
proof -
  from assms obtain stream p where 1: "planStream request view = Inr (stream, p)" by (auto simp: BuildResume_def result_iffs)
  note b = assms [unfolded BuildResume_def 1 bindE_simps prod.case]
  from b obtain canonical where 2: "resumeCanonical request stream = Inr canonical" by (auto simp only: result_iffs)
  note b = b [unfolded 2 bindE_simps]
  from b obtain mappedRoot target where 3: "planMapped request stream = Inr (mappedRoot, target)" by (auto simp only: result_iffs prod.exhaust)
  note b = b [unfolded 3 bindE_simps prod.case]
  have same: "r' = r" if "resumePlan request view stream p mappedRoot target lineage binding token r' = Inr (plan, r)" for lineage binding token r'
    using that by (auto simp: resumePlan_def result_iffs split: if_splits)
  show thesis
    using b by (auto simp: result_iffs split: if_splits) (rule that [OF 1 2 3]; (assumption | frule same, simp))
qed

lemma resumePlan_Inr:
  assumes "resumePlan request view stream p mappedRoot target lineage binding token r = Inr (plan, r')"
  shows "pl_Source plan = mb_Dataset stream" "pl_Destination plan = target" "pl_Lineage plan = lineage" "pl_TargetBinding plan = binding"
    "so_ResumeToken (pl_Send plan) = snd token" "ro_Root (pl_Receive plan) = fst token" "ro_Discard (pl_Receive plan) = ReceiveExact"
    "\<exists>members. Sources r (vw_Source view) = Inr members \<and> collectE (resumeMember request view mappedRoot lineage r) members = Inr (pl_Expected plan)
       \<and> (\<exists>m \<in> set members. mappedName request mappedRoot (rs_Dataset m) = fst token)"
  using assms by (auto simp: resumePlan_def result_iffs completeReceiveExclusions_def split: if_splits)

lemma resumeBinding_Inr:
  "resumeBinding request view mappedRoot canonical = Inr b \<Longrightarrow>
     bindingForTarget request mappedRoot (vw_BindingIdentity view) (requestTransport request) canonical = Inr b"
  by (auto simp: resumeBinding_def result_iffs split: sum.splits option.splits if_splits)

lemma resumeMember_Inr:
  "resumeMember request view mappedRoot lineage r m = Inr x \<Longrightarrow>
     ex_Source x = rs_Dataset m @ ''@'' @ metadataName (rf_Metadata r) \<and> ex_GUID x = rs_GUID m"
  by (auto simp: resumeMember_def Let_def split: if_splits option.splits sum.splits)

definition heldSnapshot :: "State \<Rightarrow> Reference \<Rightarrow> Expected \<Rightarrow> bool" where
  "heldSnapshot state r x \<longleftrightarrow>
     (\<exists>ob \<in> set (st_Objects state). ob_Name ob = ex_Source x \<and> ob_GUID ob = ex_GUID x \<and> ob_Type ob = ''snapshot''
        \<and> referenceHold r \<in> set (mindex (st_Holds state) (ob_Name ob)))"

text \<open>
  C0: A receive is only resumed when the source can prove what it was. \<open>BuildResume\<close> succeeds only with a single interrupted receive, at or
  below the mapped dataset, and continues exactly that one with its own token; the plan belongs to a recorded proof of this
  stream for the bound target, whose snapshots are all still held on the source with the GUIDs the plan expects, and every other
  resumable proof of the stream for that target has an older snapshot.
\<close>

theorem BuildResume_proven:
  assumes "BuildResume request view installation = Inr (plan, r)"
  shows "st_ResumeTokens (vw_Source view) = []
    \<and> st_ResumeTokens (vw_Destination view) = [(ro_Root (pl_Receive plan), so_ResumeToken (pl_Send plan))]
    \<and> so_ResumeToken (pl_Send plan) \<noteq> [] \<and> ro_Discard (pl_Receive plan) = ReceiveExact
    \<and> vw_DestinationExists view \<and> inside (ro_Root (pl_Receive plan)) (pl_Destination plan)
    \<and> (\<exists>refs canonical. RootAuthority (vw_Source view) (rq_Source request) installation = Inr (pl_Lineage plan)
         \<and> referenceRecords (vw_Source view) (rq_Source request) (pl_Lineage plan) = Inr refs \<and> r \<in> set refs
         \<and> resumable (vw_Source view) (pl_Source plan) (pl_Lineage plan) (TargetID canonical) r
         \<and> tb_CanonicalTarget (pl_TargetBinding plan) = canonical
         \<and> (\<forall>r' \<in> set refs. resumable (vw_Source view) (pl_Source plan) (pl_Lineage plan) (TargetID canonical) r' \<and> r' \<noteq> r
              \<longrightarrow> proofTXG (vw_Source view) r' < proofTXG (vw_Source view) r))
    \<and> (\<forall>x \<in> set (pl_Expected plan). heldSnapshot (vw_Source view) r x)"
proof -
  from assms obtain stream p canonical mappedRoot target token lineage binding refs where
    tok: "resumeToken view target = Inr token"
    and auth: "RootAuthority (vw_Source view) (rq_Source request) installation = Inr lineage"
    and bind: "resumeBinding request view mappedRoot canonical = Inr binding"
    and refs: "referenceRecords (vw_Source view) (rq_Source request) lineage = Inr refs"
    and proof_r: "resumeProof view (mb_Dataset stream) lineage canonical refs = Inr r"
    and plan: "resumePlan request view stream p mappedRoot target lineage binding token r = Inr (plan, r)"
    by (rule BuildResume_Inr) blast
  note f = resumePlan_Inr [OF plan]
  obtain t where "newestProof (vw_Source view) (mb_Dataset stream) lineage (TargetID canonical) (None, 0, False) refs = (Some r, t, False)"
    using proof_r by (auto simp: resumeProof_def split: prod.splits option.splits bool.splits)
  from newestProof_best [OF this] have r: "r \<in> set refs" "resumable (vw_Source view) (mb_Dataset stream) lineage (TargetID canonical) r"
    "\<forall>r' \<in> set refs. resumable (vw_Source view) (mb_Dataset stream) lineage (TargetID canonical) r' \<and> r' \<noteq> r
       \<longrightarrow> proofTXG (vw_Source view) r' < proofTXG (vw_Source view) r"
    by auto
  have canon: "tb_CanonicalTarget binding = canonical"
    using anchored_Inr [OF resumeBinding_Inr [OF bind, unfolded bindingForTarget_def]] by (simp add: bindingTemplate_def)
  have held: "heldSnapshot (vw_Source view) r x" if in_plan: "x \<in> set (pl_Expected plan)" for x
  proof -
    obtain members where m: "Sources r (vw_Source view) = Inr members" "collectE (resumeMember request view mappedRoot lineage r) members = Inr (pl_Expected plan)"
      using f(8) by blast
    from collectE_Inr [OF m(2) in_plan] obtain mb where mb: "mb \<in> set members" "resumeMember request view mappedRoot lineage r mb = Inr x" by blast
    have "heldMember (vw_Source view) lineage r mb" using r(2) m(1) mb(1) by (auto simp: resumable_def heldProof_def list_all_iff)
    then obtain ob where "objectNamed (vw_Source view) (ex_Source x) = Some ob" "ob_Type ob = ''snapshot''" "ob_GUID ob = ex_GUID x"
      "referenceHold r \<in> set (mindex (st_Holds (vw_Source view)) (ex_Source x))"
      unfolding heldMember_def Let_def resumeMember_Inr [OF mb(2), THEN conjunct1, symmetric] resumeMember_Inr [OF mb(2), THEN conjunct2, symmetric]
      by (cases "objectNamed (vw_Source view) (ex_Source x)") simp_all
    then show ?thesis using objectNamed_Some [of "vw_Source view" "ex_Source x" ob] by (auto simp: heldSnapshot_def)
  qed
  have t: "st_ResumeTokens (vw_Source view) = []" "st_ResumeTokens (vw_Destination view) = [token]" "snd token \<noteq> []"
    "vw_DestinationExists view" "inside (fst token) target"
    using tok by (auto simp: resumeToken_def split: list.splits prod.splits if_splits)
  with f r canon refs auth held show ?thesis by auto
qed

subsection \<open>A concrete plan\<close>

text \<open>The root \<open>tank\<close> with three snapshots, of which the replica \<open>backup/tank\<close> has the first.\<close>

definition exReplica :: State where
  "exReplica = memAdd (''backup/'' @ sn_Name (exSnapshot (1000 * Minute) 11)) ''snapshot'' 11 (memAdd ''backup/tank'' Filesystem 31 emptyState)"

abbreviation exReplicaIdentity :: DatasetIdentity where
  "exReplicaIdentity \<equiv> \<lparr>di_Name = ''backup/tank'', di_Type = Filesystem, di_GUID = 31, di_Pool = ''backup'', di_PoolGUID = 5, di_Placeholder = False\<rparr>"

definition exRows :: "Dataset list" where
  "exRows = map (\<lambda>d. \<lparr>ds_Name = d, ds_Type = Filesystem, ds_EncryptionRoot = ''-''\<rparr>) [''backup'', ''backup/tank'', ''tank'']"

definition exView :: View where
  "exView =
     \<lparr>vw_Stream = [], vw_Inventory = exRows, vw_DestinationInventory = None, vw_Source = exHost, vw_Destination = exReplica,
      vw_DestinationExists = True, vw_DestinationIdentity = exReplicaIdentity, vw_RootDestinationExists = True,
      vw_RootDestinationIdentity = exReplicaIdentity, vw_BindingIdentity = noIdentity\<rparr>"

definition exStream :: Member where
  "exStream = \<lparr>mb_Dataset = ''tank'', mb_Policy = exSendPolicy, mb_Snapshot = []\<rparr>"

definition exDatasets :: "(string, Dataset) gomap" where
  "exDatasets = map (\<lambda>d. (ds_Name d, d)) exRows"

definition exWanted :: TargetBinding where
  "exWanted = exTemplate\<lparr>tb_Pool := ''backup'', tb_PoolGUID := 5, tb_Anchor := ''backup/tank'', tb_AnchorGUID := 31\<rparr>"

lemma unbound_rows:
  assumes "list_all (\<lambda>p. \<not> HasPrefix (p_Name p) TargetStatePrefix) rows"
  shows "suspendedRows root (targetSuspendedProperty c) seen rows = Inr seen" "bindingRows state root target b rows = Inr b"
proof -
  have "HasPrefix (targetSuspendedProperty c) TargetStatePrefix" "HasPrefix (targetBindingProperty c) TargetStatePrefix" for c
    by (simp_all add: targetSuspendedProperty_def targetBindingProperty_def HasPrefix_iff)
  then have "p_Name p \<noteq> targetSuspendedProperty c \<and> p_Name p \<noteq> targetBindingProperty c" if "p \<in> set rows" for p c
    using assms that by (auto simp: list_all_iff)
  then show "suspendedRows root (targetSuspendedProperty c) seen rows = Inr seen" "bindingRows state root target b rows = Inr b"
    by (induction rows) auto
qed

lemma exHost_unbound: "list_all (\<lambda>p. \<not> HasPrefix (p_Name p) TargetStatePrefix) (st_Properties exHost)"
  by code_simp

lemma exPlan_parts:
  "planStream exRequest exView = Inr (exStream, exSendPolicy)" "planCanonical exRequest exStream = Inr exCanonical"
  "planMapped exRequest exStream = Inr (''backup/tank'', ''backup/tank'')" "checkScopes exRequest exView ''backup/tank'' = None"
  "inventoryMap m [] exRows = Inr exDatasets" "checkInventory exHost exDatasets = None"
  "checkDestination exView ''backup/tank'' ''backup/tank'' exDatasets = None"
  "scopePolicy exRequest exView exDatasets exStream exSendPolicy = Inr exSendPolicy"
  "RootAuthority exHost ''tank'' exInstallation = Inr exLineage" "presentDataset exHost ''tank''"
  "bindingForTarget exRequest ''backup/tank'' exReplicaIdentity ''local'' exCanonical = Inr exWanted"
  by code_simp+

lemma exStream_plan:
  "case buildStream exRequest exView exStream exSendPolicy ''backup/tank'' ''backup/tank'' exLineage (exWanted, True) exDatasets of
     Inr plan \<Rightarrow> pl_Mode plan = ''incremental-latest'' \<and> so_Base (pl_Send plan) = sn_Name (exSnapshot (1000 * Minute) 11)
       \<and> so_Snapshot (pl_Send plan) = sn_Name (exSnapshot (1002 * Minute) 13) \<and> length (pl_Expected plan) = 1
   | Inl _ \<Rightarrow> False"
  by code_simp

lemma exBuild:
  "Build exRequest exView exInstallation =
     buildStream exRequest exView exStream exSendPolicy ''backup/tank'' ''backup/tank'' exLineage (exWanted, True) exDatasets"
proof -
  have f: "vw_Source exView = exHost" "rq_Source exRequest = ''tank''" "mb_Dataset exStream = ''tank''" "vw_Inventory exView = exRows"
    "st_ResumeTokens exHost = []" "st_ResumeTokens (vw_Destination exView) = []" "destinationInventory exRequest exView = exRows"
    "vw_RootDestinationIdentity exView = exReplicaIdentity" "requestTransport exRequest = ''local''"
    by code_simp+
  have binding: "planBinding exRequest exView ''backup/tank'' exCanonical = Inr (exWanted, True)"
    by (simp add: planBinding_def storedTargetBinding_def f exPlan_parts(11) unbound_rows(2) [OF exHost_unbound])
  have "TargetSuspended exHost ''tank'' exCanonical = Inr False"
    by (simp add: TargetSuspended_def unbound_rows(1) [OF exHost_unbound])
  with binding show ?thesis by (simp add: Build_def f exPlan_parts)
qed

lemma exPlan:
  obtains plan where "Build exRequest exView exInstallation = Inr plan" "pl_Mode plan = ''incremental-latest''"
    "so_Base (pl_Send plan) = sn_Name (exSnapshot (1000 * Minute) 11)" "so_Snapshot (pl_Send plan) = sn_Name (exSnapshot (1002 * Minute) 13)"
    "length (pl_Expected plan) = 1"
  using exStream_plan unfolding exBuild [symmetric] by (cases "Build exRequest exView exInstallation") auto

theorem Build_base_is_destination_latest_witness:
  "\<exists>plan base latest. Build exRequest exView exInstallation = Inr plan \<and> newestOn exReplica (pl_Destination plan) latest
     \<and> base \<in> set (st_Objects exHost) \<and> ob_Name base = sn_Name (exSnapshot (1000 * Minute) 11) \<and> ob_GUID base = ob_GUID latest"
proof -
  obtain plan where p: "Build exRequest exView exInstallation = Inr plan" "pl_Mode plan = ''incremental-latest''"
    "so_Base (pl_Send plan) = sn_Name (exSnapshot (1000 * Minute) 11)" by (rule exPlan)
  have "vw_Source exView = exHost" "vw_Destination exView = exReplica" by (simp_all add: exView_def)
  with Build_base_is_destination_latest [OF p(1)] p show ?thesis by auto
qed

theorem Build_stays_in_scope_witness:
  "\<exists>plan x. Build exRequest exView exInstallation = Inr plan \<and> inside (pl_Destination plan) ''backup/tank''
     \<and> set (pl_Expected plan) = {x} \<and> inside (datasetOf (ex_Destination x)) (pl_Destination plan)"
proof -
  obtain plan where p: "Build exRequest exView exInstallation = Inr plan" "length (pl_Expected plan) = 1" by (rule exPlan)
  from p(2) obtain x where x: "pl_Expected plan = [x]" by (cases "pl_Expected plan") auto
  have "rq_DestinationRoot exRequest = ''backup/tank''" by (simp add: exRequest_def)
  with Build_stays_in_scope [OF p(1)] p(1) x show ?thesis by (auto simp: placedBelow_def)
qed

theorem Build_send_accepted_witness:
  "\<exists>plan. Build exRequest exView exInstallation = Inr plan \<and> is_ok (sendArgs (pl_Send plan) True)"
proof -
  obtain plan where p: "Build exRequest exView exInstallation = Inr plan" by (rule exPlan)
  have "distinct (map ob_Name (st_Objects (vw_Source exView)))" by code_simp
  from Build_send_accepted [OF p this] p show ?thesis by blast
qed

text \<open>A receive of the second snapshot of \<open>tank\<close> that was interrupted: the proof and the binding are stored, the snapshot is held.\<close>

definition exResumeProof :: Reference where
  "exResumeProof = \<lparr>rf_TargetID = TargetID exCanonical, rf_Dataset = ''tank'', rf_Metadata = exMeta, rf_Recursive = False\<rparr>"

definition exHeld :: string where "exHeld = ''tank@'' @ metadataName exMeta"

definition exSnapRows :: "Property list" where
  "exSnapRows = map (\<lambda>(k, v). \<lparr>p_Dataset = exHeld, p_Name = k, p_Value = v, p_Source = SourceLocal\<rparr>) (metadataProperties exMeta)"

definition exResumeHost :: "string \<Rightarrow> State" where
  "exResumeHost v =
     \<lparr>st_Objects = [\<lparr>ob_Name = ''tank'', ob_Type = Filesystem, ob_GUID = 7, ob_Creation = 0, ob_CreateTXG = 7\<rparr>,
        \<lparr>ob_Name = exHeld, ob_Type = ''snapshot'', ob_GUID = 12, ob_Creation = 0, ob_CreateTXG = 12\<rparr>],
      st_Properties = st_Properties exTank @ exSnapRows
        @ [exRow (referenceProperty exResumeProof) (proofText exResumeProof ''tank''), exRow (targetBindingProperty exCanonical) v],
      st_Received = [], st_ResumeTokens = [], st_Clones = [], st_Holds = [(exHeld, [referenceHold exResumeProof])]\<rparr>"

definition exPartial :: State where
  "exPartial = (memAdd ''backup/tank'' Filesystem 31 emptyState)\<lparr>st_ResumeTokens := [(''backup/tank'', ''1-c0ffee'')]\<rparr>"

definition exResumeView :: "string \<Rightarrow> View" where
  "exResumeView v =
     \<lparr>vw_Stream = [], vw_Inventory = exRows, vw_DestinationInventory = None, vw_Source = exResumeHost v, vw_Destination = exPartial,
      vw_DestinationExists = True, vw_DestinationIdentity = exReplicaIdentity, vw_RootDestinationExists = True,
      vw_RootDestinationIdentity = exReplicaIdentity,
      vw_BindingIdentity = \<lparr>di_Name = ''backup'', di_Type = Filesystem, di_GUID = 9, di_Pool = ''backup'', di_PoolGUID = 7, di_Placeholder = False\<rparr>\<rparr>"

lemma exResumeProof_provable: "provable exResumeProof ''tank''"
  using exProof_provable by (simp add: provable_def exProof_def exResumeProof_def TargetID_def EncodeToString_hex length_Sum256)

lemma exResume_names: "datasetOf exHeld = ''tank''" "exHeld \<noteq> ''tank''"
  "map (\<lambda>p. (p_Dataset p, p_Name p, p_Source p)) exSnapRows = [(exHeld, LineageProperty, SourceLocal), (exHeld, SnapshotProperty, SourceLocal)]"
  "inside ''tank'' ''tank''" "inside ''backup/tank'' ''backup/tank''" "datasetOf ''tank'' = ''tank''" "datasetOf ''backup/tank'' = ''backup/tank''"
  by code_simp+

lemma exResume_rows: "\<exists>a b. exSnapRows = [a, b] \<and> p_Dataset a = exHeld \<and> p_Dataset b = exHeld"
  using exResume_names(3) by (auto simp: map_eq_Cons_conv)

lemma exResumeHost_authority: "RootAuthority (exResumeHost v) ''tank'' exInstallation = Inr exLineage"
proof (rule authority_reads_back)
  obtain a b where rows: "exSnapRows = [a, b]" "p_Dataset a = exHeld" "p_Dataset b = exHeld" using exResume_rows by blast
  show "Valid exInstallation" "Valid exLineage" "validDataset ''tank''" by code_simp+
  show "receivedValue (exResumeHost v) ''tank'' LineageProperty = []" by (simp add: receivedValue_def exResumeHost_def mindex_def)
  show "filter (\<lambda>p. p_Dataset p = ''tank'' \<and> p_Name p \<in> {OwnerProperty, LineageProperty, VersionProperty}) (st_Properties (exResumeHost v))
    = map (\<lambda>(k, v). \<lparr>p_Dataset = ''tank'', p_Name = k, p_Value = v, p_Source = SourceLocal\<rparr>) (authorityProperties exInstallation exLineage)"
    using reference_not_marker [of exResumeProof] marker_not_binding [symmetric]
    by (simp add: exResumeHost_def exTank_eq authorityProperties_eq rows exResume_names(2))
qed

lemma exResumeHost_current: "CurrentState (exResumeHost v) ''tank'' = None"
  using exResumeHost_authority RootAuthority_iff by blast

lemma reference_not_target: "referenceProperty r \<noteq> targetBindingProperty c" "referenceProperty r \<noteq> targetSuspendedProperty c"
  "targetBindingProperty c \<noteq> targetSuspendedProperty c" "\<not> HasPrefix (targetBindingProperty c) ReferencePrefix"
  "LineageProperty \<noteq> targetSuspendedProperty c" "OwnerProperty \<noteq> targetSuspendedProperty c" "VersionProperty \<noteq> targetSuspendedProperty c"
  by (simp_all add: referenceProperty_def targetBindingProperty_def targetSuspendedProperty_def LineageProperty_def HasPrefix_def)

lemma exResumeHost_suspended: "TargetSuspended (exResumeHost v) ''tank'' exCanonical = Inr False"
proof -
  obtain a b where rows: "exSnapRows = [a, b]" "p_Dataset a = exHeld" "p_Dataset b = exHeld" using exResume_rows by blast
  then show ?thesis
    using reference_not_target by (simp add: TargetSuspended_def exResumeHost_def exTank_eq rows exResume_names(2))
qed

lemma exResumeHost_bound: "map p_Value (filter (bindingRow ''tank'' exCanonical) (st_Properties (exResumeHost v))) = [v]"
proof -
  obtain a b where rows: "exSnapRows = [a, b]" "p_Dataset a = exHeld" "p_Dataset b = exHeld" using exResume_rows by blast
  then show ?thesis
    using reference_not_target(1) marker_not_binding by (simp add: exResumeHost_def exTank_eq bindingRow_def rows exResume_names(2))
qed

lemma exResumeHost_records: "referenceRecords (exResumeHost v) ''tank'' exLineage = Inr [exResumeProof]"
proof -
  obtain a b where rows: "exSnapRows = [a, b]" "p_Dataset a = exHeld" "p_Dataset b = exHeld" using exResume_rows by blast
  have "decodeReference (exRow (referenceProperty exResumeProof) (proofText exResumeProof ''tank'')) ''tank'' exLineage = Inr exResumeProof"
    using reference_reads_back [OF exResumeProof_provable] by (auto simp: proofText_def exResumeProof_def exMeta_def)
  then have "collectReferences ''tank'' exLineage [] (st_Properties (exResumeHost v)) = Inr [exResumeProof]"
    using reference_not_target(4) by (simp add: exResumeHost_def exTank_eq exTank_not_reference referenceProperty_prefix rows exResume_names(2))
  then show ?thesis by (simp add: referenceRecords_def recordsReadable_def exResumeHost_current)
qed

lemma exResume_parts:
  "resumeCanonical exRequest exStream = Inr exCanonical" "checkScopes exRequest (exResumeView v) ''backup/tank'' = None"
  "resumeToken (exResumeView v) ''backup/tank'' = Inr (''backup/tank'', ''1-c0ffee'')"
  "checkResumeInventory exRequest (exResumeView v) exStream ''backup/tank'' = None"
proof -
  have f: "rq_Source exRequest = ''tank''" "mb_Dataset exStream = ''tank''" by (simp_all add: exRequest_def exStream_def)
  show "resumeCanonical exRequest exStream = Inr exCanonical" by code_simp
  show "checkScopes exRequest (exResumeView v) ''backup/tank'' = None"
    by (simp add: checkScopes_def exResumeView_def exResumeHost_def exPartial_def memAdd_def emptyState_def f exResume_names)
  show "resumeToken (exResumeView v) ''backup/tank'' = Inr (''backup/tank'', ''1-c0ffee'')"
    by (simp add: resumeToken_def exResumeView_def exResumeHost_def exPartial_def exResume_names)
  have "mget exDatasets ''tank'' = Some \<lparr>ds_Name = ''tank'', ds_Type = Filesystem, ds_EncryptionRoot = ''-''\<rparr>"
    "mget exDatasets ''backup/tank'' = Some \<lparr>ds_Name = ''backup/tank'', ds_Type = Filesystem, ds_EncryptionRoot = ''-''\<rparr>"
    "requestTransport exRequest = ''local''"
    by code_simp+
  then show "checkResumeInventory exRequest (exResumeView v) exStream ''backup/tank'' = None"
    by (simp add: checkResumeInventory_def exResumeView_def exPlan_parts(5) destinationInventory_def f datasetIn_def)
qed

lemma exResumeHost_object:
  "objectNamed (exResumeHost v) ''tank'' = Some \<lparr>ob_Name = ''tank'', ob_Type = Filesystem, ob_GUID = 7, ob_Creation = 0, ob_CreateTXG = 7\<rparr>"
  "objectNamed (exResumeHost v) exHeld = Some \<lparr>ob_Name = exHeld, ob_Type = ''snapshot'', ob_GUID = 12, ob_Creation = 0, ob_CreateTXG = 12\<rparr>"
  "objectNamed (exResumeHost v) (sourceBookmark exResumeProof d) = None"
proof -
  have "CHR ''#'' \<in> set (sourceBookmark exResumeProof d)" by (simp add: sourceBookmark_def)
  moreover have "CHR ''#'' \<notin> set exHeld" "CHR ''#'' \<notin> set ''tank''" by code_simp+
  ultimately have "sourceBookmark exResumeProof d \<noteq> exHeld" "sourceBookmark exResumeProof d \<noteq> ''tank''" by metis+
  then show "objectNamed (exResumeHost v) (sourceBookmark exResumeProof d) = None" by (simp add: objectNamed_def exResumeHost_def)
qed (use exResume_names(2) in \<open>simp_all add: objectNamed_def exResumeHost_def\<close>)

lemma exResumeProof_held: "heldProof (exResumeHost v) ''tank'' exLineage exResumeProof"
  "Sources exResumeProof (exResumeHost v) = Inr [\<lparr>rs_Dataset = ''tank'', rs_GUID = 12\<rparr>]"
proof -
  have snap: "sourceSnapshot exResumeProof ''tank'' = exHeld" by (simp add: sourceSnapshot_def exHeld_def exResumeProof_def)
  have held: "mindex (st_Holds (exResumeHost v)) exHeld = [referenceHold exResumeProof]" by (simp add: exResumeHost_def mindex_def mget_def)
  have "sourceCandidates exResumeProof (exResumeHost v) = [''tank'']"
    by (simp add: sourceCandidates_def exResumeHost_def isDataset_def exResumeProof_def SortCompact_def)
  then show src: "Sources exResumeProof (exResumeHost v) = Inr [\<lparr>rs_Dataset = ''tank'', rs_GUID = 12\<rparr>]"
    by (simp add: Sources_def sourceAt_def snap held exResumeHost_object Let_def)
  have own: "Ownership \<lparr>sn_Name = exHeld, sn_GUID = 12, sn_Properties = exSnapRows, sn_Holds = [], sn_Clones = [], sn_ResumeRequired = False\<rparr> exLineage
      = Inr exMeta" by code_simp
  obtain a b where rows: "exSnapRows = [a, b]" "p_Dataset a = exHeld" "p_Dataset b = exHeld" using exResume_rows by blast
  have "filter (\<lambda>p. p_Dataset p = exHeld) (st_Properties (exResumeHost v)) = exSnapRows"
    using exResume_names(2) by (simp add: exResumeHost_def exTank_eq rows)
  with own have "objectOwnership (exResumeHost v) \<lparr>ob_Name = exHeld, ob_Type = ''snapshot'', ob_GUID = 12, ob_Creation = 0, ob_CreateTXG = 12\<rparr> exLineage
      = Inr exMeta" by (simp add: objectOwnership_def)
  moreover have "rf_Metadata exResumeProof = exMeta" "''tank@'' @ metadataName exMeta = exHeld" by (simp_all add: exResumeProof_def exHeld_def)
  ultimately have "heldMember (exResumeHost v) exLineage exResumeProof \<lparr>rs_Dataset = ''tank'', rs_GUID = 12\<rparr>"
    by (simp add: heldMember_def Let_def exResumeHost_object held)
  then show "heldProof (exResumeHost v) ''tank'' exLineage exResumeProof" by (simp add: heldProof_def src)
qed

lemma exResume:
  obtains v plan where "BuildResume exRequest (exResumeView v) exInstallation = Inr (plan, exResumeProof)"
    "set (pl_Expected plan) = {\<lparr>ex_Source = exHeld, ex_Destination = ''backup/'' @ exHeld, ex_GUID = 12, ex_Metadata = Some exMeta\<rparr>}"
proof -
  obtain v where "storedTargetBinding (exResumeHost v) ''tank'' exTemplate = Inr (Some exBinding)"
    using binding_reads_back [OF exBinding_anchored exBinding_valid exBinding_names(1,2,3,4)] exResumeHost_current exResumeHost_bound
      exBinding_names(5) by metis
  moreover have f: "rq_Source exRequest = ''tank''" "mb_Dataset exStream = ''tank''" "requestTransport exRequest = ''local''"
    "vw_Source (exResumeView v) = exResumeHost v" "vw_Destination (exResumeView v) = exPartial" by (simp_all add: exRequest_def exStream_def requestTransport_def exResumeView_def)
  ultimately have binding: "resumeBinding exRequest (exResumeView v) ''backup/tank'' exCanonical = Inr exBinding"
    using exBinding_anchored exBinding_valid
    by (simp add: resumeBinding_def bindingForTarget_def exResumeView_def exTemplate_def [symmetric])
  have stream: "planStream exRequest (exResumeView v) = Inr (exStream, exSendPolicy)"
  proof -
    have "vw_Stream (exResumeView v) = vw_Stream exView" by (simp add: exView_def exResumeView_def)
    then show ?thesis using exPlan_parts(1) by (simp only: planStream_def)
  qed
  have "referenceSnapshot exResumeProof = exHeld" "rf_TargetID exResumeProof = TargetID exCanonical" "rf_Dataset exResumeProof = ''tank''"
    by (simp_all add: referenceSnapshot_def exHeld_def exResumeProof_def)
  then have newest: "resumeProof (exResumeView v) ''tank'' exLineage exCanonical [exResumeProof] = Inr exResumeProof"
    using exResumeProof_held(1) by (simp add: resumeProof_def f exResumeHost_object)
  have place: "mappedName exRequest ''backup/tank'' ''tank'' = ''backup/tank''" by code_simp
  have dest: "objectNamed exPartial ''backup/tank'' = Some \<lparr>ob_Name = ''backup/tank'', ob_Type = Filesystem, ob_GUID = 31, ob_Creation = 0, ob_CreateTXG = 31\<rparr>"
    "storedLineage exPartial ''backup/tank'' = Inr []" by code_simp+
  have "rf_Metadata exResumeProof = exMeta" by (simp add: exResumeProof_def)
  then have member: "resumeMember exRequest (exResumeView v) ''backup/tank'' exLineage exResumeProof \<lparr>rs_Dataset = ''tank'', rs_GUID = 12\<rparr>
      = Inr \<lparr>ex_Source = exHeld, ex_Destination = ''backup/'' @ exHeld, ex_GUID = 12, ex_Metadata = Some exMeta\<rparr>"
    by (simp add: resumeMember_def Let_def place f dest exResumeHost_object exHeld_def)
  obtain plan where plan: "resumePlan exRequest (exResumeView v) exStream exSendPolicy ''backup/tank'' ''backup/tank'' exLineage exBinding (''backup/tank'', ''1-c0ffee'') exResumeProof
      = Inr (plan, exResumeProof)"
    "pl_Expected plan = [\<lparr>ex_Source = exHeld, ex_Destination = ''backup/'' @ exHeld, ex_GUID = 12, ex_Metadata = Some exMeta\<rparr>]"
    by (simp add: resumePlan_def f exResumeProof_held(2) member place)
  have "BuildResume exRequest (exResumeView v) exInstallation = Inr (plan, exResumeProof)"
    by (simp add: BuildResume_def stream exPlan_parts(3) exResume_parts f exResumeHost_authority exResumeHost_suspended binding
        exResumeHost_records newest plan(1))
  then show thesis by (rule that) (unfold plan(2), rule list.set(2) [of _ "[]", unfolded list.set(1)])
qed

theorem BuildResume_proven_witness:
  "\<exists>v plan. BuildResume exRequest (exResumeView v) exInstallation = Inr (plan, exResumeProof)
     \<and> st_ResumeTokens exPartial = [(ro_Root (pl_Receive plan), so_ResumeToken (pl_Send plan))]
     \<and> heldSnapshot (exResumeHost v) exResumeProof \<lparr>ex_Source = exHeld, ex_Destination = ''backup/'' @ exHeld, ex_GUID = 12, ex_Metadata = Some exMeta\<rparr>"
proof -
  obtain v plan where run: "BuildResume exRequest (exResumeView v) exInstallation = Inr (plan, exResumeProof)"
    and expected: "set (pl_Expected plan) = {\<lparr>ex_Source = exHeld, ex_Destination = ''backup/'' @ exHeld, ex_GUID = 12, ex_Metadata = Some exMeta\<rparr>}"
    by (rule exResume)
  have "vw_Source (exResumeView v) = exResumeHost v" "vw_Destination (exResumeView v) = exPartial" by (simp_all add: exResumeView_def)
  with BuildResume_proven [OF run] run expected show ?thesis by (metis insertI1)
qed

end
