(* ===== verification/Remote_Scope.thy ===== *)
theory Remote_Scope
  imports Zfs_Backend
begin

section \<open>Destination scopes of remote endpoints\<close>

text \<open>
  \<open>internal/replication/scope/scope.go\<close>, the \<open>scopedExecutor\<close> of \<open>internal/replication/ssh/scope.go\<close> and the operations of the
  RPC server in \<open>internal/replication/rpc/service.go\<close>. Both put a destination behind the roots it is configured
  for. The locale \<open>call_filter\<close> states what such a wrapper is, a filter on calls, and the properties that no sequence of calls
  can act outside the roots follow from it for each.
\<close>

subsection \<open>Definitions\<close>

definition scopeDataset :: "string \<Rightarrow> string" where
  "scopeDataset obj = takeWhile (\<lambda>c. c \<noteq> CHR ''@'' \<and> c \<noteq> CHR ''#'') obj"

definition scopeInside :: "string \<Rightarrow> string \<Rightarrow> bool" where
  "scopeInside root obj =
     (let dataset = scopeDataset obj in dataset = root \<or> HasPrefix dataset (root @ ''/''))"

definition scopeRelated :: "string \<Rightarrow> string \<Rightarrow> bool" where
  "scopeRelated root dataset = (scopeInside root dataset \<or> HasPrefix root (dataset @ ''/''))"

abbreviation outsideSSH :: go_error where
  "outsideSSH \<equiv> Errorf ''dataset is outside configured SSH destination scope'' []"

text \<open>The SSH wrapper, one field for each method.\<close>

definition scopedExecutor :: "string \<Rightarrow> 'w Destination \<Rightarrow> 'w Destination" where
  "scopedExecutor root b =
     \<lparr>zListDatasets =
        ioBind (zListDatasets b) (\<lambda>all. ioReturn (filter (\<lambda>d. scopeRelated root (ds_Name d)) all)),
      zInspectDatasetIdentity = (\<lambda>dataset.
        if \<not> scopeRelated root dataset then ioFail outsideSSH else zInspectDatasetIdentity b dataset),
      zCheckPermissions = (\<lambda>dataset permissions.
        if \<not> scopeRelated root dataset then ioFail outsideSSH else zCheckPermissions b dataset permissions),
      zInspectState = (\<lambda>dataset recursive.
        if \<not> scopeInside root dataset then ioFail outsideSSH else zInspectState b dataset recursive),
      zCreateReceiveParent = (\<lambda>dataset.
        if \<not> scopeInside root dataset \<or> dataset = root
        then ioFail (Errorf ''receive ancestor is outside configured SSH destination scope'' [])
        else zCreateReceiveParent b dataset),
      zSetProperties = (\<lambda>dataset properties.
        if \<not> scopeInside root dataset then ioFail outsideSSH else zSetProperties b dataset properties),
      zInheritProperty = (\<lambda>dataset property.
        if \<not> scopeInside root dataset then ioFail outsideSSH else zInheritProperty b dataset property),
      zDestroySnapshot = (\<lambda>snapshot.
        ioCheck (validateSnapshot snapshot)
          (if \<not> scopeInside root snapshot
           then ioFail (Errorf ''snapshot is outside configured SSH destination scope'' [])
           else zDestroySnapshot b snapshot)),
      zReseed = Some
        (\<lambda>dataset.
           if \<not> scopeInside root dataset then ioFail outsideSSH
           else (case zReseed b of None \<Rightarrow> ioFail noReseed | Some (abort, _) \<Rightarrow> abort dataset),
         \<lambda>dataset recursive.
           if \<not> scopeInside root dataset then ioFail outsideSSH
           else (case zReseed b of None \<Rightarrow> ioFail noReseed | Some (_, destroy) \<Rightarrow> destroy dataset recursive)),
      zReplica = Some (\<lambda>from to.
        if \<not> scopeInside root from \<or> \<not> scopeInside root to \<or> from = root \<or> to = root
        then ioFail (Errorf ''rename is outside configured SSH destination scope'' [])
        else (case zReplica b of None \<Rightarrow> ioFail noReplica | Some rename \<Rightarrow> rename from to))\<rparr>"

subsection \<open>The RPC server\<close>

text \<open>A status error is its code and the error it carries.\<close>

definition statusError :: "string \<Rightarrow> go_error \<Rightarrow> go_error" where
  "statusError code e = Errorf ''rpc error: code = %s desc = %s'' [Arg code, Wrap e]"

definition ioStatus :: "string \<Rightarrow> ('w, 'a) zio \<Rightarrow> ('w, 'a) zio" where
  "ioStatus code m w = (case m w of (Inl e, w') \<Rightarrow> (Inl (statusError code e), w') | r \<Rightarrow> r)"

definition denied :: "string \<Rightarrow> ('w, 'a) zio" where
  "denied what = ioFail (statusError ''PermissionDenied'' (Errorf what []))"

definition serverRelated :: "string list \<Rightarrow> string \<Rightarrow> bool" where
  "serverRelated roots dataset = list_ex (\<lambda>root. scopeRelated root dataset) roots"

definition serverInside :: "string list \<Rightarrow> string \<Rightarrow> bool" where
  "serverInside roots dataset = list_ex (\<lambda>root. scopeInside root dataset) roots"

text \<open>\<open>NewServerForRootsWithReceiver\<close>: the roots a server is built with.\<close>

definition serverRoots :: "string list \<Rightarrow> string list result" where
  "serverRoots allowedRoots =
     (if allowedRoots = [] then Inl (Errorf ''at least one allowed destination root is required'' [])
      else
        (let roots = SortCompact allowedRoots in
         case find (\<lambda>root. validateDataset root \<noteq> None) roots of
           Some root \<Rightarrow>
             (case validateDataset root of
                Some e \<Rightarrow> Inl (Errorf ''allowed destination root: %w'' [Wrap e])
              | None \<Rightarrow> Inr roots)
         | None \<Rightarrow> Inr roots))"

abbreviation outsideRPC :: string where
  "outsideRPC \<equiv> ''dataset is outside the configured destination scope''"

definition rpcServer :: "string list \<Rightarrow> 'w Destination \<Rightarrow> 'w Destination" where
  "rpcServer roots b =
     \<lparr>zListDatasets =
        ioBind (ioStatus ''Internal'' (zListDatasets b)) (\<lambda>all. ioReturn (filter (\<lambda>d. serverRelated roots (ds_Name d)) all)),
      zInspectDatasetIdentity = (\<lambda>dataset.
        if \<not> serverRelated roots dataset then denied outsideRPC
        else ioStatus ''Internal'' (zInspectDatasetIdentity b dataset)),
      zCheckPermissions = (\<lambda>dataset permissions.
        if \<not> serverRelated roots dataset then denied outsideRPC
        else ioStatus ''FailedPrecondition'' (zCheckPermissions b dataset permissions)),
      zInspectState = (\<lambda>dataset recursive.
        if \<not> serverInside roots dataset then denied outsideRPC
        else ioStatus ''Internal'' (zInspectState b dataset recursive)),
      zCreateReceiveParent = (\<lambda>dataset.
        if \<not> serverInside roots dataset \<or> dataset \<in> set roots
        then denied ''receive ancestor is outside the configured destination scope''
        else ioStatus ''Internal'' (zCreateReceiveParent b dataset)),
      zSetProperties = (\<lambda>dataset properties.
        if \<not> serverInside roots dataset then denied outsideRPC
        else ioStatus ''Internal'' (zSetProperties b dataset properties)),
      zInheritProperty = (\<lambda>dataset property.
        if \<not> serverInside roots dataset then denied outsideRPC
        else ioStatus ''Internal'' (zInheritProperty b dataset property)),
      zDestroySnapshot = (\<lambda>snapshot.
        case validateSnapshot snapshot of
          Some e \<Rightarrow> ioFail (statusError ''InvalidArgument'' e)
        | None \<Rightarrow>
            (if \<not> serverInside roots snapshot then denied ''snapshot is outside the configured destination scope''
             else ioStatus ''Internal'' (zDestroySnapshot b snapshot))),
      zReseed = Some
        (\<lambda>dataset.
           if \<not> serverInside roots dataset then denied outsideRPC
           else (case zReseed b of
                   None \<Rightarrow> ioFail (statusError ''Unimplemented'' noReseed)
                 | Some (abort, _) \<Rightarrow> ioStatus ''Internal'' (abort dataset)),
         \<lambda>dataset recursive.
           if \<not> serverInside roots dataset then denied outsideRPC
           else (case zReseed b of
                   None \<Rightarrow> ioFail (statusError ''Unimplemented'' noReseed)
                 | Some (_, destroy) \<Rightarrow> ioStatus ''Internal'' (destroy dataset recursive))),
      zReplica = Some (\<lambda>from to.
        if \<not> list_ex (\<lambda>root. from \<noteq> root \<and> to \<noteq> root \<and> scopeInside root from \<and> scopeInside root to) roots
        then denied ''rename is outside one configured destination scope''
        else (case zReplica b of
                None \<Rightarrow> ioFail (statusError ''Unimplemented'' noReplica)
              | Some rename \<Rightarrow> ioStatus ''Internal'' (rename from to)))\<rparr>"

subsection \<open>Wrappers as filters on calls\<close>

definition runCalls :: "'w Destination \<Rightarrow> zcall list \<Rightarrow> 'w \<Rightarrow> 'w" where
  "runCalls d cs w = foldl (\<lambda>w c. snd (perform d c w)) w cs"

text \<open>The calls a set of roots lets through, and the objects a call may change.\<close>

fun permitted :: "string list \<Rightarrow> zcall \<Rightarrow> bool" where
  "permitted roots ListDatasets = True"
| "permitted roots (InspectDatasetIdentity ds) = serverRelated roots ds"
| "permitted roots (CheckPermissions ds ps) = serverRelated roots ds"
| "permitted roots (InspectState ds r) = serverInside roots ds"
| "permitted roots (CreateReceiveParent ds) = (serverInside roots ds \<and> ds \<notin> set roots)"
| "permitted roots (SetProperties ds ps) = serverInside roots ds"
| "permitted roots (InheritProperty ds p) = serverInside roots ds"
| "permitted roots (DestroySnapshot s) = (validateSnapshot s = None \<and> serverInside roots s)"
| "permitted roots (AbortReceive ds) = serverInside roots ds"
| "permitted roots (DestroyDataset ds r) = serverInside roots ds"
| "permitted roots (RenameDataset from to) =
     list_ex (\<lambda>root. from \<noteq> root \<and> to \<noteq> root \<and> scopeInside root from \<and> scopeInside root to) roots"

fun mutated :: "zcall \<Rightarrow> string list" where
  "mutated (CreateReceiveParent ds) = [ds]"
| "mutated (SetProperties ds ps) = [ds]"
| "mutated (InheritProperty ds p) = [ds]"
| "mutated (DestroySnapshot s) = [s]"
| "mutated (AbortReceive ds) = [ds]"
| "mutated (DestroyDataset ds r) = [ds]"
| "mutated (RenameDataset from to) = [from, to]"
| "mutated c = []"

locale call_filter =
  fixes wrap :: "'w Destination \<Rightarrow> 'w Destination"
    and allow :: "zcall \<Rightarrow> bool"
  assumes refuses: "\<not> allow c \<Longrightarrow> \<not> is_ok (fst (perform (wrap d) c w)) \<and> snd (perform (wrap d) c w) = w"
    and passes: "allow c \<Longrightarrow>
      is_ok (fst (perform (wrap d) c w)) = is_ok (fst (perform d c w)) \<and> snd (perform (wrap d) c w) = snd (perform d c w)"
begin

lemma run_filtered: "runCalls (wrap d) cs w = runCalls d (filter allow cs) w"
proof (induction cs arbitrary: w)
  case (Cons c cs)
  then show ?case using refuses [of c d w] passes [of c d w] by (cases "allow c") (simp_all add: runCalls_def)
qed (simp add: runCalls_def)

lemma succeeds_only_allowed: "is_ok (fst (perform (wrap d) c w)) \<Longrightarrow> allow c"
  using refuses by blast

lemma wrap_twice: "runCalls (wrap (wrap d)) cs w = runCalls (wrap d) cs w"
proof -
  have "runCalls (wrap (wrap d)) cs w = runCalls d (filter allow (filter allow cs)) w"
    by (simp only: run_filtered)
  then show ?thesis by (simp add: run_filtered)
qed

end

lemma ioMap_outcome:
  "snd (ioMap f m w) = snd (m w)" "is_ok (fst (ioMap f m w)) = is_ok (fst (m w))"
  by (auto simp: ioMap_def ioBind_def split: prod.splits sum.splits)

lemma ioStatus_outcome:
  "snd (ioStatus code m w) = snd (m w)" "is_ok (fst (ioStatus code m w)) = is_ok (fst (m w))"
  by (auto simp: ioStatus_def split: prod.splits sum.splits)

lemma ioBind_return_outcome:
  "snd (ioBind m (\<lambda>x. ioReturn (f x)) w) = snd (m w)" "is_ok (fst (ioBind m (\<lambda>x. ioReturn (f x)) w)) = is_ok (fst (m w))"
  by (auto simp: ioBind_def split: prod.splits sum.splits)

lemma denied_outcome [simp]: "denied what w = (Inl (statusError ''PermissionDenied'' (Errorf what [])), w)"
  by (simp add: denied_def)

lemmas outcomes = ioMap_outcome ioStatus_outcome ioBind_return_outcome

lemma single_root [simp]: "serverInside [root] = scopeInside root" "serverRelated [root] = scopeRelated root"
  by (simp_all add: fun_eq_iff serverInside_def serverRelated_def)

interpretation ssh: call_filter "scopedExecutor root" "permitted [root]" for root
proof
  show "\<not> is_ok (fst (perform (scopedExecutor root d) c w)) \<and> snd (perform (scopedExecutor root d) c w) = w"
    if "\<not> permitted [root] c" for c and d :: "'a Destination" and w
    using that by (cases c) (auto simp: scopedExecutor_def outcomes ioCheck_def split: option.splits)
  show "is_ok (fst (perform (scopedExecutor root d) c w)) = is_ok (fst (perform d c w))
      \<and> snd (perform (scopedExecutor root d) c w) = snd (perform d c w)"
    if "permitted [root] c" for c and d :: "'a Destination" and w
    using that by (cases c) (auto simp: scopedExecutor_def outcomes split: option.splits)
qed

interpretation rpc: call_filter "rpcServer roots" "permitted roots" for roots
proof
  show "\<not> is_ok (fst (perform (rpcServer roots d) c w)) \<and> snd (perform (rpcServer roots d) c w) = w"
    if "\<not> permitted roots c" for c and d :: "'a Destination" and w
    using that by (cases c) (auto simp: rpcServer_def outcomes split: option.splits)
  show "is_ok (fst (perform (rpcServer roots d) c w)) = is_ok (fst (perform d c w))
      \<and> snd (perform (rpcServer roots d) c w) = snd (perform d c w)"
    if "permitted roots c" for c and d :: "'a Destination" and w
    using that by (cases c) (auto simp: rpcServer_def outcomes split: option.splits)
qed

definition okValue :: "'a result \<Rightarrow> 'a option" where
  "okValue r = (case r of Inl _ \<Rightarrow> None | Inr x \<Rightarrow> Some x)"

lemma okValue_simps [simp]: "okValue (Inr x) = Some x" "okValue (Inl e) = None"
  by (simp_all add: okValue_def)

lemma okValue_ioBind_ioStatus: "okValue (fst (ioBind (ioStatus code m) f w)) = okValue (fst (ioBind m f w))"
  by (auto simp: ioStatus_def ioBind_def split: prod.splits sum.splits)

lemma okValue_ioMap_ioStatus: "okValue (fst (ioMap f (ioStatus code m) w)) = okValue (fst (ioMap f m w))"
  unfolding ioMap_def by (rule okValue_ioBind_ioStatus)

lemma scopeDataset_eq: "scopeDataset s = datasetOf s"
proof -
  have "takeWhile Q (takeWhile P xs) = takeWhile (\<lambda>x. P x \<and> Q x) xs" for P Q :: "char \<Rightarrow> bool" and xs
    by (induction xs) auto
  then show ?thesis by (simp add: scopeDataset_def datasetOf_def cutBefore_def Cut_def)
qed

lemma scopeInside_iff: "scopeInside root x \<longleftrightarrow> datasetOf x = root \<or> HasPrefix (datasetOf x) (root @ ''/'')"
  by (simp add: scopeInside_def scopeDataset_eq Let_def)

lemma permitted_mutates_inside: "permitted roots c \<Longrightarrow> list_all (serverInside roots) (mutated c)"
  by (cases c) (auto simp: serverInside_def list_ex_iff)

text \<open>
  C27: Whatever sequence of calls a peer sends to the RPC server, the destination ends in the state that only the
  permitted calls of it produce, and every object a permitted call changes is one of the server's roots or below one.
\<close>

theorem rpc_calls_confined:
  "runCalls (rpcServer roots d) cs w = runCalls d (filter (permitted roots) cs) w
   \<and> list_all (\<lambda>c. list_all (\<lambda>x. \<exists>root \<in> set roots. datasetOf x = root \<or> HasPrefix (datasetOf x) (root @ ''/'')) (mutated c))
       (filter (permitted roots) cs)"
  using permitted_mutates_inside [of roots]
  by (auto simp: rpc.run_filtered list_all_iff serverInside_def list_ex_iff scopeInside_iff)

text \<open>
  C28: The SSH wrapper and an RPC server for the same root are the same destination: each call succeeds with one exactly
  when it does with the other, with the same reply and the same new state.
\<close>

theorem ssh_rpc_same_scope:
  "snd (perform (scopedExecutor root d) c w) = snd (perform (rpcServer [root] d) c w)
   \<and> okValue (fst (perform (scopedExecutor root d) c w)) = okValue (fst (perform (rpcServer [root] d) c w))"
proof
  show "snd (perform (scopedExecutor root d) c w) = snd (perform (rpcServer [root] d) c w)"
    using ssh.refuses [of root c d w] ssh.passes [of root c d w] rpc.refuses [of "[root]" c d w] rpc.passes [of "[root]" c d w]
    by metis
  show "okValue (fst (perform (scopedExecutor root d) c w)) = okValue (fst (perform (rpcServer [root] d) c w))"
    by (cases c) (auto simp: scopedExecutor_def rpcServer_def okValue_ioMap_ioStatus ioMap_def okValue_ioBind_ioStatus ioBind_assoc
        denied_def ioCheck_def split: option.splits)
qed

end
