(* ===== verification/Fair_Queue.thy ===== *)
theory Fair_Queue
  imports Zfs_State "HOL-Library.Multiset"
begin

section \<open>The fair job queue\<close>

text \<open>
  \<open>internal/daemon/queue.go\<close>: a bounded, deduplicating queue that serves its groups round-robin. Every method runs
  under the queue's mutex, so each is one atomic step of the state. The closures of a job are represented
  by whether they are set. The methods that range over the map of groups take the order
  in which the groups are visited as an argument, since Go leaves it open. An operation also returns the change
  it hands to the queue's observer, if it calls it.

  Shown: an invariant every operation keeps (the indices that Pop reads without a test exist, the counters agree with
  the contents, no two pending jobs share an ID); the snapshot lists the jobs in the order in which Pop
  hands them out; the order of visiting groups is immaterial; and a pending job is handed out within a bounded number of
  calls of Pop, whatever else is submitted meanwhile.
\<close>

subsection \<open>Definitions\<close>

record Job =
  j_ID :: string
  j_RunID :: nat
  j_Group :: string
  j_Scope :: string
  j_LockKey :: string
  j_LockScope :: string
  j_StartState :: string
  j_Run :: bool
  j_After :: bool
  j_Drop :: bool

record QueueSnapshot =
  qs_Capacity :: int
  qs_Pending :: int
  qs_IDs :: "string list"

record queueChange =
  qc_offered :: "Job option"
  qc_dropped :: "Job list"
  qc_reason :: string

record FairQueue =
  q_capacity :: int
  q_count :: int
  q_groups :: "(string, Job list) gomap"
  q_order :: "string list"
  q_ids :: "(string, bool) gomap"
  q_closed :: bool

definition NewFairQueue :: "int \<Rightarrow> FairQueue result" where
  "NewFairQueue capacity =
     (if capacity < 1 then Inl (Errorf ''queue capacity must be positive'' [])
      else Inr \<lparr>q_capacity = capacity, q_count = 0, q_groups = [], q_order = [], q_ids = [], q_closed = False\<rparr>)"

definition completeJob :: "Job \<Rightarrow> bool" where
  "completeJob job \<longleftrightarrow> j_ID job \<noteq> [] \<and> j_RunID job \<noteq> 0 \<and> j_Group job \<noteq> [] \<and> j_Scope job \<noteq> [] \<and> j_Run job"

definition queuedID :: "FairQueue \<Rightarrow> string \<Rightarrow> bool" where
  "queuedID q i \<longleftrightarrow> mget (q_ids q) i = Some True"

definition enqueue :: "Job \<Rightarrow> FairQueue \<Rightarrow> FairQueue" where
  "enqueue job q =
     (let g = j_Group job; jobs = mindex (q_groups q) g in
      q\<lparr>q_order := (if jobs = [] then q_order q @ [g] else q_order q),
        q_groups := mput g (jobs @ [job]) (q_groups q),
        q_ids := mput (j_ID job) True (q_ids q),
        q_count := q_count q + 1\<rparr>)"

definition Offer :: "Job \<Rightarrow> FairQueue \<Rightarrow> bool result \<times> FairQueue \<times> queueChange option" where
  "Offer job q =
     (if \<not> completeJob job then (Inl (Errorf ''complete queue job metadata is required'' []), q, None)
      else if q_closed q then (Inl (Errorf ''queue is closed'' []), q, None)
      else if queuedID q (j_ID job) then (Inr False, q, None)
      else if q_count q \<ge> q_capacity q
      then (Inl (Errorf ''queue capacity %d reached'' [Num (q_capacity q)]), q, None)
      else (Inr True, enqueue job q, Some \<lparr>qc_offered = Some job, qc_dropped = [], qc_reason = []\<rparr>))"

text \<open>One turn of Pop's loop. \<open>Waits\<close> is the select on the notification; \<open>IndexPanic\<close> is indexing an empty slice.\<close>

datatype popResult = Popped Job | Drained | Waits | IndexPanic

definition Pop :: "FairQueue \<Rightarrow> popResult \<times> FairQueue \<times> queueChange option" where
  "Pop q =
     (if q_count q > 0 then
        (case q_order q of
           [] \<Rightarrow> (IndexPanic, q, None)
         | g # order \<Rightarrow>
             (case mindex (q_groups q) g of
                [] \<Rightarrow> (IndexPanic, q, None)
              | job # jobs \<Rightarrow>
                  (Popped job,
                   q\<lparr>q_groups := (if jobs = [] then mdel g (q_groups q) else mput g jobs (q_groups q)),
                     q_order := (if jobs = [] then order else order @ [g]),
                     q_ids := mdel (j_ID job) (q_ids q),
                     q_count := q_count q - 1\<rparr>,
                   Some \<lparr>qc_offered = None, qc_dropped = [], qc_reason = []\<rparr>)))
      else if q_closed q then (Drained, q, None)
      else (Waits, q, None))"

text \<open>\<open>RemoveScope\<close> visits the groups in the given order.\<close>

definition removeFromGroup :: "string \<Rightarrow> string \<Rightarrow> FairQueue \<times> Job list \<Rightarrow> FairQueue \<times> Job list" where
  "removeFromGroup scope g acc =
     (let (q, dropped) = acc;
          jobs = mindex (q_groups q) g;
          gone = filter (\<lambda>job. j_Scope job = scope) jobs;
          kept = filter (\<lambda>job. j_Scope job \<noteq> scope) jobs in
      (q\<lparr>q_groups := (if kept = [] then mdel g (q_groups q) else mput g kept (q_groups q)),
         q_order := (if kept = [] then filter (\<lambda>candidate. candidate \<noteq> g) (q_order q) else q_order q),
         q_ids := fold (\<lambda>job. mdel (j_ID job)) gone (q_ids q),
         q_count := q_count q - int (length gone)\<rparr>,
       dropped @ gone))"

definition RemoveScope :: "string list \<Rightarrow> string \<Rightarrow> string \<Rightarrow> FairQueue \<Rightarrow> int \<times> FairQueue \<times> queueChange option" where
  "RemoveScope visit scope reason q =
     (let (q', dropped) = fold (removeFromGroup scope) visit (q, []) in
      (int (length dropped), q',
       if dropped = [] then None else Some \<lparr>qc_offered = None, qc_dropped = dropped, qc_reason = reason\<rparr>))"

definition DiscardAll :: "string list \<Rightarrow> string \<Rightarrow> FairQueue \<Rightarrow> int \<times> FairQueue \<times> queueChange option" where
  "DiscardAll visit reason q =
     (let dropped = concat (map (mindex (q_groups q)) visit) in
      (int (length dropped),
       q\<lparr>q_groups := [], q_order := [], q_ids := [], q_count := 0\<rparr>,
       if dropped = [] then None else Some \<lparr>qc_offered = None, qc_dropped = dropped, qc_reason = reason\<rparr>))"

definition Close :: "FairQueue \<Rightarrow> FairQueue" where
  "Close q = q\<lparr>q_closed := True\<rparr>"

text \<open>The loop of \<open>snapshotLocked\<close>; an empty group would make it panic.\<close>

lemma sum_list_shrinks:
  "x < f g \<Longrightarrow> sum_list (map (\<lambda>h. if h = g then x else f h) gs) \<le> sum_list (map f gs)" for f :: "string \<Rightarrow> nat"
  by (induction gs) auto

function roundRobin :: "(string, Job list) gomap \<Rightarrow> string list \<Rightarrow> string list option" where
  "roundRobin groups [] = Some []"
| "roundRobin groups (g # order) =
     (case mindex groups g of
        [] \<Rightarrow> None
      | [job] \<Rightarrow> map_option (Cons (j_ID job)) (roundRobin groups order)
      | job # jobs \<Rightarrow> map_option (Cons (j_ID job)) (roundRobin (mput g jobs groups) (order @ [g])))"
  by pat_completeness auto

termination
proof (relation "measure (\<lambda>(groups, order). sum_list (map (\<lambda>g. Suc (length (mindex groups g))) order))", goal_cases)
  case (3 groups g order job js j jobs)
  then show ?case
    using sum_list_shrinks [of "Suc (length js)" "\<lambda>g. Suc (length (mindex groups g))" g order]
    by (simp add: if_distrib cong: if_cong)
qed auto

definition snapshotLocked :: "FairQueue \<Rightarrow> QueueSnapshot option" where
  "snapshotLocked q =
     map_option (\<lambda>ids. \<lparr>qs_Capacity = q_capacity q, qs_Pending = q_count q, qs_IDs = ids\<rparr>)
       (roundRobin (q_groups q) (q_order q))"

subsection \<open>The invariant\<close>

definition pending :: "FairQueue \<Rightarrow> Job list" where
  "pending q = concat (map (mindex (q_groups q)) (q_order q))"

definition qwf :: "FairQueue \<Rightarrow> bool" where
  "qwf q \<longleftrightarrow>
     mwf (q_groups q) \<and> mwf (q_ids q) \<and> distinct (q_order q) \<and> set (q_order q) = set (mkeys (q_groups q))
     \<and> (\<forall>g \<in> set (q_order q). mindex (q_groups q) g \<noteq> [] \<and> (\<forall>job \<in> set (mindex (q_groups q) g). j_Group job = g \<and> completeJob job))
     \<and> distinct (map j_ID (pending q))
     \<and> (\<forall>i. queuedID q i \<longleftrightarrow> i \<in> j_ID ` set (pending q))
     \<and> q_count q = int (length (pending q)) \<and> q_count q \<le> q_capacity q"

lemma mdel_keys: "set (mkeys (mdel k m)) = set (mkeys m) - {k}"
  by (auto simp: mkeys_def mdel_def)

lemma map_if_other [simp]: "g \<notin> set xs \<Longrightarrow> map (\<lambda>h. if h = g then v else f h) xs = map f xs"
  by (induction xs) auto

lemma mset_concat_update:
  "distinct order \<Longrightarrow> g \<in> set order \<Longrightarrow>
     mset (concat (map (\<lambda>h. if h = g then v else f h) order)) + mset (f g) = mset (concat (map f order)) + mset v"
proof (induction order)
  case (Cons h order)
  then show ?case by (cases "h = g") (simp_all add: ac_simps)
qed simp

lemma qwf_order_iff: "qwf q \<Longrightarrow> g \<in> set (q_order q) \<longleftrightarrow> mindex (q_groups q) g \<noteq> []"
  using mindex_absent by (fastforce simp: qwf_def)

lemma mset_jobs:
  assumes "mset xs = mset ys"
  shows "length xs = length ys" and "set xs = set ys" and "distinct (map j_ID xs) = distinct (map j_ID ys)"
proof -
  show "length xs = length ys" using assms by (metis size_mset)
  show "set xs = set ys" using assms by (metis set_mset_mset)
  show "distinct (map j_ID xs) = distinct (map j_ID ys)"
    using assms by (intro mset_eq_imp_distinct_iff) simp
qed

lemma pending_enqueue:
  assumes "qwf q"
  shows "mset (pending (enqueue job q)) = mset (pending q @ [job])"
proof (cases "mindex (q_groups q) (j_Group job) = []")
  case True
  with assms have "j_Group job \<notin> set (q_order q)" by (simp add: qwf_order_iff)
  with True show ?thesis by (simp add: pending_def enqueue_def Let_def map_if_other)
next
  case False
  with assms have "j_Group job \<in> set (q_order q)" "distinct (q_order q)" by (simp_all add: qwf_order_iff) (simp add: qwf_def)
  from mset_concat_update [OF this(2,1), of "mindex (q_groups q) (j_Group job) @ [job]" "mindex (q_groups q)"] False
  show ?thesis by (simp add: pending_def enqueue_def Let_def)
qed

lemma qwf_enqueue:
  assumes wf: "qwf q" and job: "completeJob job" and new: "\<not> queuedID q (j_ID job)" and room: "q_count q < q_capacity q"
  shows "qwf (enqueue job q)"
proof -
  note P = mset_jobs [OF pending_enqueue [OF wf, of job]]
  let ?g = "j_Group job"
  have wf': "distinct (map j_ID (pending q))" "\<And>i. queuedID q i \<longleftrightarrow> i \<in> j_ID ` set (pending q)"
    "q_count q = int (length (pending q))"
    using wf by (simp_all add: qwf_def)
  have "distinct (map j_ID (pending (enqueue job q)))"
    using wf' new P(3) by (simp add: image_iff)
  moreover have "queuedID (enqueue job q) i \<longleftrightarrow> i \<in> j_ID ` set (pending (enqueue job q))" for i
  proof -
    have "queuedID (enqueue job q) i \<longleftrightarrow> i = j_ID job \<or> queuedID q i"
      by (simp add: queuedID_def enqueue_def Let_def)
    then show ?thesis using P(2) wf'(2) [of i] by simp
  qed
  moreover have "distinct (q_order (enqueue job q))" "set (q_order (enqueue job q)) = set (mkeys (q_groups (enqueue job q)))"
    using wf qwf_order_iff [OF wf, of ?g] by (auto simp: enqueue_def Let_def qwf_def mput_keys)
  moreover have "\<forall>g \<in> set (q_order (enqueue job q)). mindex (q_groups (enqueue job q)) g \<noteq> []
      \<and> (\<forall>j \<in> set (mindex (q_groups (enqueue job q)) g). j_Group j = g \<and> completeJob j)"
    using wf job qwf_order_iff [OF wf, of ?g] by (auto simp: enqueue_def Let_def qwf_def)
  moreover have "q_count (enqueue job q) = int (length (pending (enqueue job q)))" "q_count (enqueue job q) \<le> q_capacity (enqueue job q)"
    using P(1) wf' room by (simp_all add: enqueue_def Let_def)
  moreover have "mwf (q_groups (enqueue job q))" "mwf (q_ids (enqueue job q))"
    using wf by (auto simp: enqueue_def Let_def qwf_def)
  ultimately show ?thesis by (simp add: qwf_def)
qed

lemma qwf_Offer: "qwf q \<Longrightarrow> qwf (fst (snd (Offer job q)))"
  by (simp add: Offer_def qwf_enqueue)

lemma qwf_New: "NewFairQueue c = Inr q \<Longrightarrow> qwf q"
  by (auto simp: NewFairQueue_def qwf_def pending_def queuedID_def mkeys_def split: if_splits)

lemma qwf_Close: "qwf q \<Longrightarrow> qwf (Close q)"
  by (simp add: qwf_def Close_def pending_def queuedID_def)

lemma qwf_hd:
  assumes "qwf q" "q_count q > 0"
  obtains g order job jobs where "q_order q = g # order" "g \<notin> set order" "mindex (q_groups q) g = job # jobs"
    "pending q = job # jobs @ concat (map (mindex (q_groups q)) order)"
proof -
  from assms have "pending q \<noteq> []" by (auto simp: qwf_def)
  then obtain g order where o: "q_order q = g # order" by (cases "q_order q") (auto simp: pending_def)
  with assms obtain job jobs where "mindex (q_groups q) g = job # jobs"
    by (cases "mindex (q_groups q) g") (auto simp: qwf_def)
  with o assms that show ?thesis by (simp add: pending_def qwf_def)
qed

lemma Pop_progress:
  assumes wf: "qwf q" and pos: "q_count q > 0"
  obtains job q' c where "Pop q = (Popped job, q', c)" "qwf q'" "mset (pending q) = mset (job # pending q')"
proof -
  from qwf_hd [OF wf pos] obtain g order job jobs where
    o: "q_order q = g # order" "g \<notin> set order" and m: "mindex (q_groups q) g = job # jobs"
    and p: "pending q = job # jobs @ concat (map (mindex (q_groups q)) order)" .
  define q' where "q' = q\<lparr>q_groups := (if jobs = [] then mdel g (q_groups q) else mput g jobs (q_groups q)),
      q_order := (if jobs = [] then order else order @ [g]), q_ids := mdel (j_ID job) (q_ids q), q_count := q_count q - 1\<rparr>"
  have pop: "Pop q = (Popped job, q', Some \<lparr>qc_offered = None, qc_dropped = [], qc_reason = []\<rparr>)"
    using pos by (simp add: Pop_def o m q'_def)
  have p': "pending q' = concat (map (mindex (q_groups q)) order) @ jobs"
    using o by (simp add: pending_def q'_def)
  have ids: "queuedID q' i \<longleftrightarrow> i \<noteq> j_ID job \<and> queuedID q i" for i
    by (simp add: queuedID_def q'_def)
  have perm: "mset (pending q) = mset (job # pending q')" by (simp add: p p')
  have "qwf q'"
    unfolding qwf_def
  proof (intro conjI allI)
    show "mwf (q_groups q')" "mwf (q_ids q')" using wf by (auto simp: q'_def qwf_def)
    show "distinct (q_order q')" using wf o by (simp add: q'_def qwf_def)
    have keys: "set (mkeys (q_groups q)) = insert g (set order)" using wf o by (simp add: qwf_def)
    then show "set (q_order q') = set (mkeys (q_groups q'))"
      using o by (auto simp: q'_def mdel_keys mput_keys)
    show "\<forall>h \<in> set (q_order q'). mindex (q_groups q') h \<noteq> []
        \<and> (\<forall>j \<in> set (mindex (q_groups q') h). j_Group j = h \<and> completeJob j)"
      using wf o m by (auto simp: q'_def qwf_def)
    show "distinct (map j_ID (pending q'))"
      using mset_jobs(3) [OF perm] wf by (simp add: qwf_def)
    show "queuedID q' i \<longleftrightarrow> i \<in> j_ID ` set (pending q')" for i
      using mset_jobs(2,3) [OF perm] wf ids [of i] by (auto simp: qwf_def)
    show "q_count q' = int (length (pending q'))" "q_count q' \<le> q_capacity q'"
      using mset_jobs(1) [OF perm] wf by (simp_all add: q'_def qwf_def)
  qed
  with pop perm that show thesis by blast
qed

lemma Pop_idle: "q_count q \<le> 0 \<Longrightarrow> Pop q = (if q_closed q then Drained else Waits, q, None)"
  by (simp add: Pop_def)

lemma qwf_Pop:
  assumes "qwf q"
  shows "qwf (fst (snd (Pop q)))"
proof (cases "q_count q > 0")
  case True
  show ?thesis by (rule Pop_progress [OF assms True]) simp
next
  case False
  with assms show ?thesis by (simp add: Pop_idle)
qed

subsection \<open>Removing a scope\<close>

lemma mget_fold_mdel: "mget (fold (\<lambda>x. mdel (f x)) xs m) k = (if k \<in> f ` set xs then None else mget m k)"
  by (induction xs arbitrary: m) auto

lemma mwf_fold_mdel: "mwf m \<Longrightarrow> mwf (fold (\<lambda>x. mdel (f x)) xs m)"
  by (induction xs arbitrary: m) auto

definition goneOf :: "string \<Rightarrow> FairQueue \<Rightarrow> string \<Rightarrow> Job list" where
  "goneOf scope q g = filter (\<lambda>job. j_Scope job = scope) (mindex (q_groups q) g)"

definition keptOf :: "string \<Rightarrow> FairQueue \<Rightarrow> string \<Rightarrow> Job list" where
  "keptOf scope q g = filter (\<lambda>job. j_Scope job \<noteq> scope) (mindex (q_groups q) g)"

definition removal :: "string \<Rightarrow> string list \<Rightarrow> FairQueue \<Rightarrow> FairQueue \<Rightarrow> bool" where
  "removal scope visit q q' \<longleftrightarrow>
     mindex (q_groups q') = (\<lambda>g. if g \<in> set visit then keptOf scope q g else mindex (q_groups q) g)
     \<and> q_order q' = filter (\<lambda>g. g \<in> set visit \<longrightarrow> keptOf scope q g \<noteq> []) (q_order q)
     \<and> set (mkeys (q_groups q')) = {g \<in> set (mkeys (q_groups q)) \<union> set visit. g \<in> set visit \<longrightarrow> keptOf scope q g \<noteq> []}
     \<and> mget (q_ids q') = (\<lambda>i. if i \<in> j_ID ` set (concat (map (goneOf scope q) visit)) then None else mget (q_ids q) i)
     \<and> q_count q' = q_count q - int (length (concat (map (goneOf scope q) visit)))
     \<and> q_capacity q' = q_capacity q \<and> q_closed q' = q_closed q
     \<and> (mwf (q_groups q) \<longrightarrow> mwf (q_groups q')) \<and> (mwf (q_ids q) \<longrightarrow> mwf (q_ids q'))"

lemma removal_one: "removeFromGroup scope g (q, d) = (q1, d1) \<Longrightarrow> d1 = d @ goneOf scope q g \<and> removal scope [g] q q1"
  by (auto simp: removal_def removeFromGroup_def Let_def keptOf_def goneOf_def fun_eq_iff mget_fold_mdel mdel_keys mput_keys
      mwf_fold_mdel split: if_splits)

lemma removal_Cons:
  assumes one: "removal scope [g] q q1" and rest: "removal scope visit q1 q'" and new: "g \<notin> set visit"
  shows "removal scope (g # visit) q q'" and "map (goneOf scope q1) visit = map (goneOf scope q) visit"
proof -
  have same: "goneOf scope q1 h = goneOf scope q h" "keptOf scope q1 h = keptOf scope q h" if "h \<in> set visit" for h
    using that new one by (auto simp: goneOf_def keptOf_def removal_def)
  then show eq: "map (goneOf scope q1) visit = map (goneOf scope q) visit" by simp
  note o = one [unfolded removal_def] and r = rest [unfolded removal_def eq]
  show "removal scope (g # visit) q q'"
    unfolding removal_def
  proof (intro conjI)
    show "mindex (q_groups q') = (\<lambda>h. if h \<in> set (g # visit) then keptOf scope q h else mindex (q_groups q) h)"
      using o r new same by (simp add: fun_eq_iff)
    show "q_order q' = filter (\<lambda>h. h \<in> set (g # visit) \<longrightarrow> keptOf scope q h \<noteq> []) (q_order q)"
      using o r new same by (auto intro!: filter_cong)
    show "set (mkeys (q_groups q')) = {h \<in> set (mkeys (q_groups q)) \<union> set (g # visit). h \<in> set (g # visit) \<longrightarrow> keptOf scope q h \<noteq> []}"
      using o r new same by auto
    show "mget (q_ids q') = (\<lambda>i. if i \<in> j_ID ` set (concat (map (goneOf scope q) (g # visit))) then None else mget (q_ids q) i)"
      using o r by (simp add: fun_eq_iff image_Un)
    show "q_count q' = q_count q - int (length (concat (map (goneOf scope q) (g # visit))))"
      using o r by simp
    show "q_capacity q' = q_capacity q" "q_closed q' = q_closed q"
      "mwf (q_groups q) \<longrightarrow> mwf (q_groups q')" "mwf (q_ids q) \<longrightarrow> mwf (q_ids q')"
      using o r by simp_all
  qed
qed

lemma removeFold:
  "distinct visit \<Longrightarrow> fold (removeFromGroup scope) visit (q, d) = (q', d') \<Longrightarrow>
     d' = d @ concat (map (goneOf scope q) visit) \<and> removal scope visit q q'"
proof (induction visit arbitrary: q d)
  case Nil
  then show ?case by (simp add: removal_def)
next
  case (Cons g visit)
  obtain q1 d1 where s: "removeFromGroup scope g (q, d) = (q1, d1)" by fastforce
  from Cons.IH [of q1 d1] Cons.prems s have IH: "d' = d1 @ concat (map (goneOf scope q1) visit)" "removal scope visit q1 q'"
    by simp_all
  from removal_one [OF s] have one: "d1 = d @ goneOf scope q g" "removal scope [g] q q1" by simp_all
  from removal_Cons [OF one(2) IH(2)] Cons.prems(1) IH(1) one(1) show ?case by (simp cong: map_cong)
qed

lemma concat_kept: "concat (map (keptOf scope q) (filter (\<lambda>g. keptOf scope q g \<noteq> []) gs))
    = filter (\<lambda>job. j_Scope job \<noteq> scope) (concat (map (mindex (q_groups q)) gs))"
  by (induction gs) (auto simp: keptOf_def)

lemma concat_gone: "concat (map (goneOf scope q) gs) = filter (\<lambda>job. j_Scope job = scope) (concat (map (mindex (q_groups q)) gs))"
  by (induction gs) (auto simp: goneOf_def)

text \<open>A visit of every group once.\<close>

abbreviation visits :: "string list \<Rightarrow> FairQueue \<Rightarrow> bool" where
  "visits visit q \<equiv> distinct visit \<and> set visit = set (mkeys (q_groups q))"

lemma mset_concat_perm: "distinct xs \<Longrightarrow> distinct ys \<Longrightarrow> set xs = set ys \<Longrightarrow> mset (concat (map f xs)) = mset (concat (map f ys))"
proof -
  assume "distinct xs" "distinct ys" "set xs = set ys"
  then have "mset xs = mset ys" by (simp add: set_eq_iff_mset_eq_distinct)
  then have "mset (map (mset \<circ> f) xs) = mset (map (mset \<circ> f) ys)" by simp
  then show ?thesis by (metis (no_types, lifting) map_map mset_concat sum_mset_sum_list)
qed

lemma RemoveScope_spec:
  assumes wf: "qwf q" and v: "visits visit q"
  obtains q' gone where
    "RemoveScope visit scope reason q =
       (int (length gone), q', if gone = [] then None else Some \<lparr>qc_offered = None, qc_dropped = gone, qc_reason = reason\<rparr>)"
    "removal scope visit q q'" "gone = filter (\<lambda>job. j_Scope job = scope) (concat (map (mindex (q_groups q)) visit))"
    "mset gone = mset (filter (\<lambda>job. j_Scope job = scope) (pending q))"
    "pending q' = filter (\<lambda>job. j_Scope job \<noteq> scope) (pending q)" "qwf q'"
proof -
  obtain q' gone where f: "fold (removeFromGroup scope) visit (q, []) = (q', gone)" by fastforce
  from removeFold [OF conjunct1 [OF v] f] have g: "gone = concat (map (goneOf scope q) visit)" and r: "removal scope visit q q'"
    by simp_all
  have ord: "set (q_order q) = set visit" "distinct (q_order q)" using wf v by (simp_all add: qwf_def)
  have p: "mset (concat (map (mindex (q_groups q)) visit)) = mset (pending q)"
    unfolding pending_def using v ord by (intro mset_concat_perm) simp_all
  have order': "q_order q' = filter (\<lambda>g. keptOf scope q g \<noteq> []) (q_order q)"
    using r ord by (auto simp: removal_def intro: filter_cong)
  have "map (mindex (q_groups q')) (q_order q') = map (keptOf scope q) (q_order q')"
    using r ord order' by (auto simp: removal_def)
  then have pending': "pending q' = filter (\<lambda>job. j_Scope job \<noteq> scope) (pending q)"
    by (simp only: pending_def order' concat_kept)
  have gone: "gone = filter (\<lambda>job. j_Scope job = scope) (concat (map (mindex (q_groups q)) visit))"
    by (simp add: g concat_gone)
  have mgone: "mset gone = mset (filter (\<lambda>job. j_Scope job = scope) (pending q))"
    unfolding gone using p by (metis mset_filter)
  have sgone: "set gone = {job \<in> set (pending q). j_Scope job = scope}"
    using mset_jobs(2) [OF mgone] by auto
  have ids: "queuedID q' i \<longleftrightarrow> queuedID q i \<and> i \<notin> j_ID ` set gone" for i
    using r by (simp add: queuedID_def removal_def g)
  have "set (pending q') = set (pending q) - set gone" "inj_on j_ID (set (pending q))"
    using wf sgone pending' by (auto simp: qwf_def distinct_map)
  then have left: "j_ID ` set (pending q') = j_ID ` set (pending q) - j_ID ` set gone"
    using inj_on_image_set_diff [of j_ID "set (pending q)" "set (pending q)" "set gone"] sgone by auto
  have "qwf q'"
    unfolding qwf_def
  proof (intro conjI allI)
    show "mwf (q_groups q')" "mwf (q_ids q')" using r wf by (simp_all add: removal_def qwf_def)
    show "distinct (q_order q')" using ord order' by simp
    show "set (q_order q') = set (mkeys (q_groups q'))"
      using r ord v order' by (auto simp: removal_def)
    show "\<forall>g \<in> set (q_order q'). mindex (q_groups q') g \<noteq> []
        \<and> (\<forall>j \<in> set (mindex (q_groups q') g). j_Group j = g \<and> completeJob j)"
      using r ord order' wf by (auto simp: removal_def qwf_def keptOf_def)
    show "distinct (map j_ID (pending q'))"
      using wf pending' by (simp add: qwf_def distinct_map_filter)
    show "queuedID q' i \<longleftrightarrow> i \<in> j_ID ` set (pending q')" for i
      using wf ids [of i] left by (simp add: qwf_def)
    have "length (pending q) = length (filter (\<lambda>job. j_Scope job = scope) (pending q)) + length (pending q')"
      using sum_length_filter_compl [of "\<lambda>job. j_Scope job = scope" "pending q"] pending' by simp
    with mset_jobs(1) [OF mgone] r g wf
    show "q_count q' = int (length (pending q'))" "q_count q' \<le> q_capacity q'"
      by (simp_all add: removal_def qwf_def)
  qed
  moreover have "RemoveScope visit scope reason q =
       (int (length gone), q', if gone = [] then None else Some \<lparr>qc_offered = None, qc_dropped = gone, qc_reason = reason\<rparr>)"
    by (simp add: RemoveScope_def f)
  ultimately show thesis using that r gone mgone pending' by blast
qed

lemma RemoveScope_state:
  assumes "qwf q" "visits visit q"
  shows "qwf (fst (snd (RemoveScope visit scope reason q)))"
    and "removal scope visit q (fst (snd (RemoveScope visit scope reason q)))"
    and "pending (fst (snd (RemoveScope visit scope reason q))) = filter (\<lambda>job. j_Scope job \<noteq> scope) (pending q)"
  by (rule RemoveScope_spec [OF assms, of scope reason]; simp)+

lemma qwf_DiscardAll: "qwf q \<Longrightarrow> qwf (fst (snd (DiscardAll visit reason q)))"
  by (auto simp: DiscardAll_def qwf_def pending_def queuedID_def mkeys_def Let_def)

subsection \<open>Runs of the queue\<close>

text \<open>Any interleaving of calls, each atomic under the mutex; a label says which call was made.\<close>

datatype qlabel = Offered Job | PopCall popResult | Removed string | Discarded | ClosedQ

inductive qstep :: "FairQueue \<Rightarrow> qlabel \<Rightarrow> FairQueue \<Rightarrow> bool" where
  offer: "qstep q (Offered job) (fst (snd (Offer job q)))"
| pop: "qstep q (PopCall (fst (Pop q))) (fst (snd (Pop q)))"
| remove: "visits visit q \<Longrightarrow> qstep q (Removed scope) (fst (snd (RemoveScope visit scope reason q)))"
| discard: "visits visit q \<Longrightarrow> qstep q Discarded (fst (snd (DiscardAll visit reason q)))"
| close: "qstep q ClosedQ (Close q)"

inductive_cases qstep_offerE: "qstep q (Offered job) q'"
inductive_cases qstep_popE: "qstep q (PopCall r) q'"
inductive_cases qstep_removeE: "qstep q (Removed scope) q'"
inductive_cases qstep_closeE: "qstep q ClosedQ q'"

inductive qrun :: "FairQueue \<Rightarrow> qlabel list \<Rightarrow> FairQueue \<Rightarrow> bool" where
  nil: "qrun q [] q"
| cons: "qstep q l q1 \<Longrightarrow> qrun q1 ls q' \<Longrightarrow> qrun q (l # ls) q'"

lemma qwf_step: "qstep q l q' \<Longrightarrow> qwf q \<Longrightarrow> qwf q'"
proof (induction rule: qstep.induct)
  case (remove visit q scope reason)
  show ?case by (rule RemoveScope_state(1)) (use remove in simp_all)
qed (simp_all add: qwf_Offer qwf_Pop qwf_DiscardAll qwf_Close)

lemma qwf_run: "qrun q ls q' \<Longrightarrow> qwf q \<Longrightarrow> qwf q'"
  by (induction rule: qrun.induct) (auto intro: qwf_step)

lemma removal_capacity: "removal scope visit q q' \<Longrightarrow> q_capacity q' = q_capacity q"
  unfolding removal_def by (elim conjE)

lemma op_capacity [simp]:
  "q_capacity (fst (snd (Offer job q))) = q_capacity q" "q_capacity (fst (snd (Pop q))) = q_capacity q"
  "q_capacity (fst (snd (DiscardAll visit reason q))) = q_capacity q" "q_capacity (Close q) = q_capacity q"
  by (simp_all add: Offer_def enqueue_def Let_def Pop_def DiscardAll_def Close_def split: list.split)

lemma capacity_step: "qstep q l q' \<Longrightarrow> qwf q \<Longrightarrow> q_capacity q' = q_capacity q"
proof (induction rule: qstep.induct)
  case (remove visit q scope reason)
  show ?case by (rule removal_capacity, rule RemoveScope_state(2)) (use remove in simp_all)
qed simp_all

lemma capacity_run: "qrun q ls q' \<Longrightarrow> qwf q \<Longrightarrow> q_capacity q' = q_capacity q"
  by (induction rule: qrun.induct) (auto simp: capacity_step qwf_step)

subsection \<open>The snapshot is the order of service\<close>

fun drain :: "nat \<Rightarrow> FairQueue \<Rightarrow> Job list" where
  "drain 0 q = []"
| "drain (Suc n) q = (case Pop q of (Popped job, q', _) \<Rightarrow> job # drain n q' | _ \<Rightarrow> [])"

lemma roundRobin_cong: "mindex groups = mindex groups' \<Longrightarrow> roundRobin groups order = roundRobin groups' order"
proof (induction groups order arbitrary: groups' rule: roundRobin.induct)
  case (2 groups g order)
  note eq = "2.prems"
  show ?case
  proof (cases "mindex groups g" rule: list.exhaust [case_names nil cons])
    case nil
    with eq show ?thesis by simp
  next
    case (cons job jobs)
    show ?thesis
    proof (cases jobs)
      case Nil
      from cons Nil have "roundRobin groups order = roundRobin groups' order" by (intro "2.IH"(1) eq)
      with cons Nil eq show ?thesis by simp
    next
      case (Cons j js)
      have "mindex (mput g (j # js) groups) = mindex (mput g (j # js) groups')" by (simp only: mindex_mput eq)
      with cons Cons have "roundRobin (mput g (j # js) groups) (order @ [g]) = roundRobin (mput g (j # js) groups') (order @ [g])"
        by (intro "2.IH"(2))
      with cons Cons eq show ?thesis by simp
    qed
  qed
qed simp

lemma roundRobin_other: "g \<notin> set order \<Longrightarrow> roundRobin (mdel g groups) order = roundRobin groups order"
proof (induction groups order rule: roundRobin.induct)
  case (2 groups h order)
  have swap: "roundRobin (mput h jobs (mdel g groups)) os = roundRobin (mdel g (mput h jobs groups)) os" for jobs os
    using "2.prems" by (intro roundRobin_cong) (auto simp: fun_eq_iff)
  from 2 show ?case by (auto simp: swap split: list.splits)
qed simp

lemma snapshot_is_drain:
  "qwf q \<Longrightarrow> length (pending q) = n \<Longrightarrow> roundRobin (q_groups q) (q_order q) = Some (map j_ID (drain n q))"
proof (induction n arbitrary: q)
  case 0
  then have "q_order q = []"
    by (cases "q_order q") (auto simp: pending_def qwf_def)
  then show ?case by simp
next
  case (Suc n)
  then have pos: "q_count q > 0" by (simp add: qwf_def)
  from qwf_hd [OF Suc.prems(1) pos] obtain g order job jobs where
    o: "q_order q = g # order" "g \<notin> set order" and m: "mindex (q_groups q) g = job # jobs"
    and p: "pending q = job # jobs @ concat (map (mindex (q_groups q)) order)" .
  from Pop_progress [OF Suc.prems(1) pos] obtain job' q' c where
    pop: "Pop q = (Popped job', q', c)" "qwf q'" "mset (pending q) = mset (job' # pending q')" .
  have j: "job' = job" and q': "q_groups q' = (if jobs = [] then mdel g (q_groups q) else mput g jobs (q_groups q))"
      "q_order q' = (if jobs = [] then order else order @ [g])"
    using pop(1) pos o m by (auto simp: Pop_def split: if_splits)
  have "length (pending q') = n" using mset_jobs(1) [OF pop(3)] Suc.prems(2) by simp
  from Suc.IH [OF pop(2) this] have IH: "roundRobin (q_groups q') (q_order q') = Some (map j_ID (drain n q'))" .
  show ?case
    using IH o m j q' pop(1) roundRobin_other [OF o(2), of "q_groups q"] by (cases jobs) simp_all
qed
subsection \<open>Bounded waiting\<close>

definition pos :: "'a \<Rightarrow> 'a list \<Rightarrow> nat" where
  "pos x xs = length (takeWhile (\<lambda>y. y \<noteq> x) xs)"

lemma pos_append: "x \<in> set xs \<Longrightarrow> pos x (xs @ ys) = pos x xs"
  by (auto simp: pos_def)

lemma pos_Cons: "pos x (y # ys) = (if x = y then 0 else Suc (pos x ys))"
  by (auto simp: pos_def)

lemma pos_less: "x \<in> set xs \<Longrightarrow> pos x xs < length xs"
  by (induction xs) (auto simp: pos_Cons)

lemma pos_filter: "P x \<Longrightarrow> pos x (filter P xs) \<le> pos x xs"
  by (induction xs) (auto simp: pos_Cons)

text \<open>How many jobs may still be handed out before this one.\<close>

definition rank :: "Job \<Rightarrow> FairQueue \<Rightarrow> nat" where
  "rank job q = pos job (mindex (q_groups q) (j_Group job)) * nat (q_capacity q) + pos (j_Group job) (q_order q)"

lemma pending_group:
  assumes "qwf q" "job \<in> set (pending q)"
  shows "job \<in> set (mindex (q_groups q) (j_Group job))" "j_Group job \<in> set (q_order q)"
proof -
  from assms obtain g where g: "g \<in> set (q_order q)" "job \<in> set (mindex (q_groups q) g)" by (auto simp: pending_def)
  with assms have "j_Group job = g" by (auto simp: qwf_def)
  with g show "job \<in> set (mindex (q_groups q) (j_Group job))" "j_Group job \<in> set (q_order q)" by simp_all
qed

lemma length_order: "qwf q \<Longrightarrow> length (q_order q) \<le> length (pending q)"
proof -
  have "\<forall>g \<in> set gs. f g \<noteq> [] \<Longrightarrow> length gs \<le> length (concat (map f gs))" for gs :: "string list" and f :: "string \<Rightarrow> Job list"
  proof (induction gs)
    case (Cons g gs)
    then show ?case by (cases "f g") auto
  qed simp
  then show "qwf q \<Longrightarrow> ?thesis" by (simp add: qwf_def pending_def)
qed

lemma pending_capacity:
  assumes "qwf q"
  shows "length (pending q) \<le> nat (q_capacity q)"
proof -
  from assms have "int (length (pending q)) \<le> q_capacity q" by (simp add: qwf_def)
  then show ?thesis by arith
qed

lemma order_capacity: "qwf q \<Longrightarrow> length (q_order q) \<le> nat (q_capacity q)"
  using length_order [of q] pending_capacity [of q] by simp

lemma group_length:
  assumes "qwf q" "g \<in> set (q_order q)"
  shows "length (mindex (q_groups q) g) \<le> nat (q_capacity q)"
proof -
  have "g \<in> set gs \<Longrightarrow> length (f g) \<le> length (concat (map f gs))" for gs :: "string list" and f :: "string \<Rightarrow> Job list"
    by (induction gs) auto
  from this [OF assms(2), of "mindex (q_groups q)"] pending_capacity [OF assms(1)] show ?thesis
    unfolding pending_def by linarith
qed

lemma rank_bound:
  assumes "qwf q" "job \<in> set (pending q)"
  shows "rank job q < nat (q_capacity q) * nat (q_capacity q)"
proof -
  note g = pending_group [OF assms]
  have "Suc (pos job (mindex (q_groups q) (j_Group job))) \<le> nat (q_capacity q)"
    using pos_less [OF g(1)] group_length [OF assms(1) g(2)] by simp
  then have "Suc (pos job (mindex (q_groups q) (j_Group job))) * nat (q_capacity q) \<le> nat (q_capacity q) * nat (q_capacity q)"
    by (rule mult_le_mono1)
  moreover have "pos (j_Group job) (q_order q) < nat (q_capacity q)"
    using pos_less [OF g(2)] order_capacity [OF assms(1)] by simp
  ultimately show ?thesis unfolding rank_def by simp
qed

lemma rank_offer:
  assumes "qwf q" "job \<in> set (pending q)"
  shows "rank job (fst (snd (Offer new q))) = rank job q" and "job \<in> set (pending (fst (snd (Offer new q))))"
proof -
  note g = pending_group [OF assms]
  show "rank job (fst (snd (Offer new q))) = rank job q"
    using g by (auto simp: Offer_def rank_def enqueue_def Let_def pos_append)
  show "job \<in> set (pending (fst (snd (Offer new q))))"
    using assms mset_jobs(2) [OF pending_enqueue [OF assms(1), of new]] by (simp add: Offer_def)
qed

lemma rank_pop:
  assumes wf: "qwf q" and job: "job \<in> set (pending q)"
  shows "fst (Pop q) = Popped job \<or> (job \<in> set (pending (fst (snd (Pop q)))) \<and> rank job (fst (snd (Pop q))) < rank job q)"
proof -
  note g = pending_group [OF wf job]
  from wf job have p: "q_count q > 0" by (auto simp: qwf_def)
  from qwf_hd [OF wf p] obtain h order j js where
    o: "q_order q = h # order" "h \<notin> set order" and m: "mindex (q_groups q) h = j # js" .
  from Pop_progress [OF wf p] obtain j' q' c where
    pop: "Pop q = (Popped j', q', c)" "qwf q'" "mset (pending q) = mset (j' # pending q')" .
  have j: "j' = j" and q': "q_groups q' = (if js = [] then mdel h (q_groups q) else mput h js (q_groups q))"
      "q_order q' = (if js = [] then order else order @ [h])" "q_capacity q' = q_capacity q"
    using pop(1) p o m by (auto simp: Pop_def split: if_splits)
  show ?thesis
  proof (cases "job = j")
    case True
    with pop j show ?thesis by simp
  next
    case False
    with mset_jobs(2) [OF pop(3)] job j have in': "job \<in> set (pending q')" by auto
    have "rank job q' < rank job q"
    proof (cases "j_Group job = h")
      case True
      with g(1) m False have js: "js \<noteq> []" "job \<in> set js" by auto
      have "pos h (order @ [h]) = length order" using o(2) by (induction order) (auto simp: pos_Cons)
      moreover have "length order < nat (q_capacity q)" using order_capacity [OF wf] o by simp
      ultimately show ?thesis
        using True js o m False q' by (simp add: rank_def pos_Cons)
    next
      case other: False
      with g(2) o have "j_Group job \<in> set order" by simp
      then show ?thesis using other o q' by (simp add: rank_def pos_Cons pos_append)
    qed
    with in' pop show ?thesis by simp
  qed
qed

lemma rank_remove:
  assumes wf: "qwf q" and job: "job \<in> set (pending q)" and other: "j_Scope job \<noteq> scope" and v: "visits visit q"
  shows "job \<in> set (pending (fst (snd (RemoveScope visit scope reason q))))"
    and "rank job (fst (snd (RemoveScope visit scope reason q))) \<le> rank job q"
proof -
  let ?q = "fst (snd (RemoveScope visit scope reason q))"
  note g = pending_group [OF wf job]
  show "job \<in> set (pending ?q)" using job other by (simp add: RemoveScope_state(3) [OF wf v])
  have r: "removal scope visit q ?q" by (rule RemoveScope_state(2) [OF wf v])
  have "g \<in> set visit" if "g \<in> set (q_order q)" for g using that wf v by (simp add: qwf_def)
  with r g have m: "mindex (q_groups ?q) (j_Group job) = keptOf scope q (j_Group job)"
    by (simp add: removal_def)
  have o: "q_order ?q = filter (\<lambda>g. g \<in> set visit \<longrightarrow> keptOf scope q g \<noteq> []) (q_order q)"
    using r unfolding removal_def by (elim conjE)
  have "job \<in> set (keptOf scope q (j_Group job))" using g(1) other by (simp add: keptOf_def)
  then have "pos (j_Group job) (q_order ?q) \<le> pos (j_Group job) (q_order q)"
    unfolding o by (intro pos_filter) auto
  moreover have "pos job (keptOf scope q (j_Group job)) \<le> pos job (mindex (q_groups q) (j_Group job))"
    unfolding keptOf_def using other by (intro pos_filter)
  ultimately show "rank job ?q \<le> rank job q"
    unfolding rank_def m removal_capacity [OF r] by (intro add_mono mult_le_mono1)
qed

fun keepsScope :: "string \<Rightarrow> qlabel \<Rightarrow> bool" where
  "keepsScope scope (Removed scope') = (scope' \<noteq> scope)"
| "keepsScope scope Discarded = False"
| "keepsScope scope _ = True"

fun isPop :: "qlabel \<Rightarrow> bool" where
  "isPop (PopCall _) = True"
| "isPop _ = False"

lemma rank_step:
  assumes "qstep q l q'" "qwf q" "job \<in> set (pending q)" "keepsScope (j_Scope job) l" "l \<noteq> PopCall (Popped job)"
  shows "job \<in> set (pending q') \<and> rank job q' + (if isPop l then 1 else 0) \<le> rank job q"
  using assms
proof (cases rule: qstep.cases)
  case pop
  with rank_pop [OF assms(2,3)] assms(5) show ?thesis by auto
next
  case (remove visit scope reason)
  with assms(4) have "j_Scope job \<noteq> scope" by auto
  from rank_remove [OF assms(2,3) this remove(3), of reason] remove show ?thesis by simp
next
  case close
  with assms(3) show ?thesis by (simp add: rank_def Close_def pending_def)
next
  case (offer new)
  with rank_offer [OF assms(2,3), of new] show ?thesis by simp
qed (use assms in auto)

lemma served_within_rank:
  "qrun q ls q' \<Longrightarrow> qwf q \<Longrightarrow> job \<in> set (pending q) \<Longrightarrow> list_all (keepsScope (j_Scope job)) ls \<Longrightarrow>
     rank job q < length (filter isPop ls) \<Longrightarrow> PopCall (Popped job) \<in> set ls"
proof (induction rule: qrun.induct)
  case (cons q l q1 ls q')
  show ?case
  proof (cases "l = PopCall (Popped job)")
    case False
    with rank_step [OF cons.hyps(1) cons.prems(1,2)] cons.prems(3)
    have s: "job \<in> set (pending q1)" "rank job q1 + (if isPop l then 1 else 0) \<le> rank job q" by simp_all
    with cons.prems(4) have "rank job q1 < length (filter isPop ls)" by (cases "isPop l") simp_all
    with cons.IH qwf_step [OF cons.hyps(1) cons.prems(1)] s(1) cons.prems(3) show ?thesis by simp
  qed simp
qed simp

subsection \<open>Properties\<close>

text \<open>
  C21: In every state a new queue can reach by any interleaving of calls, Pop and the snapshot never index an empty
  slice, the counter is the number of pending jobs, which never exceeds the capacity, and no two pending jobs share an ID.
\<close>

theorem queue_invariant:
  assumes "NewFairQueue c = Inr q0" and "qrun q0 ls q"
  shows "fst (Pop q) \<noteq> IndexPanic \<and> snapshotLocked q \<noteq> None \<and> q_count q = int (length (pending q))
    \<and> q_count q \<le> c \<and> distinct (map j_ID (pending q))"
proof -
  from assms have wf: "qwf q" by (blast intro: qwf_run qwf_New)
  have cap: "q_capacity q = c"
    using capacity_run [OF assms(2) qwf_New [OF assms(1)]] assms(1) by (auto simp: NewFairQueue_def split: if_splits)
  have "fst (Pop q) \<noteq> IndexPanic"
  proof (cases "q_count q > 0")
    case True
    show ?thesis by (rule Pop_progress [OF wf True]) simp
  qed (simp add: Pop_idle)
  moreover have "snapshotLocked q \<noteq> None"
    using snapshot_is_drain [OF wf refl] by (simp add: snapshotLocked_def)
  ultimately show ?thesis using wf cap by (simp add: qwf_def)
qed

definition exJob :: "string \<Rightarrow> string \<Rightarrow> Job" where
  "exJob i g = \<lparr>j_ID = i, j_RunID = 1, j_Group = g, j_Scope = ''tank'', j_LockKey = [], j_LockScope = [],
     j_StartState = [], j_Run = True, j_After = False, j_Drop = False\<rparr>"

definition exQueue :: FairQueue where
  "exQueue = \<lparr>q_capacity = 4, q_count = 0, q_groups = [], q_order = [], q_ids = [], q_closed = False\<rparr>"

definition exFull :: FairQueue where
  "exFull = fst (snd (Offer (exJob ''c'' ''h'') (fst (snd (Offer (exJob ''b'' ''g'') (fst (snd (Offer (exJob ''a'' ''g'') exQueue))))))))"

lemma exQueue_New: "NewFairQueue 4 = Inr exQueue"
  by (simp add: NewFairQueue_def exQueue_def)

lemma exFull_run: "qrun exQueue [Offered (exJob ''a'' ''g''), Offered (exJob ''b'' ''g''), Offered (exJob ''c'' ''h'')] exFull"
  unfolding exFull_def by (rule qrun.cons [OF qstep.offer])+ (rule qrun.nil)

lemma exFull_qwf: "qwf exFull"
  using qwf_run [OF exFull_run] qwf_New [OF exQueue_New] by simp

theorem queue_invariant_witness: "fst (Pop exFull) \<noteq> IndexPanic \<and> snapshotLocked exFull \<noteq> None \<and> q_count exFull = 3"
proof -
  have "q_count exFull = 3" by code_simp
  with queue_invariant [OF exQueue_New exFull_run] show ?thesis by simp
qed

text \<open>
  C22: The queue view that status reports lists the pending jobs in exactly the order in which successive calls of
  Pop would hand them out.
\<close>

theorem snapshot_lists_service_order:
  assumes "NewFairQueue c = Inr q0" and "qrun q0 ls q"
  shows "snapshotLocked q = Some \<lparr>qs_Capacity = c, qs_Pending = int (length (pending q)),
    qs_IDs = map j_ID (drain (length (pending q)) q)\<rparr>"
proof -
  from assms have wf: "qwf q" by (blast intro: qwf_run qwf_New)
  moreover have "q_capacity q = c"
    using capacity_run [OF assms(2) qwf_New [OF assms(1)]] assms(1) by (auto simp: NewFairQueue_def split: if_splits)
  ultimately show ?thesis
    using snapshot_is_drain [OF wf refl] by (simp add: snapshotLocked_def qwf_def)
qed

theorem snapshot_lists_service_order_witness:
  "map_option qs_IDs (snapshotLocked exFull) = Some (map j_ID (drain (length (pending exFull)) exFull))
   \<and> map j_ID (drain 3 exFull) = [''a'', ''c'', ''b'']"
proof
  show "map_option qs_IDs (snapshotLocked exFull) = Some (map j_ID (drain (length (pending exFull)) exFull))"
    using snapshot_lists_service_order [OF exQueue_New exFull_run] by simp
  show "map j_ID (drain 3 exFull) = [''a'', ''c'', ''b'']" by code_simp
qed

text \<open>
  C20: A pending job is handed out within as many calls of Pop as the square of the capacity, whatever is submitted, removed
  for other scopes or drained meanwhile, as long as its own scope is not removed and the queue is not discarded.
\<close>

theorem pending_job_served:
  assumes "NewFairQueue c = Inr q0" and "qrun q0 before q" and "job \<in> set (pending q)"
    and "qrun q ls q'" and "list_all (keepsScope (j_Scope job)) ls" and "c * c \<le> int (length (filter isPop ls))"
  shows "PopCall (Popped job) \<in> set ls"
proof -
  from assms(1,2) have wf: "qwf q" by (blast intro: qwf_run qwf_New)
  have cap: "q_capacity q = c" "0 < c"
    using capacity_run [OF assms(2) qwf_New [OF assms(1)]] assms(1) by (auto simp: NewFairQueue_def split: if_splits)
  have "rank job q < nat c * nat c" using rank_bound [OF wf assms(3)] cap by simp
  moreover have "int (nat c * nat c) = c * c" using cap by simp
  ultimately have "rank job q < length (filter isPop ls)" using assms(6) by linarith
  with served_within_rank [OF assms(4) wf assms(3) assms(5)] show ?thesis .
qed

theorem pending_job_served_witness:
  "\<exists>ls q'. qrun exFull ls q' \<and> length (filter isPop ls) = 16 \<and> PopCall (Popped (exJob ''b'' ''g'')) \<in> set ls"
proof -
  have ex: "\<exists>ls q'. qrun q ls q' \<and> list_all isPop ls \<and> length ls = n" for n q
  proof (induction n arbitrary: q)
    case 0
    show ?case by (intro exI [of _ "[]"]) (auto intro: qrun.nil)
  next
    case (Suc n)
    from Suc obtain ls q' where "qrun (fst (snd (Pop q))) ls q'" "list_all isPop ls" "length ls = n" by blast
    then show ?case by (intro exI [of _ "PopCall (fst (Pop q)) # ls"] exI [of _ q']) (auto intro: qrun.cons qstep.pop)
  qed
  from ex [of exFull 16] obtain ls q' where run: "qrun exFull ls q'" and pops: "list_all isPop ls" and n: "length ls = 16" by blast
  from pops have keeps: "list_all (keepsScope (j_Scope (exJob ''b'' ''g''))) ls" "filter isPop ls = ls"
    by (auto simp: list_all_iff filter_id_conv elim!: isPop.elims)
  have "exJob ''b'' ''g'' \<in> set (pending exFull)" by code_simp
  from pending_job_served [OF exQueue_New exFull_run this run keeps(1)] n keeps(2) run show ?thesis by auto
qed

text \<open>
  C23: Removing a scope leaves exactly the pending jobs of other scopes, in their order, and the resulting queue and the number
  removed do not depend on the order in which the map of groups is visited.
\<close>

theorem RemoveScope_exact:
  assumes "NewFairQueue c = Inr q0" and "qrun q0 ls q" and "visits visit q" and "visits visit' q"
  shows "pending (fst (snd (RemoveScope visit scope reason q))) = filter (\<lambda>job. j_Scope job \<noteq> scope) (pending q)
    \<and> fst (RemoveScope visit scope reason q) = int (length (filter (\<lambda>job. j_Scope job = scope) (pending q)))
    \<and> fst (snd (RemoveScope visit' scope reason q)) = fst (snd (RemoveScope visit scope reason q))"
proof -
  from assms have wf: "qwf q" by (blast intro: qwf_run qwf_New)
  have n: "fst (RemoveScope visit scope reason q) = int (length (filter (\<lambda>job. j_Scope job = scope) (pending q)))"
    by (rule RemoveScope_spec [OF wf assms(3), of scope reason]) (metis fst_conv size_mset)
  let ?q = "fst (snd (RemoveScope visit scope reason q))" and ?q' = "fst (snd (RemoveScope visit' scope reason q))"
  note r = RemoveScope_state(2) [OF wf assms(3), of scope reason] and r' = RemoveScope_state(2) [OF wf assms(4), of scope reason]
  have sv: "set visit' = set visit" using assms(3,4) by simp
  have "?q' = ?q"
  proof (rule FairQueue.equality)
    show "q_groups ?q' = q_groups ?q"
    proof (rule mget_ext)
      show "mwf (q_groups ?q')" "mwf (q_groups ?q)"
        using RemoveScope_state(1) [OF wf assms(3)] RemoveScope_state(1) [OF wf assms(4)] by (simp_all add: qwf_def)
      have "mget m k = (if k \<in> set (mkeys m) then Some (mindex m k) else None)" for m :: "(string, Job list) gomap" and k
        using mget_None_iff [of m k] by (auto simp: mindex_def split: option.split)
      moreover have "mindex (q_groups ?q') = mindex (q_groups ?q)" "set (mkeys (q_groups ?q')) = set (mkeys (q_groups ?q))"
        using r r' unfolding removal_def sv by auto
      ultimately show "mget (q_groups ?q') = mget (q_groups ?q)" by (simp add: fun_eq_iff)
    qed
    show "q_ids ?q' = q_ids ?q"
    proof (rule mget_ext)
      show "mwf (q_ids ?q')" "mwf (q_ids ?q)"
        using RemoveScope_state(1) [OF wf assms(3)] RemoveScope_state(1) [OF wf assms(4)] by (simp_all add: qwf_def)
      show "mget (q_ids ?q') = mget (q_ids ?q)" using r r' unfolding removal_def by (simp add: sv)
    qed
    have "length (concat (map (goneOf scope q) visit')) = length (concat (map (goneOf scope q) visit))"
      using mset_concat_perm [of visit' visit "goneOf scope q"] assms(3,4) by (intro mset_jobs(1)) simp
    with r r' show "q_count ?q' = q_count ?q" unfolding removal_def by simp
    show "q_order ?q' = q_order ?q" "q_capacity ?q' = q_capacity ?q" "q_closed ?q' = q_closed ?q"
      using r r' unfolding removal_def by (simp_all add: sv)
  qed simp
  with n RemoveScope_state(3) [OF wf assms(3)] show ?thesis by simp
qed

theorem RemoveScope_exact_witness:
  "pending (fst (snd (RemoveScope [''g'', ''h''] ''tank'' ''gone'' exFull))) = []"
proof -
  have "visits [''g'', ''h''] exFull" "visits [''h'', ''g''] exFull" by code_simp+
  from RemoveScope_exact [OF exQueue_New exFull_run this, of "''tank''" "''gone''"]
  have "pending (fst (snd (RemoveScope [''g'', ''h''] ''tank'' ''gone'' exFull))) = filter (\<lambda>job. j_Scope job \<noteq> ''tank'') (pending exFull)" by simp
  also have "\<dots> = []" by code_simp
  finally show ?thesis .
qed

end
