(* ===== verification/Scope_Locks.thy ===== *)
theory Scope_Locks
  imports Fair_Queue
begin

section \<open>Locks on dataset subtrees\<close>

text \<open>
  The two lock tables of the program: \<open>hierarchyLocks\<close> of \<open>internal/lifecycle/service.go\<close>, which serialises lifecycle operations on
  overlapping subtrees, and \<open>keyLocks\<close> of \<open>internal/daemon/pool.go\<close>, which serialises jobs on a shared resource and adds a
  queue of waiters. Each turn of an acquisition loop runs under the table's mutex and is one definition; between
  turns the caller waits for a change. The locale \<open>scope_table\<close> states what both promise, and mutual exclusion follows from it.
\<close>

subsection \<open>The lifecycle service's table\<close>

definition mcount :: "('k, int) gomap \<Rightarrow> 'k \<Rightarrow> int" where
  "mcount m k = (case mget m k of Some n \<Rightarrow> n | None \<Rightarrow> 0)"

record hierarchyLocks =
  hl_active :: "(string, int) gomap"

definition newHierarchyLocks :: hierarchyLocks where
  "newHierarchyLocks = \<lparr>hl_active = []\<rparr>"

text \<open>One turn of \<open>acquire\<close>: \<open>None\<close> when the caller must wait for a change.\<close>

definition hierarchyTry :: "string \<Rightarrow> hierarchyLocks \<Rightarrow> hierarchyLocks option" where
  "hierarchyTry dataset l =
     (if list_ex (\<lambda>active. overlappingScope active dataset) (mkeys (hl_active l)) then None
      else Some (l\<lparr>hl_active := mput dataset (mcount (hl_active l) dataset + 1) (hl_active l)\<rparr>))"

definition countDown :: "string \<Rightarrow> (string, int) gomap \<Rightarrow> (string, int) gomap" where
  "countDown scope active =
     (if mcount active scope - 1 = 0 then mdel scope active else mput scope (mcount active scope - 1) active)"

definition hierarchyRelease :: "string \<Rightarrow> hierarchyLocks \<Rightarrow> hierarchyLocks" where
  "hierarchyRelease dataset l = l\<lparr>hl_active := countDown dataset (hl_active l)\<rparr>"

subsection \<open>The pools' table\<close>

text \<open>A waiter is compared by its address, here a number of its own.\<close>

record lockWaiter =
  lw_id :: nat
  lw_scope :: string
  lw_holder :: string

record keyLocks =
  kl_active :: "(string, (string, int) gomap) gomap"
  kl_holders :: "(string, (string, string list) gomap) gomap"
  kl_waiters :: "(string, lockWaiter list) gomap"

definition newKeyLocks :: keyLocks where
  "newKeyLocks = \<lparr>kl_active = [], kl_holders = [], kl_waiters = []\<rparr>"

text \<open>Storing a value, or deleting the key when the value is empty.\<close>

definition mstore :: "'k :: linorder \<Rightarrow> 'v list \<Rightarrow> ('k, 'v list) gomap \<Rightarrow> ('k, 'v list) gomap" where
  "mstore k v m = (if v = [] then mdel k m else mput k v m)"

definition withoutWaiter :: "nat \<Rightarrow> lockWaiter list \<Rightarrow> lockWaiter list" where
  "withoutWaiter i ws = takeWhile (\<lambda>w. lw_id w \<noteq> i) ws @ tl (dropWhile (\<lambda>w. lw_id w \<noteq> i) ws)"

definition removeWaiterLocked :: "string \<Rightarrow> nat \<Rightarrow> keyLocks \<Rightarrow> keyLocks" where
  "removeWaiterLocked key i k =
     (if i \<in> lw_id ` set (mindex (kl_waiters k) key)
      then k\<lparr>kl_waiters := mstore key (withoutWaiter i (mindex (kl_waiters k) key)) (kl_waiters k)\<rparr>
      else k)"

text \<open>\<open>acquireAs\<close>: joining the waiters, one turn of the loop, and leaving when the context is done.\<close>

definition keyJoin :: "string \<Rightarrow> lockWaiter \<Rightarrow> keyLocks \<Rightarrow> keyLocks" where
  "keyJoin key w k = k\<lparr>kl_waiters := mput key (mindex (kl_waiters k) key @ [w]) (kl_waiters k)\<rparr>"

definition earlierWaiters :: "string \<Rightarrow> lockWaiter \<Rightarrow> keyLocks \<Rightarrow> lockWaiter list" where
  "earlierWaiters key w k = takeWhile (\<lambda>e. lw_id e \<noteq> lw_id w) (mindex (kl_waiters k) key)"

definition keyGrant :: "string \<Rightarrow> lockWaiter \<Rightarrow> keyLocks \<Rightarrow> keyLocks" where
  "keyGrant key w k =
     (let k = removeWaiterLocked key (lw_id w) k;
          active = mindex (kl_active k) key; holders = mindex (kl_holders k) key in
      k\<lparr>kl_active := mput key (mput (lw_scope w) (mcount active (lw_scope w) + 1) active) (kl_active k),
        kl_holders := mput key (mput (lw_scope w) (mindex holders (lw_scope w) @ [lw_holder w]) holders) (kl_holders k)\<rparr>)"

datatype lockTry = Blocked string | Granted keyLocks

definition keyTry :: "string \<Rightarrow> lockWaiter \<Rightarrow> keyLocks \<Rightarrow> lockTry" where
  "keyTry key w k =
     (case find (\<lambda>active. overlappingLockScope active (lw_scope w)) (mkeys (mindex (kl_active k) key)) of
        Some active \<Rightarrow>
          Blocked (case mindex (mindex (kl_holders k) key) active of [] \<Rightarrow> [] | holder # _ \<Rightarrow> holder)
      | None \<Rightarrow>
          (case find (\<lambda>earlier. overlappingLockScope (lw_scope earlier) (lw_scope w)) (earlierWaiters key w k) of
             Some earlier \<Rightarrow> Blocked (lw_holder earlier)
           | None \<Rightarrow> Granted (keyGrant key w k)))"

definition keyLeave :: "string \<Rightarrow> lockWaiter \<Rightarrow> keyLocks \<Rightarrow> keyLocks" where
  "keyLeave key w k = removeWaiterLocked key (lw_id w) k"

definition keyRelease :: "string \<Rightarrow> lockWaiter \<Rightarrow> keyLocks \<Rightarrow> keyLocks" where
  "keyRelease key w k =
     (let active = countDown (lw_scope w) (mindex (kl_active k) key);
          holders = mindex (kl_holders k) key;
          held = remove1 (lw_holder w) (mindex holders (lw_scope w)) in
      k\<lparr>kl_active := mstore key active (kl_active k),
        kl_holders := mstore key (mstore (lw_scope w) held holders) (kl_holders k)\<rparr>)"

subsection \<open>What a table promises\<close>

locale scope_table =
  fixes overlap :: "string \<Rightarrow> string \<Rightarrow> bool"
    and held :: "'s \<Rightarrow> string \<Rightarrow> nat"
    and grant :: "'s \<Rightarrow> string \<Rightarrow> 's \<Rightarrow> bool"
    and release :: "'s \<Rightarrow> string \<Rightarrow> 's \<Rightarrow> bool"
  assumes overlap_refl: "overlap a a"
    and overlap_sym: "overlap a b \<Longrightarrow> overlap b a"
    and grant_held: "grant s a s' \<Longrightarrow> held s' = (held s)(a := held s a + 1)"
    and grant_free: "grant s a s' \<Longrightarrow> held s b > 0 \<Longrightarrow> \<not> overlap b a"
    and release_held: "release s a s' \<Longrightarrow> held s' = (held s)(a := held s a - 1)"
begin

definition exclusive :: "'s \<Rightarrow> bool" where
  "exclusive s \<longleftrightarrow> (\<forall>a. held s a \<le> 1) \<and> (\<forall>a b. held s a > 0 \<longrightarrow> held s b > 0 \<longrightarrow> overlap a b \<longrightarrow> a = b)"

lemma exclusive_grant:
  assumes "exclusive s" "grant s a s'"
  shows "exclusive s'"
proof -
  have "held s a = 0" using grant_free [OF assms(2), of a] overlap_refl [of a] by auto
  moreover have "\<not> overlap b a \<and> \<not> overlap a b" if "held s b > 0" for b
    using grant_free [OF assms(2) that] overlap_sym by blast
  ultimately show ?thesis using assms(1) grant_held [OF assms(2)] by (auto simp: exclusive_def)
qed

lemma exclusive_release:
  assumes "exclusive s" "release s a s'"
  shows "exclusive s'"
proof -
  have le: "held s' b \<le> held s b" for b by (simp add: release_held [OF assms(2)])
  show ?thesis
    using assms(1) le_trans [OF le] less_le_trans [OF _ le] unfolding exclusive_def by meson
qed

lemma granted_unheld: "grant s a s' \<Longrightarrow> held s a = 0"
  using grant_free [of s a s' a] overlap_refl [of a] by auto

end

lemma overlappingScope_laws: "overlappingScope a a" "overlappingScope a b \<Longrightarrow> overlappingScope b a"
  by (auto simp: overlappingScope_def)

lemma overlappingLockScope_laws: "overlappingLockScope a a" "overlappingLockScope a b \<Longrightarrow> overlappingLockScope b a"
  by (auto simp: overlappingLockScope_def)

lemma mcount_update [simp]:
  "mcount (mput k n m) k' = (if k' = k then n else mcount m k')" "mcount (mdel k m) k' = (if k' = k then 0 else mcount m k')"
  by (simp_all add: mcount_def)

lemma mcount_pos_key: "mcount m k > 0 \<Longrightarrow> k \<in> set (mkeys m)"
  using mget_None_iff [of m k] by (fastforce simp: mcount_def)

lemma mcount_countDown: "mcount (countDown a m) k = (if k = a then mcount m a - 1 else mcount m k)"
  by (simp add: countDown_def)

lemma mindex_mstore [simp]: "mindex (mstore k v m) = (\<lambda>h. if h = k then v else mindex m h)"
  by (auto simp: mstore_def fun_eq_iff)

interpretation hierarchy: scope_table overlappingScope "\<lambda>l a. nat (mcount (hl_active l) a)"
  "\<lambda>l a l'. mcount (hl_active l) a \<ge> 0 \<and> hierarchyTry a l = Some l'" "\<lambda>l a l'. l' = hierarchyRelease a l"
proof
  show "(\<lambda>b. nat (mcount (hl_active l') b)) = (\<lambda>b. nat (mcount (hl_active l) b))(a := nat (mcount (hl_active l) a) + 1)"
    if "mcount (hl_active l) a \<ge> 0 \<and> hierarchyTry a l = Some l'" for l a l'
    using that by (auto simp: hierarchyTry_def fun_eq_iff nat_add_distrib split: if_splits)
  show "\<not> overlappingScope b a"
    if "mcount (hl_active l) a \<ge> 0 \<and> hierarchyTry a l = Some l'" "0 < nat (mcount (hl_active l) b)" for l a l' b
    using that mcount_pos_key [of "hl_active l" b] by (auto simp: hierarchyTry_def list_ex_iff split: if_splits)
qed (auto simp: overlappingScope_laws hierarchyRelease_def mcount_countDown fun_eq_iff)

lemma removeWaiter_tables [simp]:
  "kl_active (removeWaiterLocked key i k) = kl_active k" "kl_holders (removeWaiterLocked key i k) = kl_holders k"
  by (simp_all add: removeWaiterLocked_def)

lemma keyTry_Granted:
  "keyTry key w k = Granted k' \<longleftrightarrow>
     k' = keyGrant key w k \<and> \<not> list_ex (\<lambda>a. overlappingLockScope a (lw_scope w)) (mkeys (mindex (kl_active k) key))
     \<and> \<not> list_ex (\<lambda>e. overlappingLockScope (lw_scope e) (lw_scope w)) (earlierWaiters key w k)"
  by (auto simp: keyTry_def find_None_iff list_ex_iff split: option.splits dest: find_SomeD)

interpretation keyed: scope_table overlappingLockScope "\<lambda>k a. nat (mcount (mindex (kl_active k) key) a)"
  "\<lambda>k a k'. mcount (mindex (kl_active k) key) a \<ge> 0 \<and> (\<exists>w. lw_scope w = a \<and> keyTry key w k = Granted k')"
  "\<lambda>k a k'. \<exists>w. lw_scope w = a \<and> k' = keyRelease key w k" for key
proof
  show "(\<lambda>b. nat (mcount (mindex (kl_active k') key) b))
      = (\<lambda>b. nat (mcount (mindex (kl_active k) key) b))(a := nat (mcount (mindex (kl_active k) key) a) + 1)"
    if "mcount (mindex (kl_active k) key) a \<ge> 0 \<and> (\<exists>w. lw_scope w = a \<and> keyTry key w k = Granted k')" for k a k'
    using that by (auto simp: keyTry_Granted keyGrant_def Let_def fun_eq_iff nat_add_distrib)
  show "\<not> overlappingLockScope b a"
    if "mcount (mindex (kl_active k) key) a \<ge> 0 \<and> (\<exists>w. lw_scope w = a \<and> keyTry key w k = Granted k')"
      "0 < nat (mcount (mindex (kl_active k) key) b)" for k a k' b
    using that mcount_pos_key [of "mindex (kl_active k) key" b] by (auto simp: keyTry_Granted list_ex_iff)
  show "(\<lambda>b. nat (mcount (mindex (kl_active k') key) b))
      = (\<lambda>b. nat (mcount (mindex (kl_active k) key) b))(a := nat (mcount (mindex (kl_active k) key) a) - 1)"
    if "\<exists>w. lw_scope w = a \<and> k' = keyRelease key w k" for k a k'
    using that by (auto simp: keyRelease_def Let_def fun_eq_iff mcount_countDown)
qed (auto simp: overlappingLockScope_laws)

end
