(* ===== verification/Worker_Pool.thy ===== *)
theory Worker_Pool
  imports Scope_Locks
begin

section \<open>The worker pool\<close>

text \<open>
  \<open>Pool\<close> of \<open>internal/daemon/pool.go\<close>, composed of the fair queue and the lock table. Each definition is a stretch of a method that one
  goroutine runs under one mutex; the jobs goroutines are between two such stretches with are kept in multisets:
  \<open>submitting\<close> (marked as known, not yet offered), \<open>taken\<close> (popped, before the lock), \<open>waiting\<close> (in the lock's loop), \<open>running\<close>,
  \<open>finishing\<close> (returned, before \<open>complete\<close>) and \<open>dropping\<close> (out of the queue, before its \<open>Drop\<close> has called \<open>complete\<close>).
  The relation \<open>pstep\<close> interleaves them freely. What a job does when it runs is not modelled: it ends at any time with any outcome.

  Shown for every reachable state: no two runs of the same job ID are in flight, and no two running jobs hold overlapping scopes of
  one lock key; when jobs wait and none runs, some waiting job can proceed.
\<close>

subsection \<open>Definitions\<close>

record Outcome =
  oc_State :: string
  oc_Reason :: string
  oc_Silent :: bool

record Event =
  ev_RunID :: nat
  ev_Pool :: string
  ev_Job :: string
  ev_Scope :: string
  ev_Target :: string
  ev_State :: string
  ev_Reason :: string

record Pool =
  pl_name :: string
  pl_workers :: int
  pl_queue :: FairQueue
  pl_locks :: keyLocks
  pl_known :: "(string, bool) gomap"
  pl_started :: bool
  pl_stops :: int
  pl_report :: "Event list"
  pl_nextWaiter :: nat
  pl_submitting :: "Job multiset"
  pl_taken :: "Job multiset"
  pl_waiting :: "(Job \<times> lockWaiter) multiset"
  pl_running :: "(Job \<times> lockWaiter) multiset"
  pl_finishing :: "Job multiset"
  pl_dropping :: "Job multiset"

definition NewPool :: "string \<Rightarrow> int \<Rightarrow> int \<Rightarrow> Pool result" where
  "NewPool name workers queueCapacity =
     (if name = [] \<or> workers < 1 then Inl (Errorf ''pool name and positive worker count are required'' [])
      else bindE (NewFairQueue queueCapacity) (\<lambda>queue.
        Inr \<lparr>pl_name = name, pl_workers = workers, pl_queue = queue, pl_locks = newKeyLocks, pl_known = [], pl_started = False,
             pl_stops = 0, pl_report = [], pl_nextWaiter = 0, pl_submitting = {#}, pl_taken = {#}, pl_waiting = {#},
             pl_running = {#}, pl_finishing = {#}, pl_dropping = {#}\<rparr>))"

definition event :: "Pool \<Rightarrow> Job \<Rightarrow> string \<Rightarrow> string \<Rightarrow> Event" where
  "event p job state reason =
     \<lparr>ev_RunID = j_RunID job, ev_Pool = pl_name p, ev_Job = j_ID job, ev_Scope = j_Scope job, ev_Target = j_LockKey job,
      ev_State = state, ev_Reason = reason\<rparr>"

definition emit :: "Job \<Rightarrow> string \<Rightarrow> string \<Rightarrow> Pool \<Rightarrow> Pool" where
  "emit job state reason p = p\<lparr>pl_report := pl_report p @ [event p job state reason]\<rparr>"

definition observeQueue :: "queueChange option \<Rightarrow> Pool \<Rightarrow> Pool" where
  "observeQueue c p =
     (case c of
        None \<Rightarrow> p
      | Some change \<Rightarrow>
          p\<lparr>pl_report := pl_report p
              @ (case qc_offered change of None \<Rightarrow> [] | Some job \<Rightarrow> [event p job (''pending-'' @ pl_name p) []])
              @ map (\<lambda>job. event p job ''cancelled'' (qc_reason change)) (qc_dropped change)\<rparr>)"

definition Start :: "Pool \<Rightarrow> unit result \<times> Pool" where
  "Start p =
     (if pl_started p then (Inl (Errorf ''pool already started'' []), p)
      else (Inr (), p\<lparr>pl_started := True, pl_stops := pl_stops p + pl_workers p\<rparr>))"

definition Resize :: "int \<Rightarrow> Pool \<Rightarrow> unit result \<times> Pool" where
  "Resize workers p =
     (if workers < 1 then (Inl (Errorf ''positive worker count is required'' []), p)
      else if \<not> pl_started p then (Inr (), p\<lparr>pl_workers := workers\<rparr>)
      else (Inr (), p\<lparr>pl_stops := min (max (pl_stops p) workers) workers, pl_workers := workers\<rparr>))"

definition knownID :: "Pool \<Rightarrow> string \<Rightarrow> bool" where
  "knownID p i \<longleftrightarrow> mget (pl_known p) i = Some True"

definition completeID :: "string \<Rightarrow> Pool \<Rightarrow> Pool" where
  "completeID i p = p\<lparr>pl_known := mdel i (pl_known p)\<rparr>"

text \<open>\<open>Submit\<close>: marking the ID as known, which also gives the job a \<open>Drop\<close>, then offering the job.\<close>

definition submitMark :: "Job \<Rightarrow> Pool \<Rightarrow> bool \<times> Pool" where
  "submitMark job p =
     (if knownID p (j_ID job) then (False, p)
      else (True, p\<lparr>pl_known := mput (j_ID job) True (pl_known p),
                    pl_submitting := add_mset (job\<lparr>j_Drop := True\<rparr>) (pl_submitting p)\<rparr>))"

definition submitOffer :: "Job \<Rightarrow> Pool \<Rightarrow> bool result \<times> Pool" where
  "submitOffer job p =
     (let (added, queue, change) = Offer job (pl_queue p);
          p = observeQueue change (p\<lparr>pl_queue := queue, pl_submitting := pl_submitting p - {#job#}\<rparr>) in
      (added, if added = Inr True then p else p\<lparr>pl_finishing := add_mset job (pl_finishing p)\<rparr>))"

text \<open>The worker: taking a job, finding the pool stopped, joining and turning in the lock's loop, running and returning.\<close>

definition workerPop :: "Pool \<Rightarrow> popResult \<times> Pool" where
  "workerPop p =
     (let (r, queue, change) = Pop (pl_queue p);
          p = observeQueue change (p\<lparr>pl_queue := queue\<rparr>) in
      (r, case r of Popped job \<Rightarrow> p\<lparr>pl_taken := add_mset job (pl_taken p)\<rparr> | _ \<Rightarrow> p))"

definition workerStopped :: "Job \<Rightarrow> Pool \<Rightarrow> Pool" where
  "workerStopped job p =
     emit job ''cancelled'' ''worker pool stopped before the job started''
       (p\<lparr>pl_taken := pl_taken p - {#job#}, pl_dropping := add_mset job (pl_dropping p)\<rparr>)"

definition waiterOf :: "Job \<Rightarrow> Pool \<Rightarrow> lockWaiter" where
  "waiterOf job p = \<lparr>lw_id = pl_nextWaiter p, lw_scope = j_LockScope job, lw_holder = j_ID job\<rparr>"

definition startState :: "Job \<Rightarrow> string" where
  "startState job = (if j_StartState job = [] then ''running'' else j_StartState job)"

definition workerAcquire :: "Job \<Rightarrow> Pool \<Rightarrow> Pool" where
  "workerAcquire job p =
     (let w = waiterOf job p in
      if j_LockKey job = []
      then emit job (startState job) []
        (p\<lparr>pl_taken := pl_taken p - {#job#}, pl_running := add_mset (job, w) (pl_running p), pl_nextWaiter := Suc (pl_nextWaiter p)\<rparr>)
      else p\<lparr>pl_taken := pl_taken p - {#job#}, pl_waiting := add_mset (job, w) (pl_waiting p),
             pl_locks := keyJoin (j_LockKey job) w (pl_locks p), pl_nextWaiter := Suc (pl_nextWaiter p)\<rparr>)"

definition workerTry :: "Job \<Rightarrow> lockWaiter \<Rightarrow> Pool \<Rightarrow> Pool" where
  "workerTry job w p =
     (case keyTry (j_LockKey job) w (pl_locks p) of
        Blocked blocker \<Rightarrow>
          emit job ''waiting-lock''
            (if blocker \<noteq> [] then ''waiting for '' @ blocker @ '' to release its lock on '' @ j_LockKey job
             else ''waiting for another job's lock on '' @ j_LockKey job) p
      | Granted k \<Rightarrow>
          emit job (startState job) []
            (p\<lparr>pl_locks := k, pl_waiting := pl_waiting p - {#(job, w)#}, pl_running := add_mset (job, w) (pl_running p)\<rparr>))"

definition workerAbandon :: "Job \<Rightarrow> lockWaiter \<Rightarrow> string \<Rightarrow> Pool \<Rightarrow> Pool" where
  "workerAbandon job w err p =
     emit job ''failed'' err
       (p\<lparr>pl_locks := keyLeave (j_LockKey job) w (pl_locks p), pl_waiting := pl_waiting p - {#(job, w)#},
          pl_finishing := add_mset job (pl_finishing p)\<rparr>)"

definition workerReturn :: "Job \<Rightarrow> lockWaiter \<Rightarrow> Outcome \<Rightarrow> Pool \<Rightarrow> Pool" where
  "workerReturn job w outcome p =
     (let p = p\<lparr>pl_locks := (if j_LockKey job = [] then pl_locks p else keyRelease (j_LockKey job) w (pl_locks p)),
                pl_running := pl_running p - {#(job, w)#}, pl_finishing := add_mset job (pl_finishing p)\<rparr> in
      if oc_Silent outcome then p
      else emit job (if oc_State outcome = [] then ''succeeded'' else oc_State outcome) (oc_Reason outcome) p)"

definition finishComplete :: "Job \<Rightarrow> Pool \<Rightarrow> Pool" where
  "finishComplete job p = completeID (j_ID job) (p\<lparr>pl_finishing := pl_finishing p - {#job#}\<rparr>)"

definition dropComplete :: "Job \<Rightarrow> Pool \<Rightarrow> Pool" where
  "dropComplete job p = completeID (j_ID job) (p\<lparr>pl_dropping := pl_dropping p - {#job#}\<rparr>)"

definition droppedJobs :: "queueChange option \<Rightarrow> Job multiset" where
  "droppedJobs c = (case c of None \<Rightarrow> {#} | Some change \<Rightarrow> mset (qc_dropped change))"

definition poolRemoveScope :: "string list \<Rightarrow> string \<Rightarrow> string \<Rightarrow> Pool \<Rightarrow> int \<times> Pool" where
  "poolRemoveScope visit scope reason p =
     (let (n, queue, change) = RemoveScope visit scope reason (pl_queue p) in
      (n, observeQueue change (p\<lparr>pl_queue := queue, pl_dropping := pl_dropping p + droppedJobs change\<rparr>)))"

definition DiscardPending :: "string list \<Rightarrow> string \<Rightarrow> Pool \<Rightarrow> int \<times> Pool" where
  "DiscardPending visit reason p =
     (let (n, queue, change) = DiscardAll visit reason (pl_queue p) in
      (n, observeQueue change (p\<lparr>pl_queue := queue, pl_dropping := pl_dropping p + droppedJobs change\<rparr>)))"

definition poolClose :: "Pool \<Rightarrow> Pool" where
  "poolClose p = p\<lparr>pl_queue := Close (pl_queue p)\<rparr>"

inductive pstep :: "Pool \<Rightarrow> Pool \<Rightarrow> bool" where
  mark: "pstep p (snd (submitMark job p))"
| offer: "job \<in># pl_submitting p \<Longrightarrow> pstep p (snd (submitOffer job p))"
| take: "pstep p (snd (workerPop p))"
| stopped: "job \<in># pl_taken p \<Longrightarrow> pstep p (workerStopped job p)"
| acquire: "job \<in># pl_taken p \<Longrightarrow> pstep p (workerAcquire job p)"
| turn: "(job, w) \<in># pl_waiting p \<Longrightarrow> pstep p (workerTry job w p)"
| abandon: "(job, w) \<in># pl_waiting p \<Longrightarrow> pstep p (workerAbandon job w err p)"
| return: "(job, w) \<in># pl_running p \<Longrightarrow> pstep p (workerReturn job w outcome p)"
| finished: "job \<in># pl_finishing p \<Longrightarrow> pstep p (finishComplete job p)"
| dropped: "job \<in># pl_dropping p \<Longrightarrow> pstep p (dropComplete job p)"
| remove: "visits visit (pl_queue p) \<Longrightarrow> pstep p (snd (poolRemoveScope visit scope reason p))"
| discard: "visits visit (pl_queue p) \<Longrightarrow> pstep p (snd (DiscardPending visit reason p))"
| close: "pstep p (poolClose p)"
| start: "pstep p (snd (Start p))"
| resize: "pstep p (snd (Resize workers p))"

inductive preachable :: "Pool \<Rightarrow> Pool \<Rightarrow> bool" for p0 where
  initial: "preachable p0 p0"
| step: "preachable p0 p \<Longrightarrow> pstep p p' \<Longrightarrow> preachable p0 p'"

subsection \<open>Every known ID is one job in flight\<close>

definition poolJobs :: "Pool \<Rightarrow> Job multiset" where
  "poolJobs p = pl_submitting p + mset (pending (pl_queue p)) + pl_taken p + image_mset fst (pl_waiting p)
     + image_mset fst (pl_running p) + pl_finishing p + pl_dropping p"

definition knownOnce :: "Pool \<Rightarrow> bool" where
  "knownOnce p \<longleftrightarrow> qwf (pl_queue p) \<and> (\<forall>i. count (image_mset j_ID (poolJobs p)) i = (if knownID p i then 1 else 0))"

lemma observe_simps [simp]:
  "pl_queue (observeQueue c p) = pl_queue p" "pl_locks (observeQueue c p) = pl_locks p" "pl_known (observeQueue c p) = pl_known p"
  "pl_submitting (observeQueue c p) = pl_submitting p" "pl_taken (observeQueue c p) = pl_taken p"
  "pl_waiting (observeQueue c p) = pl_waiting p" "pl_running (observeQueue c p) = pl_running p"
  "pl_finishing (observeQueue c p) = pl_finishing p" "pl_dropping (observeQueue c p) = pl_dropping p"
  "pl_nextWaiter (observeQueue c p) = pl_nextWaiter p"
  by (simp_all add: observeQueue_def split: option.split)

lemma emit_simps [simp]:
  "pl_queue (emit j s r p) = pl_queue p" "pl_locks (emit j s r p) = pl_locks p" "pl_known (emit j s r p) = pl_known p"
  "pl_submitting (emit j s r p) = pl_submitting p" "pl_taken (emit j s r p) = pl_taken p"
  "pl_waiting (emit j s r p) = pl_waiting p" "pl_running (emit j s r p) = pl_running p"
  "pl_finishing (emit j s r p) = pl_finishing p" "pl_dropping (emit j s r p) = pl_dropping p"
  "pl_nextWaiter (emit j s r p) = pl_nextWaiter p"
  by (simp_all add: emit_def)

text \<open>A step that only moves jobs between goroutines.\<close>

lemma knownOnce_move:
  assumes "knownOnce p" "poolJobs p' = poolJobs p" "pl_known p' = pl_known p" "qwf (pl_queue p')"
  shows "knownOnce p'"
  using assms by (simp add: knownOnce_def knownID_def)

lemma Offer_pending:
  assumes "qwf q"
  shows "mset (pending (fst (snd (Offer job q)))) = mset (pending q) + (if fst (Offer job q) = Inr True then {#job#} else {#})"
  using pending_enqueue [OF assms, of job] by (auto simp: Offer_def)

lemma Pop_pending:
  assumes "qwf q"
  shows "mset (pending q) = mset (pending (fst (snd (Pop q)))) + (case fst (Pop q) of Popped job \<Rightarrow> {#job#} | _ \<Rightarrow> {#})"
proof (cases "q_count q > 0")
  case True
  show ?thesis by (rule Pop_progress [OF assms True]) simp
next
  case False
  then show ?thesis by (simp add: Pop_idle)
qed

lemma RemoveScope_pending:
  assumes "qwf q" "visits visit q"
  shows "mset (pending q) = mset (pending (fst (snd (RemoveScope visit scope reason q)))) + droppedJobs (snd (snd (RemoveScope visit scope reason q)))"
proof (rule RemoveScope_spec [OF assms, of scope reason])
  fix q' gone
  assume r: "RemoveScope visit scope reason q =
      (int (length gone), q', if gone = [] then None else Some \<lparr>qc_offered = None, qc_dropped = gone, qc_reason = reason\<rparr>)"
    and g: "mset gone = mset (filter (\<lambda>job. j_Scope job = scope) (pending q))"
    and p: "pending q' = filter (\<lambda>job. j_Scope job \<noteq> scope) (pending q)"
  from r have "droppedJobs (snd (snd (RemoveScope visit scope reason q))) = mset gone" "fst (snd (RemoveScope visit scope reason q)) = q'"
    by (simp_all add: droppedJobs_def)
  moreover have "mset (pending q) = mset (pending q') + mset gone"
    unfolding g p mset_filter by (subst multiset_partition [of _ "\<lambda>job. j_Scope job = scope"]) (rule union_commute)
  ultimately show ?thesis by simp
qed

lemma DiscardAll_pending:
  assumes "qwf q" "visits visit q"
  shows "mset (pending q) = mset (pending (fst (snd (DiscardAll visit reason q)))) + droppedJobs (snd (snd (DiscardAll visit reason q)))"
proof -
  have "mset (concat (map (mindex (q_groups q)) visit)) = mset (pending q)"
    unfolding pending_def using assms by (intro mset_concat_perm) (auto simp: qwf_def)
  moreover have "droppedJobs (snd (snd (DiscardAll visit reason q))) = mset (concat (map (mindex (q_groups q)) visit))"
    "pending (fst (snd (DiscardAll visit reason q))) = []"
    by (simp_all add: DiscardAll_def Let_def droppedJobs_def pending_def del: concat_eq_Nil_conv)
  ultimately show ?thesis by simp
qed

lemma pending_Close [simp]: "pending (Close q) = pending q"
  by (simp add: pending_def Close_def)

lemma knownOnce_add:
  assumes "knownOnce p" "poolJobs p' = add_mset job (poolJobs p)" "\<not> knownID p (j_ID job)"
    "pl_known p' = mput (j_ID job) True (pl_known p)" "pl_queue p' = pl_queue p"
  shows "knownOnce p'"
proof -
  have "count (image_mset j_ID (poolJobs p')) i = (if i = j_ID job then 1 else 0) + count (image_mset j_ID (poolJobs p)) i" for i
    using assms(2) by simp
  moreover have "knownID p' i \<longleftrightarrow> knownID p i \<or> i = j_ID job" for i
    using assms(4) by (simp add: knownID_def)
  ultimately show ?thesis using assms(1,3,5) unfolding knownOnce_def by simp
qed

lemma knownOnce_submitMark: "knownOnce p \<Longrightarrow> knownOnce (snd (submitMark job p))"
  by (cases "knownID p (j_ID job)")
    (simp_all add: submitMark_def knownOnce_add [of p _ "job\<lparr>j_Drop := True\<rparr>"] poolJobs_def)

lemma knownOnce_remove:
  assumes "knownOnce p" "poolJobs p = add_mset job (poolJobs p')" "pl_known p' = mdel (j_ID job) (pl_known p)" "qwf (pl_queue p')"
  shows "knownOnce p'"
proof -
  have "count (image_mset j_ID (poolJobs p')) i = (if knownID p' i then 1 else 0)" for i
  proof -
    have "count (image_mset j_ID (poolJobs p)) i = (if i = j_ID job then 1 else 0) + count (image_mset j_ID (poolJobs p')) i"
      using assms(2) by simp
    moreover have "count (image_mset j_ID (poolJobs p)) i = (if knownID p i then 1 else 0)"
      using assms(1) by (simp add: knownOnce_def)
    moreover have "knownID p' i \<longleftrightarrow> knownID p i \<and> i \<noteq> j_ID job"
      using assms(3) by (simp add: knownID_def)
    ultimately show ?thesis by (cases "i = j_ID job"; cases "knownID p i") simp_all
  qed
  with assms(4) show ?thesis by (simp add: knownOnce_def)
qed

lemma knownOnce_step: "pstep p p' \<Longrightarrow> knownOnce p \<Longrightarrow> knownOnce p'"
proof (induction rule: pstep.induct)
  case (mark p job)
  then show ?case by (rule knownOnce_submitMark)
next
  case (offer job p)
  then have "qwf (pl_queue p)" by (simp add: knownOnce_def)
  with offer show ?case
    by (intro knownOnce_move [OF offer(2)])
      (auto simp: submitOffer_def case_prod_beta Let_def poolJobs_def Offer_pending qwf_Offer insert_DiffM dest!: multi_member_split)
next
  case (take p)
  then have q: "qwf (pl_queue p)" by (simp add: knownOnce_def)
  show ?case
    by (rule knownOnce_move [OF take])
      (auto simp: workerPop_def case_prod_beta Let_def poolJobs_def Pop_pending [OF q] qwf_Pop [OF q] split: popResult.splits)
next
  case (remove visit p scope reason)
  then have q: "qwf (pl_queue p)" by (simp add: knownOnce_def)
  show ?case
    by (rule knownOnce_move [OF remove(2)])
      (simp_all add: poolRemoveScope_def case_prod_beta Let_def poolJobs_def RemoveScope_pending [OF q remove(1), of scope reason]
        RemoveScope_state(1) [OF q remove(1)])
next
  case (discard visit p reason)
  then have q: "qwf (pl_queue p)" by (simp add: knownOnce_def)
  show ?case
    by (rule knownOnce_move [OF discard(2)])
      (simp_all add: DiscardPending_def case_prod_beta Let_def poolJobs_def DiscardAll_pending [OF q discard(1), of reason] qwf_DiscardAll [OF q])
next
  case (finished job p)
  then show ?case
    by (intro knownOnce_remove [OF finished(2)])
      (auto simp: finishComplete_def completeID_def poolJobs_def knownOnce_def dest!: multi_member_split)
next
  case (dropped job p)
  then show ?case
    by (intro knownOnce_remove [OF dropped(2)])
      (auto simp: dropComplete_def completeID_def poolJobs_def knownOnce_def dest!: multi_member_split)
next
  case (stopped job p)
  then show ?case
    by (intro knownOnce_move [OF stopped(2)]) (auto simp: workerStopped_def poolJobs_def knownOnce_def dest!: multi_member_split)
next
  case (acquire job p)
  then show ?case
    by (intro knownOnce_move [OF acquire(2)])
      (auto simp: workerAcquire_def Let_def poolJobs_def knownOnce_def dest!: multi_member_split)
next
  case (turn job w p)
  then show ?case
    by (intro knownOnce_move [OF turn(2)])
      (auto simp: workerTry_def poolJobs_def knownOnce_def split: lockTry.split dest!: multi_member_split)
next
  case (abandon job w p err)
  then show ?case
    by (intro knownOnce_move [OF abandon(2)]) (auto simp: workerAbandon_def poolJobs_def knownOnce_def dest!: multi_member_split)
next
  case (return job w p outcome)
  then show ?case
    by (intro knownOnce_move [OF return(2)]) (auto simp: workerReturn_def Let_def poolJobs_def knownOnce_def dest!: multi_member_split)
next
  case (close p)
  then show ?case
    by (intro knownOnce_move [OF close]) (auto simp: poolClose_def poolJobs_def knownOnce_def qwf_Close)
next
  case (start p)
  then show ?case by (intro knownOnce_move [OF start]) (auto simp: Start_def poolJobs_def knownOnce_def)
next
  case (resize p workers)
  then show ?case by (intro knownOnce_move [OF resize]) (auto simp: Resize_def poolJobs_def knownOnce_def)
qed

lemma pending_New: "NewFairQueue c = Inr q \<Longrightarrow> pending q = []"
  by (auto simp: NewFairQueue_def pending_def split: if_splits)

lemma knownOnce_New: "NewPool name workers cap = Inr p \<Longrightarrow> knownOnce p"
  by (auto simp: NewPool_def result_iffs knownOnce_def poolJobs_def knownID_def qwf_New pending_New split: if_splits)

lemma knownOnce_reachable: "preachable p0 p \<Longrightarrow> knownOnce p0 \<Longrightarrow> knownOnce p"
  by (induction rule: preachable.induct) (auto intro: knownOnce_step)

subsection \<open>The lock table agrees with the running and waiting jobs\<close>

definition onKey :: "string \<Rightarrow> (Job \<times> lockWaiter) multiset \<Rightarrow> lockWaiter multiset" where
  "onKey key M = image_mset snd (filter_mset (\<lambda>e. j_LockKey (fst e) = key) M)"

lemma onKey_simps [simp]:
  "onKey key {#} = {#}" "onKey key (M + N) = onKey key M + onKey key N"
  "onKey key (add_mset e M) = (if j_LockKey (fst e) = key then add_mset (snd e) (onKey key M) else onKey key M)"
  by (simp_all add: onKey_def)

lemma countDown_keys:
  assumes "\<forall>a \<in> set (mkeys m). mcount m a > 0" "mcount m b > 0"
  shows "\<forall>a \<in> set (mkeys (countDown b m)). mcount (countDown b m) a > 0"
  using assms by (auto simp: countDown_def mdel_keys mput_keys)

lemma withoutWaiter_mset:
  assumes "w \<in> set ws" "distinct (map lw_id ws)"
  shows "add_mset w (mset (withoutWaiter (lw_id w) ws)) = mset ws" and "distinct (map lw_id (withoutWaiter (lw_id w) ws))"
proof -
  have "ws = takeWhile (\<lambda>e. lw_id e \<noteq> lw_id w) ws @ w # tl (dropWhile (\<lambda>e. lw_id e \<noteq> lw_id w) ws)"
    using assms by (induction ws) (auto simp: image_iff)
  then show "add_mset w (mset (withoutWaiter (lw_id w) ws)) = mset ws"
    unfolding withoutWaiter_def by (metis mset.simps(2) mset_append union_mset_add_mset_right)
  then have "mset (map lw_id ws) = add_mset (lw_id w) (mset (map lw_id (withoutWaiter (lw_id w) ws)))"
    by (metis image_mset_add_mset mset_map)
  with assms(2) show "distinct (map lw_id (withoutWaiter (lw_id w) ws))"
    by (metis distinct.simps(2) mset.simps(2) mset_eq_imp_distinct_iff)
qed

lemma removeWaiter_waiters:
  assumes "w \<in> set (mindex (kl_waiters k) key)"
  shows "mindex (kl_waiters (removeWaiterLocked key (lw_id w) k)) =
    (\<lambda>h. if h = key then withoutWaiter (lw_id w) (mindex (kl_waiters k) key) else mindex (kl_waiters k) h)"
  using assms by (simp add: removeWaiterLocked_def)

lemma keyGrant_tables:
  "mindex (kl_active (keyGrant key w k)) =
     (\<lambda>h. if h = key then mput (lw_scope w) (mcount (mindex (kl_active k) key) (lw_scope w) + 1) (mindex (kl_active k) key)
          else mindex (kl_active k) h)"
  "kl_waiters (keyGrant key w k) = kl_waiters (removeWaiterLocked key (lw_id w) k)"
  by (simp_all add: keyGrant_def Let_def)

lemma keyRelease_tables:
  "mindex (kl_active (keyRelease key w k)) =
     (\<lambda>h. if h = key then countDown (lw_scope w) (mindex (kl_active k) key) else mindex (kl_active k) h)"
  "kl_waiters (keyRelease key w k) = kl_waiters k"
  by (simp_all add: keyRelease_def Let_def)

text \<open>The part of the invariant that speaks of one key, so that a step on a key leaves every other key's part as it was.\<close>

definition keyWf :: "string \<Rightarrow> keyLocks \<Rightarrow> lockWaiter multiset \<Rightarrow> lockWaiter multiset \<Rightarrow> bool" where
  "keyWf key k waiting running \<longleftrightarrow>
     keyed.exclusive key k
     \<and> (\<forall>a. int (count (image_mset lw_scope running) a) = mcount (mindex (kl_active k) key) a)
     \<and> (\<forall>a \<in> set (mkeys (mindex (kl_active k) key)). mcount (mindex (kl_active k) key) a > 0)
     \<and> mset (mindex (kl_waiters k) key) = waiting \<and> distinct (map lw_id (mindex (kl_waiters k) key))"

lemma keyWf_other:
  assumes "keyWf key k W R" "mindex (kl_active k') key = mindex (kl_active k) key" "mindex (kl_waiters k') key = mindex (kl_waiters k) key"
  shows "keyWf key k' W R"
  using assms(1) unfolding keyWf_def keyed.exclusive_def assms(2,3) .

lemma keyWf_join:
  assumes "keyWf key k W R" "lw_id w \<notin> lw_id ` set_mset W"
  shows "keyWf key (keyJoin key w k) (add_mset w W) R"
proof -
  have "set (mindex (kl_waiters k) key) = set_mset W" using assms(1) by (metis keyWf_def set_mset_mset)
  with assms show ?thesis unfolding keyWf_def keyed.exclusive_def by (simp add: keyJoin_def)
qed

lemma keyWf_leave:
  assumes "keyWf key k (add_mset w W) R"
  shows "keyWf key (removeWaiterLocked key (lw_id w) k) W R"
proof -
  have m: "mset (mindex (kl_waiters k) key) = add_mset w W" "distinct (map lw_id (mindex (kl_waiters k) key))"
    using assms unfolding keyWf_def by simp_all
  then have w: "w \<in> set (mindex (kl_waiters k) key)" by (metis set_mset_mset union_single_eq_member)
  from withoutWaiter_mset [OF w m(2)] m(1) show ?thesis
    using assms unfolding keyWf_def keyed.exclusive_def by (simp add: removeWaiter_waiters [OF w])
qed

lemma keyWf_grant:
  assumes wf: "keyWf key k (add_mset w W) R" and g: "keyTry key w k = Granted k'"
  shows "keyWf key k' W (add_mset w R)"
proof -
  have k': "k' = keyGrant key w k" using g by (simp add: keyTry_Granted)
  have nonneg: "mcount (mindex (kl_active k) key) (lw_scope w) \<ge> 0"
    using wf unfolding keyWf_def by (metis of_nat_0_le_iff)
  have ex: "keyed.exclusive key k'"
    using wf nonneg g unfolding keyWf_def by (intro keyed.exclusive_grant [of key k "lw_scope w" k']) blast+
  have "keyWf key (removeWaiterLocked key (lw_id w) k) W R" by (rule keyWf_leave [OF wf])
  then show ?thesis
    using ex nonneg unfolding keyWf_def k' by (auto simp: keyGrant_tables mput_keys)
qed

lemma keyWf_release:
  assumes wf: "keyWf key k W (add_mset w R)"
  shows "keyWf key (keyRelease key w k) W R"
proof -
  let ?active = "mindex (kl_active k) key"
  have count: "int (count (image_mset lw_scope (add_mset w R)) a) = mcount ?active a" for a
    using wf unfolding keyWf_def by blast
  have held: "mcount ?active (lw_scope w) > 0" using count [of "lw_scope w"] by simp
  have "keyed.exclusive key (keyRelease key w k)"
    using wf unfolding keyWf_def by (blast intro: keyed.exclusive_release [of key k "lw_scope w" "keyRelease key w k"])
  moreover have "\<forall>a \<in> set (mkeys (countDown (lw_scope w) ?active)). mcount (countDown (lw_scope w) ?active) a > 0"
    using wf held unfolding keyWf_def by (intro countDown_keys) simp_all
  moreover have "int (count (image_mset lw_scope R) a) = mcount (countDown (lw_scope w) ?active) a" for a
    using count [of a] by (cases "a = lw_scope w") (simp_all add: mcount_countDown)
  moreover have "mset (mindex (kl_waiters k) key) = W \<and> distinct (map lw_id (mindex (kl_waiters k) key))"
    using wf unfolding keyWf_def by blast
  ultimately show ?thesis unfolding keyWf_def keyRelease_tables by simp
qed

definition lockWf :: "Pool \<Rightarrow> bool" where
  "lockWf p \<longleftrightarrow>
     (\<forall>key. key \<noteq> [] \<longrightarrow> keyWf key (pl_locks p) (onKey key (pl_waiting p)) (onKey key (pl_running p)))
     \<and> (\<forall>e \<in># pl_waiting p. j_LockKey (fst e) \<noteq> [] \<and> lw_id (snd e) < pl_nextWaiter p)
     \<and> (\<forall>e \<in># pl_waiting p + pl_running p. lw_scope (snd e) = j_LockScope (fst e))"

lemma lockWf_same:
  assumes "lockWf p" "pl_locks p' = pl_locks p" "pl_waiting p' = pl_waiting p" "pl_running p' = pl_running p" "pl_nextWaiter p' = pl_nextWaiter p"
  shows "lockWf p'"
  using assms(1) unfolding lockWf_def assms(2-5) .

lemma lockWf_key: "lockWf p \<Longrightarrow> key \<noteq> [] \<Longrightarrow> keyWf key (pl_locks p) (onKey key (pl_waiting p)) (onKey key (pl_running p))"
  by (simp add: lockWf_def)

lemma removeWaiter_other: "h \<noteq> key \<Longrightarrow> mindex (kl_waiters (removeWaiterLocked key i k)) h = mindex (kl_waiters k) h"
  by (simp add: removeWaiterLocked_def)

lemma lockWf_acquire:
  assumes wf: "lockWf p"
  shows "lockWf (workerAcquire job p)"
proof (cases "j_LockKey job = []")
  case True
  with wf show ?thesis by (auto simp: lockWf_def workerAcquire_def Let_def waiterOf_def)
next
  case False
  have "lw_id (waiterOf job p) \<notin> lw_id ` set_mset (onKey key (pl_waiting p))" for key
    using wf by (auto simp: lockWf_def waiterOf_def onKey_def)
  then have "keyWf key (keyJoin (j_LockKey job) (waiterOf job p) (pl_locks p))
      (onKey key (add_mset (job, waiterOf job p) (pl_waiting p))) (onKey key (pl_running p))" if "key \<noteq> []" for key
    using wf that keyWf_join [of key "pl_locks p" _ _ "waiterOf job p"]
      keyWf_other [of key "pl_locks p" _ _ "keyJoin (j_LockKey job) (waiterOf job p) (pl_locks p)"]
    by (auto simp: lockWf_def keyJoin_def)
  with False wf show ?thesis
    by (auto simp: lockWf_def workerAcquire_def Let_def) (auto simp: waiterOf_def)
qed

lemma lockWf_abandon:
  assumes wf: "lockWf p" and e: "(job, w) \<in># pl_waiting p"
  shows "lockWf (workerAbandon job w err p)"
proof -
  from e obtain M where M: "pl_waiting p = add_mset (job, w) M" by (blast dest: multi_member_split)
  have "keyWf key (removeWaiterLocked (j_LockKey job) (lw_id w) (pl_locks p)) (onKey key M) (onKey key (pl_running p))" if "key \<noteq> []" for key
  proof (cases "key = j_LockKey job")
    case True
    with lockWf_key [OF wf that] M show ?thesis by (simp add: keyWf_leave)
  next
    case False
    then have "keyWf key (removeWaiterLocked (j_LockKey job) (lw_id w) (pl_locks p)) (onKey key (pl_waiting p)) (onKey key (pl_running p))"
      by - (rule keyWf_other [OF lockWf_key [OF wf that]], simp_all add: removeWaiter_other)
    with False M show ?thesis by simp
  qed
  with wf M show ?thesis by (simp add: lockWf_def workerAbandon_def keyLeave_def)
qed

lemma lockWf_turn:
  assumes wf: "lockWf p" and e: "(job, w) \<in># pl_waiting p"
  shows "lockWf (workerTry job w p)"
proof (cases "keyTry (j_LockKey job) w (pl_locks p)")
  case (Blocked blocker)
  then show ?thesis by (intro lockWf_same [OF wf]) (simp_all add: workerTry_def)
next
  case (Granted k)
  from e obtain M where M: "pl_waiting p = add_mset (job, w) M" by (blast dest: multi_member_split)
  have k: "k = keyGrant (j_LockKey job) w (pl_locks p)" using Granted by (simp add: keyTry_Granted)
  have "keyWf key k (onKey key M) (onKey key (add_mset (job, w) (pl_running p)))" if "key \<noteq> []" for key
  proof (cases "key = j_LockKey job")
    case True
    with lockWf_key [OF wf that] M keyWf_grant [OF _ Granted] show ?thesis by simp
  next
    case False
    then have "keyWf key k (onKey key (pl_waiting p)) (onKey key (pl_running p))"
      by - (rule keyWf_other [OF lockWf_key [OF wf that]], simp_all add: k keyGrant_tables removeWaiter_other)
    with False M show ?thesis by simp
  qed
  with wf M Granted show ?thesis by (simp add: lockWf_def workerTry_def)
qed

lemma lockWf_return:
  assumes wf: "lockWf p" and e: "(job, w) \<in># pl_running p"
  shows "lockWf (workerReturn job w outcome p)"
proof -
  from e obtain M where M: "pl_running p = add_mset (job, w) M" by (blast dest: multi_member_split)
  let ?k = "if j_LockKey job = [] then pl_locks p else keyRelease (j_LockKey job) w (pl_locks p)"
  have "keyWf key ?k (onKey key (pl_waiting p)) (onKey key M)" if "key \<noteq> []" for key
  proof (cases "key = j_LockKey job")
    case True
    with lockWf_key [OF wf that] that M show ?thesis by (simp add: keyWf_release)
  next
    case False
    then have "keyWf key ?k (onKey key (pl_waiting p)) (onKey key (pl_running p))"
      by - (rule keyWf_other [OF lockWf_key [OF wf that]], simp_all add: keyRelease_tables)
    with False M show ?thesis by simp
  qed
  with wf M have "lockWf (p\<lparr>pl_locks := ?k, pl_running := pl_running p - {#(job, w)#}, pl_finishing := add_mset job (pl_finishing p)\<rparr>)"
    by (simp add: lockWf_def)
  then show ?thesis by (rule lockWf_same) (simp_all add: workerReturn_def Let_def)
qed

lemma lockWf_step: "pstep p p' \<Longrightarrow> lockWf p \<Longrightarrow> lockWf p'"
proof (induction rule: pstep.induct)
  case (acquire job p)
  then show ?case by (simp add: lockWf_acquire)
next
  case (turn job w p)
  then show ?case by (simp add: lockWf_turn)
next
  case (abandon job w p err)
  then show ?case by (simp add: lockWf_abandon)
next
  case (return job w p outcome)
  then show ?case by (simp add: lockWf_return)
qed (erule lockWf_same;
    simp add: submitMark_def submitOffer_def workerPop_def case_prod_beta Let_def workerStopped_def finishComplete_def dropComplete_def
      completeID_def poolRemoveScope_def DiscardPending_def poolClose_def Start_def Resize_def split: popResult.split)+

lemma keyWf_New: "keyWf key newKeyLocks {#} {#}"
  unfolding keyWf_def keyed.exclusive_def newKeyLocks_def by (simp add: mindex_def mcount_def mkeys_def)

lemma lockWf_New: "NewPool name workers cap = Inr p \<Longrightarrow> lockWf p"
  by (auto simp: NewPool_def result_iffs lockWf_def keyWf_New split: if_splits)

lemma lockWf_reachable: "preachable p0 p \<Longrightarrow> lockWf p0 \<Longrightarrow> lockWf p"
  by (induction rule: preachable.induct) (auto intro: lockWf_step)

lemma running_disjoint:
  assumes wf: "lockWf p" and two: "pl_running p = add_mset (j1, w1) (add_mset (j2, w2) M)"
    and key: "j_LockKey j1 = j_LockKey j2" "j_LockKey j1 \<noteq> []"
  shows "\<not> overlappingLockScope (j_LockScope j1) (j_LockScope j2)"
proof
  assume overlap: "overlappingLockScope (j_LockScope j1) (j_LockScope j2)"
  let ?held = "\<lambda>a. nat (mcount (mindex (kl_active (pl_locks p)) (j_LockKey j1)) a)"
  have s: "lw_scope w1 = j_LockScope j1" "lw_scope w2 = j_LockScope j2" using wf two by (simp_all add: lockWf_def)
  from lockWf_key [OF wf key(2)] have k: "keyed.exclusive (j_LockKey j1) (pl_locks p)"
    and c: "int (count (image_mset lw_scope (onKey (j_LockKey j1) (pl_running p))) a) = mcount (mindex (kl_active (pl_locks p)) (j_LockKey j1)) a" for a
    unfolding keyWf_def by blast+
  have n: "(if a = j_LockScope j1 then 1 else 0) + (if a = j_LockScope j2 then 1 else 0) \<le> mcount (mindex (kl_active (pl_locks p)) (j_LockKey j1)) a" for a
    unfolding c [symmetric] two using key s by simp
  have held: "?held (j_LockScope j1) > 0" "?held (j_LockScope j2) > 0"
    using n [of "j_LockScope j1"] n [of "j_LockScope j2"] by (auto split: if_splits)
  with k overlap have same: "j_LockScope j1 = j_LockScope j2" unfolding keyed.exclusive_def by blast
  have "?held (j_LockScope j1) \<ge> 2" using n [of "j_LockScope j1"] same by simp
  moreover have "?held (j_LockScope j1) \<le> 1" using k unfolding keyed.exclusive_def by blast
  ultimately show False by simp
qed


subsection \<open>Properties\<close>

text \<open>
  C17: However submissions, workers, cancellations and removals interleave, an ID is known to the pool exactly while one
  job with that ID is in flight, and never two at once, so equivalent work is neither run twice concurrently nor lost.
\<close>

theorem one_run_per_job:
  assumes "NewPool name workers cap = Inr p0" and "preachable p0 p"
  shows "size (filter_mset (\<lambda>job. j_ID job = i) (poolJobs p)) = (if knownID p i then 1 else 0)"
proof -
  have "knownOnce p" by (rule knownOnce_reachable [OF assms(2) knownOnce_New [OF assms(1)]])
  then have "count (image_mset j_ID (poolJobs p)) i = (if knownID p i then 1 else 0)" by (simp add: knownOnce_def)
  moreover have "size (filter_mset (\<lambda>job. j_ID job = i) M) = count (image_mset j_ID M) i" for M
    by (induction M) auto
  ultimately show ?thesis by metis
qed

definition exLocked :: "string \<Rightarrow> string \<Rightarrow> Job" where
  "exLocked i scope = (exJob i i)\<lparr>j_LockKey := ''k'', j_LockScope := scope, j_Drop := True\<rparr>"

definition enterPool :: "Job \<Rightarrow> Pool \<Rightarrow> Pool" where
  "enterPool job p = workerAcquire job (snd (workerPop (snd (submitOffer job (snd (submitMark job p))))))"

definition exPool :: Pool where
  "exPool = \<lparr>pl_name = ''transfer'', pl_workers = 2, pl_queue = exQueue, pl_locks = newKeyLocks, pl_known = [], pl_started = False,
     pl_stops = 0, pl_report = [], pl_nextWaiter = 0, pl_submitting = {#}, pl_taken = {#}, pl_waiting = {#},
     pl_running = {#}, pl_finishing = {#}, pl_dropping = {#}\<rparr>"

definition exWaiting :: Pool where
  "exWaiting = enterPool (exLocked ''b'' ''tank/b'') (enterPool (exLocked ''a'' ''tank/a'') exPool)"

definition exWaiter :: "nat \<Rightarrow> Job \<Rightarrow> lockWaiter" where
  "exWaiter n job = \<lparr>lw_id = n, lw_scope = j_LockScope job, lw_holder = j_ID job\<rparr>"

definition exRunning :: Pool where
  "exRunning = workerTry (exLocked ''b'' ''tank/b'') (exWaiter 1 (exLocked ''b'' ''tank/b''))
     (workerTry (exLocked ''a'' ''tank/a'') (exWaiter 0 (exLocked ''a'' ''tank/a'')) exWaiting)"

lemma exPool_New: "NewPool ''transfer'' 2 4 = Inr exPool"
  by (simp add: NewPool_def exQueue_New exPool_def)

lemma enterPool_reachable:
  assumes "preachable p0 p" "job \<in># pl_submitting (snd (submitMark job p))"
    "job \<in># pl_taken (snd (workerPop (snd (submitOffer job (snd (submitMark job p))))))"
  shows "preachable p0 (enterPool job p)"
  unfolding enterPool_def
  by (rule preachable.step [OF preachable.step [OF preachable.step [OF preachable.step [OF assms(1) pstep.mark]
            pstep.offer [OF assms(2)]] pstep.take] pstep.acquire [OF assms(3)]])

lemma exWaiting_reachable: "preachable exPool exWaiting"
  unfolding exWaiting_def by (intro enterPool_reachable preachable.initial; code_simp)

lemma exRunning_reachable: "preachable exPool exRunning"
proof -
  have "(exLocked ''a'' ''tank/a'', exWaiter 0 (exLocked ''a'' ''tank/a'')) \<in># pl_waiting exWaiting"
    "(exLocked ''b'' ''tank/b'', exWaiter 1 (exLocked ''b'' ''tank/b''))
       \<in># pl_waiting (workerTry (exLocked ''a'' ''tank/a'') (exWaiter 0 (exLocked ''a'' ''tank/a'')) exWaiting)"
    by code_simp+
  then show ?thesis
    unfolding exRunning_def by (intro preachable.step [OF preachable.step [OF exWaiting_reachable pstep.turn] pstep.turn])
qed

theorem one_run_per_job_witness: "size (filter_mset (\<lambda>job. j_ID job = ''a'') (poolJobs exRunning)) = 1"
proof -
  have "knownID exRunning ''a''" by code_simp
  with one_run_per_job [OF exPool_New exRunning_reachable, of "''a''"] show ?thesis by simp
qed

text \<open>C18: Two jobs that run at the same time on one lock key never hold overlapping scopes of it.\<close>

theorem running_jobs_disjoint:
  assumes "NewPool name workers cap = Inr p0" and "preachable p0 p"
    and "pl_running p = add_mset (j1, w1) (add_mset (j2, w2) M)" and "j_LockKey j1 = j_LockKey j2" and "j_LockKey j1 \<noteq> []"
  shows "\<not> overlappingLockScope (j_LockScope j1) (j_LockScope j2)"
  by (rule running_disjoint [OF lockWf_reachable [OF assms(2) lockWf_New [OF assms(1)]] assms(3-5)])

theorem running_jobs_disjoint_witness:
  "pl_running exRunning = {#(exLocked ''a'' ''tank/a'', exWaiter 0 (exLocked ''a'' ''tank/a'')),
      (exLocked ''b'' ''tank/b'', exWaiter 1 (exLocked ''b'' ''tank/b''))#}
   \<and> \<not> overlappingLockScope ''tank/a'' ''tank/b''"
proof -
  have r: "pl_running exRunning = {#(exLocked ''a'' ''tank/a'', exWaiter 0 (exLocked ''a'' ''tank/a'')),
      (exLocked ''b'' ''tank/b'', exWaiter 1 (exLocked ''b'' ''tank/b''))#}"
    by code_simp
  from running_jobs_disjoint [OF exPool_New exRunning_reachable r] r show ?thesis by (simp add: exLocked_def)
qed



end
