(* ===== verification/Lifecycle_Inactive.thy ===== *)
theory Lifecycle_Inactive
  imports Lifecycle_Service
begin

section \<open>Inactive source roots\<close>

text \<open>
  \<open>internal/lifecycle/inactive.go\<close>, up to the transition of the marker: a root whose policy is switched off gets a durable
  marker with the time it was first seen inactive, bound to the dataset's GUID, its lineage and this installation, and the
  marker goes when the root is active again. Once the grace period has passed the root is due for retirement. Times are
  instants in UTC. A marker's time must be the canonical text of the instant it parses to, so what
  \<open>time.Parse\<close> would accept beyond the strict form does not matter. Functions that return a plan and an error return both.
\<close>

subsection \<open>State\<close>

abbreviation inactiveMarkerVersion :: int where "inactiveMarkerVersion \<equiv> 1"
abbreviation InactiveProperty :: string where "InactiveProperty \<equiv> StateNamespace @ ''inactive''"

record InactiveMarker =
  im_Version :: int
  im_Since :: string
  im_DatasetGUID :: nat
  im_Lineage :: string
  im_Owner :: string

record InactivePlan =
  ip_Dataset :: string
  ip_Active :: bool
  ip_Marker :: "InactiveMarker option"
  ip_Action :: string
  ip_Deadline :: "instant option"
  ip_Due :: bool
  ip_Automatic :: bool
  ip_Applied :: bool

definition newInactivePlan :: "string \<Rightarrow> bool \<Rightarrow> InactivePlan" where
  "newInactivePlan dataset active =
     \<lparr>ip_Dataset = dataset, ip_Active = active, ip_Marker = None, ip_Action = [], ip_Deadline = None,
      ip_Due = False, ip_Automatic = False, ip_Applied = False\<rparr>"

subsection \<open>Reading the marker\<close>

fun exactGUID :: "string \<Rightarrow> nat \<Rightarrow> Object list \<Rightarrow> nat result" where
  "exactGUID dataset guid [] = (if guid = 0 then Inl (Errorf ''inactive source dataset is missing'' []) else Inr guid)"
| "exactGUID dataset guid (ob # obs) =
     (if ob_Name ob \<noteq> dataset \<or> (ob_Type ob \<noteq> Filesystem \<and> ob_Type ob \<noteq> Volume) then exactGUID dataset guid obs
      else if guid \<noteq> 0 \<or> ob_GUID ob = 0 then Inl (Errorf ''inactive source identity is ambiguous or incomplete'' [])
      else exactGUID dataset (ob_GUID ob) obs)"

definition exactDatasetGUID :: "State \<Rightarrow> string \<Rightarrow> nat result" where
  "exactDatasetGUID state dataset = exactGUID dataset 0 (st_Objects state)"

definition storeInt :: "json \<Rightarrow> int \<Rightarrow> int option" where
  "storeInt v old = (case v of JNum lit \<Rightarrow> Atoi lit | JNull \<Rightarrow> Some old | _ \<Rightarrow> None)"

definition storeMarkerField :: "string \<Rightarrow> json \<Rightarrow> InactiveMarker \<Rightarrow> InactiveMarker option" where
  "storeMarkerField f v m =
     (if f = ''version'' then map_option (\<lambda>x. m\<lparr>im_Version := x\<rparr>) (storeInt v (im_Version m))
      else if f = ''since'' then map_option (\<lambda>x. m\<lparr>im_Since := x\<rparr>) (storeString v (im_Since m))
      else if f = ''dataset_guid'' then map_option (\<lambda>x. m\<lparr>im_DatasetGUID := x\<rparr>) (storeUint64 v (im_DatasetGUID m))
      else if f = ''lineage'' then map_option (\<lambda>x. m\<lparr>im_Lineage := x\<rparr>) (storeString v (im_Lineage m))
      else map_option (\<lambda>x. m\<lparr>im_Owner := x\<rparr>) (storeString v (im_Owner m)))"

abbreviation markerFields :: "string list" where
  "markerFields \<equiv> [''version'', ''since'', ''dataset_guid'', ''lineage'', ''owner'']"

text \<open>The second \<open>Decode\<close> reports the end of input exactly when only white space is left.\<close>

definition decodeMarkerValue :: "string \<Rightarrow> InactiveMarker option" where
  "decodeMarkerValue v =
     bindO (unmarshalValue v) (\<lambda>j. decodeStruct True markerFields storeMarkerField j
       \<lparr>im_Version = 0, im_Since = [], im_DatasetGUID = 0, im_Lineage = [], im_Owner = []\<rparr>)"

fun markerRow :: "string \<Rightarrow> InactiveMarker option \<Rightarrow> Property list \<Rightarrow> InactiveMarker option result" where
  "markerRow dataset marker [] = Inr marker"
| "markerRow dataset marker (p # ps) =
     (if p_Dataset p \<noteq> dataset \<or> p_Name p \<noteq> InactiveProperty \<or> p_Source p \<noteq> SourceLocal then markerRow dataset marker ps
      else if marker \<noteq> None then Inl (Errorf ''inactive marker must be unambiguous'' [])
      else
        (case decodeMarkerValue (p_Value p) of
           None \<Rightarrow> Inl (Errorf ''invalid inactive marker'' [])
         | Some m \<Rightarrow> markerRow dataset (Some m) ps))"

definition decodeInactiveMarker :: "State \<Rightarrow> string \<Rightarrow> InactiveMarker option result" where
  "decodeInactiveMarker state dataset = markerRow dataset None (st_Properties state)"

definition validateInactiveMarker :: "InactiveMarker \<Rightarrow> nat \<Rightarrow> string \<Rightarrow> string \<Rightarrow> instant result" where
  "validateInactiveMarker marker guid lineage installation =
     (let e = Errorf ''inactive marker does not match current source authority'' [] in
      case ParseRFC3339 (im_Since marker) of
        None \<Rightarrow> Inl e
      | Some since \<Rightarrow>
          if im_Version marker \<noteq> inactiveMarkerVersion \<or> im_DatasetGUID marker \<noteq> guid \<or> im_Lineage marker \<noteq> lineage
             \<or> im_Owner marker \<noteq> installation \<or> im_Since marker \<noteq> FormatRFC3339 since
          then Inl e
          else Inr since)"

definition encodeMarker :: "InactiveMarker \<Rightarrow> string" where
  "encodeMarker m = marshalStruct
     [(''version'', showInt (im_Version m)), (''since'', quoteString (im_Since m)), (''dataset_guid'', showNat (im_DatasetGUID m)),
      (''lineage'', quoteString (im_Lineage m)), (''owner'', quoteString (im_Owner m))]"

subsection \<open>The plan\<close>

definition inactivePlan :: "State \<Rightarrow> string \<Rightarrow> string \<Rightarrow> bool \<Rightarrow> instant \<Rightarrow> int \<Rightarrow> InactivePlan \<times> go_error option" where
  "inactivePlan state dataset installation active observedAt grace =
     (let plan = (newInactivePlan dataset active)\<lparr>ip_Automatic := (grace > 0)\<rparr> in
      case validateDataset dataset of
        Some e \<Rightarrow> (plan, Some e)
      | None \<Rightarrow>
      if IsZero observedAt \<or> Year observedAt < 1 \<or> Year observedAt > 9999 \<or> grace < 0
      then (plan, Some (Errorf ''valid inactive observation time and nonnegative grace period required'' []))
      else
      (case decodeInactiveMarker state dataset of
         Inl e \<Rightarrow> (plan, Some e)
       | Inr marker \<Rightarrow>
      if marker = None \<and> active then (plan, None)
      else
      (case RootAuthority state dataset installation of
         Inl e \<Rightarrow> (plan, Some e)
       | Inr lineage \<Rightarrow>
      (case exactDatasetGUID state dataset of
         Inl e \<Rightarrow> (plan, Some e)
       | Inr guid \<Rightarrow>
      (case marker of
         None \<Rightarrow>
           (plan\<lparr>ip_Marker := Some \<lparr>im_Version = inactiveMarkerVersion, im_Since = FormatRFC3339 observedAt, im_DatasetGUID = guid,
                                    im_Lineage = lineage, im_Owner = installation\<rparr>,
                 ip_Action := ''set-inactive-marker'',
                 ip_Deadline := (if grace > 0 then Some (observedAt + grace) else None)\<rparr>, None)
       | Some m \<Rightarrow>
           (case validateInactiveMarker m guid lineage installation of
              Inl e \<Rightarrow> (plan, Some e)
            | Inr since \<Rightarrow>
                (let plan = plan\<lparr>ip_Marker := Some m\<rparr> in
                 if active then (plan\<lparr>ip_Action := ''clear-inactive-marker''\<rparr>, None)
                 else if grace > 0
                 then (plan\<lparr>ip_Deadline := Some (since + grace), ip_Due := (since + grace \<le> observedAt)\<rparr>, None)
                 else (plan, None))))))))"

fun activeRow :: "string \<Rightarrow> string \<Rightarrow> string \<Rightarrow> string list \<Rightarrow> Property list \<Rightarrow> bool result" where
  "activeRow dataset nearest v seen [] = Inr (v = ''on'')"
| "activeRow dataset nearest v seen (p # ps) =
     (if p_Name p \<noteq> Namespace @ ''enabled'' \<or> p_Source p \<noteq> SourceLocal
         \<or> (p_Dataset p \<noteq> dataset \<and> \<not> HasPrefix dataset (p_Dataset p @ ''/''))
      then activeRow dataset nearest v seen ps
      else if p_Dataset p \<in> set seen \<or> (p_Value p \<noteq> ''on'' \<and> p_Value p \<noteq> ''off'')
      then Inl (Errorf ''inactive source activation is ambiguous or invalid'' [])
      else if length (p_Dataset p) > length nearest then activeRow dataset (p_Dataset p) (p_Value p) (p_Dataset p # seen) ps
      else activeRow dataset nearest v (p_Dataset p # seen) ps)"

definition locallyActive :: "Property list \<Rightarrow> string \<Rightarrow> bool result" where
  "locallyActive properties dataset = activeRow dataset [] ''off'' [] properties"

subsection \<open>The transition\<close>

definition markerTransition :: "'w Executor \<Rightarrow> string \<Rightarrow> InactivePlan \<Rightarrow> ('w, unit) zio" where
  "markerTransition e dataset plan =
     (if ip_Action plan = ''set-inactive-marker''
      then zSetProperties e dataset [(InactiveProperty, case ip_Marker plan of Some m \<Rightarrow> encodeMarker m | None \<Rightarrow> ''null'')]
      else if ip_Action plan = ''clear-inactive-marker'' then zInheritProperty e dataset InactiveProperty
      else ioFail (Errorf ''unknown inactive transition'' []))"

definition ReconcileInactive :: "'w Executor \<Rightarrow> string \<Rightarrow> string \<Rightarrow> bool \<Rightarrow> instant \<Rightarrow> int \<Rightarrow> bool
    \<Rightarrow> ('w, InactivePlan \<times> go_error option) zio" where
  "ReconcileInactive e installation dataset active observedAt grace apply =
     ioTry (lock dataset (zInspectState e dataset False)) (\<lambda>err. ioReturn (newInactivePlan dataset active, Some err)) (\<lambda>state.
     (case inactivePlan state dataset installation active observedAt grace of
        (plan, err) \<Rightarrow>
      if err \<noteq> None \<or> \<not> apply \<or> ip_Action plan = [] then ioReturn (plan, err)
      else
     ioTry (unchanged e dataset False state) (\<lambda>err. ioReturn (plan, Some err)) (\<lambda>_.
     ioTry (markerTransition e dataset plan) (\<lambda>err. ioReturn (plan, Some err)) (\<lambda>_.
     ioTry (zInspectState e dataset False) (\<lambda>err. ioReturn (plan, Some err)) (\<lambda>after.
     (case inactivePlan after dataset installation active observedAt grace of
        (verified, err) \<Rightarrow>
      if err \<noteq> None \<or> ip_Action verified \<noteq> [] \<or> datasetObjects state \<noteq> datasetObjects after
      then ioReturn (plan, Some (Errorf ''inactive marker transition could not be verified'' []))
      else ioReturn (plan\<lparr>ip_Applied := True\<rparr>, None)))))))"

subsection \<open>The marker reads back\<close>

lemma isHex_ASCII: "isHex c \<Longrightarrow> isASCII c"
  by (auto simp: isHex_def isDigit_def isASCII_def)

lemma Valid_ASCII: "Valid v \<Longrightarrow> list_all isASCII v"
proof -
  have "list_all (\<lambda>p. \<forall>c. p c \<longrightarrow> isASCII c) uuidPattern"
    using isHex_ASCII by (auto simp: uuidPattern_def Let_def list_all_iff isASCII_def)
  then show "Valid v \<Longrightarrow> list_all isASCII v" by (auto simp: Valid_def list_all2_conv_all_nth list_all_length)
qed

lemma isDigit_ASCII: "isDigit c \<Longrightarrow> isASCII c"
  by (simp add: isDigit_def isASCII_def)

lemma padInt_ASCII: "0 \<le> i \<Longrightarrow> list_all isASCII (padInt w i)"
  using showNat_digits [of "nat i"] by (auto simp: padInt_def padNat_def list_all_iff intro: isDigit_ASCII) (simp add: isASCII_def)

lemma appendNano_ASCII: "0 \<le> n \<Longrightarrow> list_all isASCII (appendNano n)"
  using padInt_ASCII [of n 9] by (auto simp: appendNano_def list_all_iff dest: set_dropWhileD) (simp add: isASCII_def)

lemma FormatRFC3339_ASCII:
  assumes "0 \<le> Year t"
  shows "list_all isASCII (FormatRFC3339 t)"
proof -
  obtain y m d where dt: "dateOf t = (y, m, d)" by (cases "dateOf t") auto
  have "0 \<le> y" "0 \<le> m" "0 \<le> d" using dateOf_date [OF dt] assms by auto
  moreover have "0 \<le> t mod DayNanos div Second" by (simp add: pos_imp_zdiv_nonneg_iff)
  moreover have "isASCII (CHR ''-'')" "isASCII (CHR '':'')" "isASCII (CHR ''T'')" "isASCII (CHR ''Z'')"
    by (simp_all add: isASCII_def)
  ultimately show ?thesis
    by (simp add: FormatRFC3339_def dt Let_def padInt_ASCII appendNano_ASCII pos_imp_zdiv_nonneg_iff)
qed

lemma decodeMarkerValue_encodeMarker:
  assumes "im_Version m = 1" and "list_all isASCII (im_Since m)" and "im_DatasetGUID m < 2 ^ 64"
    and "list_all isASCII (im_Lineage m)" and "list_all isASCII (im_Owner m)"
  shows "decodeMarkerValue (encodeMarker m) = Some m"
proof -
  define fs where "fs = [(''version'', showNat 1, JNum (showNat 1)), (''since'', quoteString (im_Since m), JStr (concat (map escapeChar (im_Since m)))),
    (''dataset_guid'', showNat (im_DatasetGUID m), JNum (showNat (im_DatasetGUID m))),
    (''lineage'', quoteString (im_Lineage m), JStr (concat (map escapeChar (im_Lineage m)))),
    (''owner'', quoteString (im_Owner m), JStr (concat (map escapeChar (im_Owner m))))]"
  have ascii: "list_all (list_all isASCII) markerFields" by code_simp
  have ok: "list_all (\<lambda>(k, v, j). list_all isASCII k \<and> scansTo v j) fs" "fs \<noteq> []"
    "list_all (\<lambda>(k, v, j). k \<in> set markerFields \<and> list_all isASCII k) fs"
    using assms ascii by (simp_all add: fs_def scansTo_string scansTo_nat)
  have one: "showInt 1 = showNat 1" "Atoi (showNat 1) = Some 1" by code_simp+
  have enc: "encodeMarker m = marshalStruct (map (\<lambda>(k, v, j). (k, v)) fs)"
    using assms one(1) by (simp add: encodeMarker_def fs_def)
  have "foldl (\<lambda>acc (k, v, j). bindO acc (storeMarkerField k j)) (Some \<lparr>im_Version = 0, im_Since = [], im_DatasetGUID = 0, im_Lineage = [], im_Owner = []\<rparr>) fs
    = Some m"
    using assms by (simp add: fs_def storeMarkerField_def storeString_def storeInt_def storeUint64_def quoteString_scans ParseUint64_def one [unfolded One_nat_def])
  then show ?thesis
    by (simp add: decodeMarkerValue_def unmarshalValue_def enc decode_marshal [OF ok(2,1)] decodeStruct_fields [OF ok(3)] skipSpace_def)
qed

lemma markerRow_append:
  "markerRow dataset marker (ps @ qs) = bindE (markerRow dataset marker ps) (\<lambda>m. markerRow dataset m qs)"
  by (induction dataset marker ps rule: markerRow.induct) (auto split: option.splits)

lemma inactive_names: "InactiveProperty \<noteq> OwnerProperty" "InactiveProperty \<noteq> LineageProperty" "InactiveProperty \<noteq> VersionProperty"
  by (simp_all add: LineageProperty_def)

lemma RootAuthority_other:
  assumes "p_Name p \<notin> {OwnerProperty, LineageProperty, VersionProperty}"
  shows "RootAuthority (state\<lparr>st_Properties := st_Properties state @ [p]\<rparr>) root installation = Inr lineage \<longleftrightarrow> RootAuthority state root installation = Inr lineage"
proof -
  let ?s = "state\<lparr>st_Properties := st_Properties state @ [p]\<rparr>"
  have "versionRows root 0 (st_Properties state @ [p]) = versionRows root 0 (st_Properties state)"
    using assms by (subst (1 2) versionRows_filter) simp
  then have "CurrentState ?s root = CurrentState state root" by (simp add: CurrentState_def StateVersion_def)
  moreover have "markerRows root (st_Properties ?s) = markerRows root (st_Properties state)"
    using assms by (simp add: markerRows_def)
  ultimately show ?thesis by (simp add: RootAuthority_iff receivedValue_def)
qed

lemma inactivePlan_sets:
  assumes "inactivePlan state dataset installation active observedAt grace = (plan, None)" and "ip_Action plan = ''set-inactive-marker''"
  obtains lineage guid where "validateDataset dataset = None" "\<not> IsZero observedAt" "1 \<le> Year observedAt" "Year observedAt \<le> 9999" "\<not> active"
    "decodeInactiveMarker state dataset = Inr None" "RootAuthority state dataset installation = Inr lineage" "exactDatasetGUID state dataset = Inr guid"
    "ip_Marker plan = Some \<lparr>im_Version = 1, im_Since = FormatRFC3339 observedAt, im_DatasetGUID = guid, im_Lineage = lineage, im_Owner = installation\<rparr>"
  using assms that
  by (auto simp: inactivePlan_def newInactivePlan_def Let_def split: option.splits sum.splits if_splits)

definition stored :: "string \<Rightarrow> string \<Rightarrow> string \<Rightarrow> State \<Rightarrow> State" where
  "stored dataset name v state = state\<lparr>st_Properties := st_Properties state @ [\<lparr>p_Dataset = dataset, p_Name = name, p_Value = v, p_Source = SourceLocal\<rparr>]\<rparr>"

text \<open>
  C39: The inactive marker keeps the time it was set. When a plan sets the marker at one observation, then with the marker stored every later
  observation reads back the same marker, asks for no other transition while the root stays inactive and asks to clear the marker
  once it is active, and finds the root due for retirement exactly when the grace period in force has passed since the first observation.
\<close>

theorem inactive_marker_roundtrip:
  assumes plan: "inactivePlan state dataset installation False first grace = (plan, None)"
    and set: "ip_Action plan = ''set-inactive-marker''" and m: "ip_Marker plan = Some m" and guid: "im_DatasetGUID m < 2 ^ 64"
    and now: "\<not> IsZero now" "1 \<le> Year now" "Year now \<le> 9999" and grace': "0 \<le> grace'"
  shows "inactivePlan (stored dataset InactiveProperty (encodeMarker m) state) dataset installation active now grace' =
    (\<lparr>ip_Dataset = dataset, ip_Active = active, ip_Marker = Some m, ip_Action = (if active then ''clear-inactive-marker'' else []),
      ip_Deadline = (if \<not> active \<and> 0 < grace' then Some (first + grace') else None),
      ip_Due = (\<not> active \<and> 0 < grace' \<and> first + grace' \<le> now), ip_Automatic = (0 < grace'), ip_Applied = False\<rparr>, None)"
proof -
  obtain lineage g where f: "validateDataset dataset = None" "1 \<le> Year first" "Year first \<le> 9999"
    "decodeInactiveMarker state dataset = Inr None" "RootAuthority state dataset installation = Inr lineage" "exactDatasetGUID state dataset = Inr g"
    and mk: "m = \<lparr>im_Version = 1, im_Since = FormatRFC3339 first, im_DatasetGUID = g, im_Lineage = lineage, im_Owner = installation\<rparr>"
    using plan set m by (elim inactivePlan_sets) auto
  let ?s = "stored dataset InactiveProperty (encodeMarker m) state"
  have "Valid lineage" "Valid installation" using f(5) by (simp_all add: RootAuthority_iff)
  then have "decodeMarkerValue (encodeMarker m) = Some m"
    using guid f(2) by (intro decodeMarkerValue_encodeMarker) (simp_all add: mk Valid_ASCII FormatRFC3339_ASCII)
  then have dec: "decodeInactiveMarker ?s dataset = Inr (Some m)"
    using f(4) by (simp add: decodeInactiveMarker_def stored_def markerRow_append)
  have auth: "RootAuthority ?s dataset installation = Inr lineage"
    unfolding stored_def using f(5) inactive_names by (subst RootAuthority_other) simp_all
  have obj: "exactDatasetGUID ?s dataset = Inr g" using f(6) by (simp add: exactDatasetGUID_def stored_def)
  have valid: "validateInactiveMarker m g lineage installation = Inr first"
    using f(2,3) by (simp add: validateInactiveMarker_def mk ParseRFC3339_FormatRFC3339)
  show ?thesis unfolding inactivePlan_def Let_def f(1) option.case dec sum.case auth obj valid
    using now grace' by (simp add: newInactivePlan_def)
qed

theorem inactive_marker_roundtrip_witness:
  "\<exists>m. ip_Marker (fst (inactivePlan exTank ''tank'' exInstallation False DayNanos 0)) = Some m
     \<and> ip_Due (fst (inactivePlan (stored ''tank'' InactiveProperty (encodeMarker m) exTank) ''tank'' exInstallation False
         (3 * DayNanos) (2 * DayNanos)))"
proof -
  have ex: "snd (inactivePlan exTank ''tank'' exInstallation False DayNanos 0) = None"
    "ip_Action (fst (inactivePlan exTank ''tank'' exInstallation False DayNanos 0)) = ''set-inactive-marker''"
    "map_option im_DatasetGUID (ip_Marker (fst (inactivePlan exTank ''tank'' exInstallation False DayNanos 0))) = Some 7"
    by code_simp+
  obtain m where m: "ip_Marker (fst (inactivePlan exTank ''tank'' exInstallation False DayNanos 0)) = Some m" "im_DatasetGUID m = 7"
    using ex(3) by auto
  have t: "\<not> IsZero (3 * DayNanos)" "1 \<le> Year (3 * DayNanos)" "Year (3 * DayNanos) \<le> 9999" by code_simp+
  have plan: "inactivePlan exTank ''tank'' exInstallation False DayNanos 0
    = (fst (inactivePlan exTank ''tank'' exInstallation False DayNanos 0), None)"
    using ex(1) by (metis prod.collapse)
  show ?thesis
    using m inactive_marker_roundtrip [OF plan ex(2) m(1) _ t, of "2 * DayNanos" False] by simp
qed

end
