(* ===== verification/Lifecycle_Clean.thy ===== *)
theory Lifecycle_Clean
  imports Lifecycle_References Lifecycle_Inactive
begin

section \<open>Cleaning, forgetting and retirement\<close>

text \<open>
  \<open>internal/lifecycle/clean.go\<close>, \<open>forget.go\<close> and the retirement of \<open>inactive.go\<close>: planning the removal of what this program keeps on
  a dataset, and carrying the plan out one command at a time. Blockers and warnings are kept as messages, each its
  format with its arguments, in the order they are found and without repeats, where the source sorts their texts; only whether there are any
  matters to the code. Maps are visited in key order. The checks of \<open>CleanSafety\<close> are the caller's: operations on the world that
  may fail. A plan and an error are returned together. Sorting actions compares rank, object and property, and actions that agree on
  those keep their order.
\<close>

subsection \<open>Plans\<close>

record 'w CleanSafety =
  sf_Quiescent :: "string list \<Rightarrow> ('w, unit) zio"
  sf_CheckTarget :: "string \<Rightarrow> string \<Rightarrow> ('w, unit) zio"

record CleanOptions =
  co_Recursive :: bool
  co_DestroyOwnedSnapshots :: bool
  co_ForgetTargets :: "string list"

definition optionSubtree :: "CleanOptions \<Rightarrow> bool" where
  "optionSubtree options = (co_Recursive options \<or> co_ForgetTargets options \<noteq> [])"

record CleanAction =
  ca_Operation :: string
  ca_Object :: string
  ca_Property :: string
  ca_GUID :: nat

record CleanPlan =
  cp_Dataset :: string
  cp_Options :: CleanOptions
  cp_Actions :: "CleanAction list"
  cp_Blockers :: "go_error list"
  cp_Warnings :: "go_error list"
  cp_Applied :: nat

record cleanMode =
  cm_Retirement :: bool
  cm_Now :: instant
  cm_Grace :: int

definition newCleanPlan :: "string \<Rightarrow> CleanOptions \<Rightarrow> CleanPlan" where
  "newCleanPlan dataset options =
     \<lparr>cp_Dataset = dataset, cp_Options = options, cp_Actions = [], cp_Blockers = [], cp_Warnings = [], cp_Applied = 0\<rparr>"

definition actionRank :: "CleanAction \<Rightarrow> nat" where
  "actionRank a =
     (if ca_Operation a = ''destroy-bookmark'' then 0
      else if ca_Operation a = ''release'' then 1
      else if ca_Operation a = ''destroy-snapshot'' then 2
      else if CHR ''@'' \<in> set (ca_Object a) then 3
      else if ca_Property a = LineageProperty then 5
      else 4)"

definition sortCleanActions :: "CleanAction list \<Rightarrow> CleanAction list" where
  "sortCleanActions actions = sort_key (\<lambda>a. (actionRank a, ca_Object a, ca_Property a)) actions"

text \<open>What the loops of a plan collect: actions, blockers, and the holds and bookmarks that a proof accounts for.\<close>

record cleanWork =
  cw_Actions :: "CleanAction list"
  cw_Blockers :: "go_error list"
  cw_Holds :: "string list"
  cw_Bookmarks :: "string list"
  cw_Lineages :: "(string, string) gomap"

definition newWork :: cleanWork where
  "newWork = \<lparr>cw_Actions = [], cw_Blockers = [], cw_Holds = [], cw_Bookmarks = [], cw_Lineages = []\<rparr>"

definition block :: "go_error list \<Rightarrow> cleanWork \<Rightarrow> cleanWork" where
  "block es work = work\<lparr>cw_Blockers := cw_Blockers work @ es\<rparr>"

definition act :: "CleanAction \<Rightarrow> cleanWork \<Rightarrow> cleanWork" where
  "act a work = work\<lparr>cw_Actions := cw_Actions work @ [a]\<rparr>"

definition pairKey :: "string \<Rightarrow> string \<Rightarrow> string" where
  "pairKey object name = object @ [CHR 0x00] @ name"

abbreviation blockIf :: "go_error option \<Rightarrow> go_error list" where
  "blockIf e \<equiv> (case e of Some x \<Rightarrow> [x] | None \<Rightarrow> [])"

subsection \<open>Proofs\<close>

definition proveSource :: "State \<Rightarrow> string \<Rightarrow> Reference \<Rightarrow> cleanWork \<Rightarrow> ReferenceSource \<Rightarrow> cleanWork" where
  "proveSource state lineage r work source =
     (let snapshot = sourceSnapshot r (rs_Dataset source);
          bookmark = sourceBookmark r (rs_Dataset source);
          work =
            (if \<not> heldBy state r snapshot then work
             else if \<not> heldIntact state lineage r source
             then block [Errorf ''held snapshot ownership changed: %s'' [Arg snapshot]] work
             else act \<lparr>ca_Operation = ''release'', ca_Object = snapshot, ca_Property = referenceHold r, ca_GUID = rs_GUID source\<rparr>
               (work\<lparr>cw_Holds := pairKey snapshot (referenceHold r) # cw_Holds work\<rparr>)) in
      if \<not> hasObject state bookmark then work
      else act \<lparr>ca_Operation = ''destroy-bookmark'', ca_Object = bookmark, ca_Property = [], ca_GUID = rs_GUID source\<rparr>
        (work\<lparr>cw_Bookmarks := bookmark # cw_Bookmarks work\<rparr>))"

definition proveReference :: "State \<Rightarrow> string \<Rightarrow> Reference \<Rightarrow> cleanWork \<Rightarrow> cleanWork" where
  "proveReference state lineage r work =
     (case Sources r state of
        Inl e \<Rightarrow> block [Errorf ''reference proof %s: %v'' [Arg (referenceProperty r), Wrap e]] work
      | Inr sources \<Rightarrow> foldl (proveSource state lineage r) work sources)"

definition quiescence :: "'w CleanSafety option \<Rightarrow> string list \<Rightarrow> ('w, go_error list) zio" where
  "quiescence safety datasets =
     (case safety of
        None \<Rightarrow> ioReturn [Errorf ''quiescence has not been established'' []]
      | Some s \<Rightarrow> ioTry (sf_Quiescent s datasets) (\<lambda>e. ioReturn [e]) (\<lambda>_. ioReturn []))"

definition targetChecked :: "'w CleanSafety option \<Rightarrow> string \<Rightarrow> string \<Rightarrow> ('w, go_error list) zio" where
  "targetChecked safety name target =
     (case safety of
        None \<Rightarrow> ioReturn [Errorf ''target not verified: %s'' [Arg target]]
      | Some s \<Rightarrow> ioTry (sf_CheckTarget s name target) (\<lambda>e. ioReturn [Errorf ''target %s: %v'' [Arg target, Wrap e]]) (\<lambda>_. ioReturn []))"

definition cleanReference :: "'w CleanSafety option \<Rightarrow> State \<Rightarrow> string \<Rightarrow> string \<Rightarrow> cleanWork \<Rightarrow> Reference \<Rightarrow> ('w, cleanWork) zio" where
  "cleanReference safety state name lineage work r =
     ioBind (targetChecked safety name (rf_TargetID r)) (\<lambda>es. ioReturn (proveReference state lineage r (block es work)))"

text \<open>The lineages the dataset's own snapshots prove.\<close>

definition candidateLineages :: "State \<Rightarrow> string \<Rightarrow> string list" where
  "candidateLineages state name =
     remdups (concat (map (\<lambda>s. map p_Value (filter (\<lambda>p. p_Name p = LineageProperty \<and> is_ok (Ownership s (p_Value p))) (sn_Properties s)))
       (snapshotsIn state name)))"

definition lineageBlockers :: "State \<Rightarrow> CleanOptions \<Rightarrow> string \<Rightarrow> string \<Rightarrow> go_error list" where
  "lineageBlockers state options name lineage =
     (let candidates = candidateLineages state name in
      (if length candidates > 1 \<or> (lineage \<noteq> [] \<and> candidates \<noteq> [] \<and> lineage \<notin> set candidates)
       then [Errorf ''conflicting snapshot lineages on %s'' [Arg name]] else [])
      @ (if co_DestroyOwnedSnapshots options \<and> lineage = [] \<and> candidates \<noteq> []
         then [Errorf ''adopt missing lineage before destroying snapshots on %s'' [Arg name]] else []))"

definition cleanDataset :: "'w CleanSafety option \<Rightarrow> State \<Rightarrow> CleanOptions \<Rightarrow> string \<Rightarrow> string \<Rightarrow> cleanWork \<Rightarrow> string \<Rightarrow> ('w, cleanWork) zio" where
  "cleanDataset safety state options dataset rootLineage work name =
     (case storedLineage state name of
        Inl e \<Rightarrow> ioReturn (block [e] work)
      | Inr own \<Rightarrow>
          (let lineage = (if own = [] \<and> name \<noteq> dataset then rootLineage else own);
               work = block (lineageBlockers state options name lineage)
                 (work\<lparr>cw_Lineages := mput name lineage (cw_Lineages work)\<rparr>) in
           case referenceRecords state name lineage of
             Inl e \<Rightarrow> ioReturn (block [e] work)
           | Inr refs \<Rightarrow> ioFold (cleanReference safety state name lineage) work refs))"

subsection \<open>Planning a clean\<close>

definition cleanDatasets :: "State \<Rightarrow> string list" where
  "cleanDatasets state = sort (map ob_Name (filter isDataset (st_Objects state)))"

definition retirementBlockers :: "State \<Rightarrow> Property list \<Rightarrow> string \<Rightarrow> string \<Rightarrow> cleanMode \<Rightarrow> go_error list" where
  "retirementBlockers state activation dataset installation mode =
     (let active = (case locallyActive activation dataset of Inr b \<Rightarrow> b | Inl _ \<Rightarrow> False) in
      (case locallyActive activation dataset of
         Inl e \<Rightarrow> [e]
       | Inr b \<Rightarrow> if b then [Errorf ''retirement requires an inactive source root'' []] else [])
      @ (case inactivePlan state dataset installation active (cm_Now mode) (cm_Grace mode) of
           (_, Some e) \<Rightarrow> [e]
         | (inactive, None) \<Rightarrow>
             if ip_Action inactive \<noteq> [] then [Errorf ''inactive marker transition must complete before retirement'' []]
             else if \<not> ip_Automatic inactive then [Errorf ''automatic retirement is disabled'' []]
             else if \<not> ip_Due inactive then [Errorf ''inactive grace period has not elapsed'' []]
             else []))"

text \<open>The nearest activation ancestor outside the clean scope.\<close>

definition nearestActivation :: "Property list \<Rightarrow> string list \<Rightarrow> string \<Rightarrow> string \<times> string" where
  "nearestActivation activation selected name =
     foldl (\<lambda>(nearest, v) p.
       if p_Name p = Namespace @ ''enabled'' \<and> p_Source p = SourceLocal \<and> p_Dataset p \<notin> set selected
          \<and> HasPrefix name (p_Dataset p @ ''/'') \<and> length (p_Dataset p) > length nearest
       then (p_Dataset p, p_Value p) else (nearest, v)) ([], []) activation"

definition exposureBlockers :: "Property list \<Rightarrow> string list \<Rightarrow> go_error list" where
  "exposureBlockers activation datasets =
     concat (map (\<lambda>name. case nearestActivation activation datasets name of
       (nearest, v) \<Rightarrow> if v = ''on'' then [Errorf ''cleaning %s would expose enabled=on from %s'' [Arg name, Arg nearest]] else []) datasets)"

definition unprovenHolds :: "State \<Rightarrow> string list \<Rightarrow> go_error list" where
  "unprovenHolds state proved =
     concat (map (\<lambda>(object, tags). map (\<lambda>tag. Errorf ''unproven hold: %s %s'' [Arg object, Arg tag])
       (filter (\<lambda>tag. HasPrefix tag SnapshotPrefix \<and> pairKey object tag \<notin> set proved) tags)) (st_Holds state))"

definition unprovenBookmarks :: "State \<Rightarrow> string list \<Rightarrow> go_error list" where
  "unprovenBookmarks state proved =
     map (\<lambda>ob. Errorf ''unproven bookmark: %s'' [Arg (ob_Name ob)])
       (filter (\<lambda>ob. ob_Type ob = ''bookmark'' \<and> HasPrefix (ob_Name ob) (cutBefore (ob_Name ob) (CHR ''#'') @ ''#'' @ SnapshotPrefix)
          \<and> ob_Name ob \<notin> set proved) (st_Objects state))"

definition ownedSnapshots :: "State \<Rightarrow> (string, string) gomap \<Rightarrow> string list \<Rightarrow> Snapshot list" where
  "ownedSnapshots state lineages datasets =
     concat (map (\<lambda>name. filter (\<lambda>s. is_ok (Ownership s (mindex lineages name))) (snapshotsIn state name)) datasets)"

definition dependent :: "string list \<Rightarrow> Snapshot \<Rightarrow> bool" where
  "dependent proved s =
     (sn_Clones s \<noteq> [] \<or> sn_ResumeRequired s \<or> list_ex (\<lambda>tag. pairKey (sn_Name s) tag \<notin> set proved) (sn_Holds s))"

definition cleansProperty :: "bool \<Rightarrow> string list \<Rightarrow> string \<Rightarrow> string \<Rightarrow> bool" where
  "cleansProperty retirement destroyed object name =
     (\<not> (retirement \<and> (IsPublic name \<or> CHR ''@'' \<in> set object \<or> CHR ''#'' \<in> set object))
      \<and> HasPrefix name Namespace \<and> object \<notin> set destroyed)"

definition propertyKeys :: "State \<Rightarrow> bool \<Rightarrow> string list \<Rightarrow> string list" where
  "propertyKeys state retirement destroyed =
     remdups
       (map (\<lambda>p. pairKey (p_Dataset p) (p_Name p))
          (filter (\<lambda>p. cleansProperty retirement destroyed (p_Dataset p) (p_Name p)) (st_Properties state))
        @ concat (map (\<lambda>(object, vals). map (pairKey object)
            (filter (cleansProperty retirement destroyed object) (mkeys vals))) (st_Received state)))"

definition inheritAction :: "string \<Rightarrow> CleanAction" where
  "inheritAction key =
     (case Cut key (CHR 0x00) of (object, name, _) \<Rightarrow>
        \<lparr>ca_Operation = ''inherit'', ca_Object = object, ca_Property = name, ca_GUID = 0\<rparr>)"

definition destroyAction :: "Snapshot \<Rightarrow> CleanAction" where
  "destroyAction s = \<lparr>ca_Operation = ''destroy-snapshot'', ca_Object = sn_Name s, ca_Property = [], ca_GUID = sn_GUID s\<rparr>"

text \<open>The plan once every proof has been looked at.\<close>

definition finishPlan :: "CleanPlan \<Rightarrow> State \<Rightarrow> cleanMode \<Rightarrow> cleanWork \<Rightarrow> CleanPlan" where
  "finishPlan plan state mode work =
     (let retirement = cm_Retirement mode;
          owned = (if co_DestroyOwnedSnapshots (cp_Options plan) then ownedSnapshots state (cw_Lineages work) (cleanDatasets state) else []);
          kept = filter (dependent (cw_Holds work)) owned;
          destroy = filter (\<lambda>s. \<not> dependent (cw_Holds work) s) owned;
          keys = propertyKeys state retirement (map sn_Name destroy) in
      plan\<lparr>cp_Actions := sortCleanActions (cw_Actions work @ map destroyAction destroy @ map inheritAction keys),
           cp_Blockers := remdups (cp_Blockers plan @ cw_Blockers work
             @ unprovenHolds state (cw_Holds work) @ unprovenBookmarks state (cw_Bookmarks work)
             @ (if retirement then map (\<lambda>s. Errorf ''dependent owned snapshot prevents retirement: %s'' [Arg (sn_Name s)]) kept else [])),
           cp_Warnings := cp_Warnings plan
             @ (if retirement then [] else map (\<lambda>s. Errorf ''retaining dependent snapshot: %s'' [Arg (sn_Name s)]) kept)\<rparr>)"

subsection \<open>Forgetting a target\<close>

definition ValidTargetID :: "string \<Rightarrow> bool" where
  "ValidTargetID target = (length target = 64 \<and> list_all isHex target)"

definition forgetReference :: "State \<Rightarrow> string \<Rightarrow> string \<Rightarrow> string list \<Rightarrow> cleanWork \<times> string list \<Rightarrow> Reference \<Rightarrow> cleanWork \<times> string list" where
  "forgetReference state dataset lineage ids acc r =
     (case acc of (work, found) \<Rightarrow>
        if rf_TargetID r \<notin> set ids then (work, found)
        else (proveReference state lineage r
                (act \<lparr>ca_Operation = ''inherit'', ca_Object = dataset, ca_Property = referenceProperty r, ca_GUID = 0\<rparr> work),
              rf_TargetID r # found))"

definition forgetProofs :: "State \<Rightarrow> string \<Rightarrow> string list \<Rightarrow> cleanWork \<times> string list" where
  "forgetProofs state dataset ids =
     (case storedLineage state dataset of
        Inl e \<Rightarrow> (block [e] newWork, [])
      | Inr lineage \<Rightarrow>
          if lineage = [] then (block [Errorf ''forgetting a target needs a source root with a lineage: %s'' [Arg dataset]] newWork, [])
          else
            (case referenceRecords state dataset lineage of
               Inl e \<Rightarrow> (block [e] newWork, [])
             | Inr refs \<Rightarrow> foldl (forgetReference state dataset lineage ids) (newWork, []) refs))"

text \<open>The target a property of the root keeps state for, if it is local state of a target to forget.\<close>

definition forgottenTarget :: "string \<Rightarrow> string list \<Rightarrow> Property \<Rightarrow> string option" where
  "forgottenTarget dataset ids p =
     (let target = cutBefore (TrimPrefix (p_Name p) TargetStatePrefix) (CHR '':'') in
      if p_Dataset p \<noteq> dataset \<or> \<not> HasPrefix (p_Name p) TargetStatePrefix \<or> p_Source p \<noteq> SourceLocal \<or> target \<notin> set ids
      then None else Some target)"

definition forgetProperty :: "string \<Rightarrow> string list \<Rightarrow> cleanWork \<times> string list \<Rightarrow> Property \<Rightarrow> cleanWork \<times> string list" where
  "forgetProperty dataset ids acc p =
     (case acc of (work, found) \<Rightarrow>
        (case forgottenTarget dataset ids p of
           None \<Rightarrow> (work, found)
         | Some target \<Rightarrow>
             (act \<lparr>ca_Operation = ''inherit'', ca_Object = dataset, ca_Property = p_Name p, ca_GUID = 0\<rparr> work, target # found)))"

definition forgottenHolds :: "State \<Rightarrow> string list \<Rightarrow> string list \<Rightarrow> go_error list" where
  "forgottenHolds state ids proved =
     concat (map (\<lambda>(object, tags). map (\<lambda>tag. Errorf ''unproven hold: %s %s'' [Arg object, Arg tag])
       (filter (\<lambda>tag. HasPrefix tag SnapshotPrefix \<and> TrimPrefix tag SnapshotPrefix \<in> set ids \<and> pairKey object tag \<notin> set proved) tags))
       (st_Holds state))"

definition forgottenBookmarks :: "State \<Rightarrow> string list \<Rightarrow> string list \<Rightarrow> go_error list" where
  "forgottenBookmarks state ids proved =
     map (\<lambda>ob. Errorf ''unproven bookmark: %s'' [Arg (ob_Name ob)])
       (filter (\<lambda>ob. ob_Type ob = ''bookmark'' \<and> ob_Name ob \<notin> set proved
          \<and> list_ex (\<lambda>target. HasPrefix (fst (snd (Cut (ob_Name ob) (CHR ''#'')))) (SnapshotPrefix @ target @ ''-'')) ids) (st_Objects state))"

definition finishForget :: "CleanPlan \<Rightarrow> State \<Rightarrow> string \<Rightarrow> string list \<Rightarrow> CleanPlan" where
  "finishForget plan state dataset ids =
     (case foldl (forgetProperty dataset ids) (forgetProofs state dataset ids) (st_Properties state) of
        (work, found) \<Rightarrow>
      plan\<lparr>cp_Actions := sortCleanActions (cw_Actions work),
           cp_Blockers := remdups (cp_Blockers plan @ cw_Blockers work
             @ forgottenHolds state ids (cw_Holds work) @ forgottenBookmarks state ids (cw_Bookmarks work)
             @ map (\<lambda>target. Errorf ''%s keeps no state for target %s'' [Arg dataset, Arg target]) (filter (\<lambda>target. target \<notin> set found) ids))\<rparr>)"

type_synonym 'w planning = "('w, CleanPlan \<times> State \<times> go_error option) zio"

definition forgetPlan :: "'w Executor \<Rightarrow> string \<Rightarrow> CleanOptions \<Rightarrow> 'w CleanSafety option \<Rightarrow> 'w planning" where
  "forgetPlan e dataset options safety =
     (let plan = newCleanPlan dataset options; ids = co_ForgetTargets options in
      if co_Recursive options \<or> co_DestroyOwnedSnapshots options
      then ioReturn (plan, emptyState, Some (Errorf ''forgetting a target cannot be combined with recursive clean or snapshot destruction'' []))
      else
      (case find (\<lambda>target. \<not> ValidTargetID target) ids of
         Some target \<Rightarrow> ioReturn (plan, emptyState, Some (Errorf ''invalid target ID %q'' [Arg target]))
       | None \<Rightarrow>
      (case validateDataset dataset of
         Some err \<Rightarrow> ioReturn (plan, emptyState, Some err)
       | None \<Rightarrow>
      ioTry (zInspectState e dataset True) (\<lambda>err. ioReturn (plan, emptyState, Some err)) (\<lambda>state.
      ioBind (quiescence safety (sort (map ob_Name (datasetObjects state)))) (\<lambda>es.
      ioReturn (finishForget (plan\<lparr>cp_Blockers := blockIf (scopeReady state dataset) @ blockIf (recordsReadable state dataset) @ es\<rparr>)
        state dataset ids, state, None))))))"

subsection \<open>The plan of a clean\<close>

definition cleanPlan :: "'w Executor \<Rightarrow> string \<Rightarrow> string \<Rightarrow> CleanOptions \<Rightarrow> 'w CleanSafety option \<Rightarrow> cleanMode \<Rightarrow> 'w planning" where
  "cleanPlan e installation dataset options safety mode =
     (if co_ForgetTargets options \<noteq> [] then
        if cm_Retirement mode
        then ioReturn (newCleanPlan dataset options, emptyState, Some (Errorf ''retirement cannot forget targets'' []))
        else forgetPlan e dataset options safety
      else
      (let plan = (newCleanPlan dataset options)\<lparr>cp_Warnings :=
             [Errorf ''inherit masks received properties; hidden received values may remain and can be restored externally'' []]\<rparr> in
      case validateDataset dataset of
         Some err \<Rightarrow> ioReturn (plan, emptyState, Some err)
       | None \<Rightarrow>
      ioTry (zInspectState e dataset (co_Recursive options)) (\<lambda>err. ioReturn (plan, emptyState, Some err)) (\<lambda>state.
      let plan = plan\<lparr>cp_Blockers := blockIf (scopeReady state dataset) @ blockIf (recordsReadable state dataset)\<rparr> in
      ioTry (zGetActivationProperties e) (\<lambda>err. ioReturn (plan, state, Some err)) (\<lambda>activation.
      let datasets = cleanDatasets state;
          retiring = (if cm_Retirement mode then retirementBlockers state activation dataset installation mode else []);
          exposed = (if cm_Retirement mode then [] else exposureBlockers activation datasets);
          rootLineage = (case storedLineage state dataset of Inr lineage \<Rightarrow> lineage | Inl _ \<Rightarrow> []);
          rootBlockers = (case storedLineage state dataset of Inr _ \<Rightarrow> [] | Inl err \<Rightarrow> [err]) in
      ioBind (quiescence safety datasets) (\<lambda>es.
      ioBind (ioFold (cleanDataset safety state options dataset rootLineage) newWork datasets) (\<lambda>work.
      ioReturn (finishPlan (plan\<lparr>cp_Blockers := cp_Blockers plan @ retiring @ es @ exposed @ rootBlockers\<rparr>) state mode work, state, None)))))))"

subsection \<open>Applying a plan\<close>

definition applyAction :: "'w Executor \<Rightarrow> CleanAction \<Rightarrow> ('w, unit) zio" where
  "applyAction e a =
     (if ca_Operation a = ''destroy-bookmark'' then zDestroyBookmark e (ca_Object a)
      else if ca_Operation a = ''release'' then zRelease e (ca_Property a) (ca_Object a)
      else if ca_Operation a = ''destroy-snapshot'' then zDestroySnapshot e (ca_Object a)
      else if ca_Operation a = ''inherit'' then zInheritProperty e (ca_Object a) (ca_Property a)
      else ioFail (Errorf ''unknown clean operation'' []))"

text \<open>How a state differs from the expected one.\<close>

datatype difference =
    ReceivedBecame string string string string
  | ObjectMissing string
  | ObjectAppeared string
  | PropertyMissing string string string
  | PropertyAppeared string string string string
  | Reordered
  | HoldsDiffer "(string, string list) gomap" "(string, string list) gomap"
  | ClonesDiffer "(string, string list) gomap" "(string, string list) gomap"
  | TokensChanged
  | StateDiffers

definition expectedState :: "State \<Rightarrow> CleanAction \<Rightarrow> State" where
  "expectedState old a =
     (if ca_Operation a = ''destroy-snapshot'' \<or> ca_Operation a = ''destroy-bookmark''
      then old\<lparr>st_Objects := filter (\<lambda>ob. ob_Name ob \<noteq> ca_Object a) (st_Objects old),
                  st_Properties := filter (\<lambda>p. p_Dataset p \<noteq> ca_Object a) (st_Properties old),
                  st_Holds := mdel (ca_Object a) (st_Holds old),
                  st_Clones := mdel (ca_Object a) (st_Clones old),
                  st_ResumeTokens := mdel (ca_Object a) (st_ResumeTokens old)\<rparr>
      else if ca_Operation a = ''release''
      then old\<lparr>st_Holds := mput (ca_Object a) (filter (\<lambda>tag. tag \<noteq> ca_Property a) (mindex (st_Holds old) (ca_Object a))) (st_Holds old)\<rparr>
      else if ca_Operation a = ''inherit''
      then old\<lparr>st_Properties := filter (\<lambda>p. \<not> (p_Dataset p = ca_Object a \<and> p_Name p = ca_Property a)) (st_Properties old)\<rparr>
      else old)"

definition receivedChange :: "State \<Rightarrow> State \<Rightarrow> difference option" where
  "receivedChange old after =
     (case concat (map (\<lambda>(object, vals). map (\<lambda>(key, v). (object, key, v))
        (filter (\<lambda>(key, v). mindex (mindex (st_Received old) object) key \<noteq> v) vals)) (st_Received after)) of
        [] \<Rightarrow> None
      | (object, key, v) # _ \<Rightarrow> Some (ReceivedBecame key object v (mindex (mindex (st_Received old) object) key)))"

text \<open>Empty collections count the same as missing ones, and received values are compared apart.\<close>

definition normalizeState :: "State \<Rightarrow> State" where
  "normalizeState s =
     s\<lparr>st_Received := [], st_Holds := filter (\<lambda>(_, tags). tags \<noteq> []) (st_Holds s), st_Clones := filter (\<lambda>(_, cs). cs \<noteq> []) (st_Clones s)\<rparr>"

definition differences :: "State \<Rightarrow> State \<Rightarrow> difference list" where
  "differences expected after =
     (let ds =
        map (\<lambda>ob. ObjectMissing (ob_Name ob)) (filter (\<lambda>ob. ob \<notin> set (st_Objects after)) (st_Objects expected))
        @ map (\<lambda>ob. ObjectAppeared (ob_Name ob)) (filter (\<lambda>ob. ob \<notin> set (st_Objects expected)) (st_Objects after))
        @ map (\<lambda>p. PropertyMissing (p_Name p) (p_Dataset p) (p_Source p)) (filter (\<lambda>p. p \<notin> set (st_Properties after)) (st_Properties expected))
        @ map (\<lambda>p. PropertyAppeared (p_Name p) (p_Value p) (p_Dataset p) (p_Source p))
            (filter (\<lambda>p. p \<notin> set (st_Properties expected)) (st_Properties after));
          ds = ds @ (if ds = [] \<and> (st_Objects expected \<noteq> st_Objects after \<or> st_Properties expected \<noteq> st_Properties after) then [Reordered] else [])
        @ (if st_Holds expected \<noteq> st_Holds after then [HoldsDiffer (st_Holds after) (st_Holds expected)] else [])
        @ (if st_Clones expected \<noteq> st_Clones after then [ClonesDiffer (st_Clones after) (st_Clones expected)] else [])
        @ (if st_ResumeTokens expected \<noteq> st_ResumeTokens after then [TokensChanged] else []) in
      if ds = [] then [StateDiffers] else ds)"

text \<open>The empty list stands for the empty text; the error that carries the text names the action only.\<close>

definition cleanTransition :: "State \<Rightarrow> State \<Rightarrow> CleanAction \<Rightarrow> difference list" where
  "cleanTransition old after a =
     (case receivedChange old after of
        Some d \<Rightarrow> [d]
      | None \<Rightarrow>
          (let expected = normalizeState (expectedState old a); after = normalizeState after in
           if expected = after then [] else differences expected after))"

fun cleanApply :: "'w Executor \<Rightarrow> string \<Rightarrow> bool \<Rightarrow> State \<Rightarrow> CleanPlan \<Rightarrow> CleanAction list \<Rightarrow> ('w, CleanPlan \<times> go_error option) zio" where
  "cleanApply e dataset subtree current plan [] = ioReturn (plan, None)"
| "cleanApply e dataset subtree current plan (a # actions) =
     ioTry (unchanged e dataset subtree current) (\<lambda>err. ioReturn (plan, Some err)) (\<lambda>_.
     ioTry (applyAction e a) (\<lambda>err. ioReturn (plan, Some err)) (\<lambda>_.
     let plan = plan\<lparr>cp_Applied := cp_Applied plan + 1\<rparr> in
     ioTry (zInspectState e dataset subtree) (\<lambda>err. ioReturn (plan, Some err)) (\<lambda>after.
     if cleanTransition current after a \<noteq> []
     then ioReturn (plan, Some (Errorf ''unexpected state change after clean action %s on %s'' [Arg (ca_Operation a), Arg (ca_Object a)]))
     else if st_ResumeTokens after \<noteq> [] then ioReturn (plan, Some (Errorf ''resume state appeared during clean'' []))
     else cleanApply e dataset subtree after plan actions)))"

definition clean :: "'w Executor \<Rightarrow> string \<Rightarrow> string \<Rightarrow> CleanOptions \<Rightarrow> bool \<Rightarrow> 'w CleanSafety option \<Rightarrow> cleanMode
    \<Rightarrow> ('w, CleanPlan \<times> go_error option) zio" where
  "clean e installation dataset options apply safety mode =
     ioBind (cleanPlan e installation dataset options safety mode) (\<lambda>(plan, state, err).
     if err \<noteq> None \<or> \<not> apply then ioReturn (plan, err)
     else if cp_Blockers plan \<noteq> [] then ioReturn (plan, Some (Errorf ''clean blocked'' []))
     else
     ioBind (cleanPlan e installation dataset options safety mode) (\<lambda>(fresh, current, err).
     if err \<noteq> None then ioReturn (plan, err)
     else if plan \<noteq> fresh \<or> state \<noteq> current then ioReturn (plan, Some (Errorf ''clean state changed; preview again'' []))
     else cleanApply e dataset (optionSubtree options) current plan (cp_Actions plan)))"

definition cleanOnly :: cleanMode where
  "cleanOnly = \<lparr>cm_Retirement = False, cm_Now = 0, cm_Grace = 0\<rparr>"

definition Clean :: "'w Executor \<Rightarrow> string \<Rightarrow> string \<Rightarrow> CleanOptions \<Rightarrow> bool \<Rightarrow> 'w CleanSafety option \<Rightarrow> ('w, CleanPlan \<times> go_error option) zio" where
  "Clean e installation dataset options apply safety =
     ioTry (lock dataset (ioReturn ()))
       (\<lambda>err. ioReturn (newCleanPlan [] \<lparr>co_Recursive = False, co_DestroyOwnedSnapshots = False, co_ForgetTargets = []\<rparr>, Some err))
       (\<lambda>_. clean e installation dataset options apply safety cleanOnly)"

subsection \<open>Retirement\<close>

record RetirementPlan =
  rp_Inactive :: InactivePlan
  rp_Eligible :: bool
  rp_Clean :: CleanPlan

definition noRetirement :: RetirementPlan where
  "noRetirement = \<lparr>rp_Inactive = newInactivePlan [] False, rp_Eligible = False,
     rp_Clean = newCleanPlan [] \<lparr>co_Recursive = False, co_DestroyOwnedSnapshots = False, co_ForgetTargets = []\<rparr>\<rparr>"

definition retireWhenDue :: "'w Executor \<Rightarrow> string \<Rightarrow> string \<Rightarrow> bool \<Rightarrow> instant \<Rightarrow> int \<Rightarrow> bool \<Rightarrow> 'w CleanSafety option \<Rightarrow> State \<Rightarrow> bool
    \<Rightarrow> ('w, RetirementPlan \<times> go_error option) zio" where
  "retireWhenDue e installation dataset recursive observedAt grace apply safety state active =
     (case inactivePlan state dataset installation active observedAt grace of
        (inactive, err) \<Rightarrow>
      if err \<noteq> None then ioReturn (noRetirement\<lparr>rp_Inactive := inactive\<rparr>, err)
      else if \<not> (\<not> active \<and> ip_Action inactive = [] \<and> ip_Automatic inactive \<and> ip_Due inactive)
      then ioReturn (noRetirement\<lparr>rp_Inactive := inactive\<rparr>, None)
      else
        ioBind (clean e installation dataset \<lparr>co_Recursive = recursive, co_DestroyOwnedSnapshots = True, co_ForgetTargets = []\<rparr> apply safety
            \<lparr>cm_Retirement = True, cm_Now = observedAt, cm_Grace = grace\<rparr>) (\<lambda>(plan, err).
          ioReturn (\<lparr>rp_Inactive = inactive, rp_Eligible = True, rp_Clean = plan\<rparr>, err)))"

definition Retire :: "'w Executor \<Rightarrow> string \<Rightarrow> string \<Rightarrow> bool \<Rightarrow> instant \<Rightarrow> int \<Rightarrow> bool \<Rightarrow> 'w CleanSafety option
    \<Rightarrow> ('w, RetirementPlan \<times> go_error option) zio" where
  "Retire e installation dataset recursive observedAt grace apply safety =
     (let failed = (\<lambda>err. ioReturn (noRetirement, Some err)) in
      ioTry (lock dataset (zInspectState e dataset recursive)) failed (\<lambda>state.
      ioTry (zGetActivationProperties e) failed (\<lambda>activation.
      ioTry (ioLift (locallyActive activation dataset)) failed
        (retireWhenDue e installation dataset recursive observedAt grace apply safety state))))"

end
