(* ===== verification/Lifecycle_Clean_Proofs.thy ===== *)
theory Lifecycle_Clean_Proofs
  imports Lifecycle_Clean
begin

section \<open>What cleaning, forgetting and retirement do\<close>

text \<open>
  Proofs about \<open>Lifecycle_Clean\<close> over an arbitrary backend and arbitrary safety checks: planning only reads; carrying a plan out
  issues its actions in order, each after a read that confirms the state; every action of a plan is accounted for by the state it was made from;
  forgetting touches the named targets only; and retirement writes only when the marker is old enough.
\<close>

subsection \<open>Planning writes nothing\<close>

definition loggedSafety :: "'w CleanSafety \<Rightarrow> 'w logworld CleanSafety" where
  "loggedSafety s =
     \<lparr>sf_Quiescent = (\<lambda>ds. noting (\<lambda>_. Query) (sf_Quiescent s ds)),
      sf_CheckTarget = (\<lambda>d t. noting (\<lambda>_. Query) (sf_CheckTarget s d t))\<rparr>"

abbreviation loggedSafetyOpt :: "'w CleanSafety option \<Rightarrow> 'w logworld CleanSafety option" where
  "loggedSafetyOpt \<equiv> map_option loggedSafety"

lemma reading_quiescence: "reading (quiescence (loggedSafetyOpt safety) ds)"
  by (cases safety) (auto simp: quiescence_def loggedSafety_def intro!: reading_try reading_return quietly_noting simp del: ioReturn_apply)

lemma reading_cleanDataset: "reading (cleanDataset (loggedSafetyOpt safety) state options dataset rootLineage work name)"
proof -
  have "reading (targetChecked (loggedSafetyOpt safety) name t)" for name t
    by (cases safety) (auto simp: targetChecked_def loggedSafety_def intro!: reading_try reading_return quietly_noting)
  then show ?thesis
    by (auto simp: cleanDataset_def cleanReference_def Let_def intro!: reading_return reading_fold reading_bind split: sum.splits)
qed

definition planPost :: "zevent list \<Rightarrow> string \<Rightarrow> bool \<Rightarrow> CleanPlan \<times> State \<times> go_error option \<Rightarrow> 'w logworld \<Rightarrow> bool" where
  "planPost l0 dataset subtree r x \<longleftrightarrow>
     quiet l0 x \<and> (snd (snd r) = None \<longrightarrow> Read dataset subtree (Inr (fst (snd r))) \<in> set (snd x)) \<and> cp_Applied (fst r) = 0"

lemma quiet_mem: "quiet (l0 @ [ev]) x \<Longrightarrow> writes [ev] = [] \<Longrightarrow> quiet l0 x \<and> ev \<in> set (snd x)"
  by (cases ev) (auto simp: quiet_def)

lemma quiet_start: "snd x = l0 \<Longrightarrow> quiet l0 x"
  by (simp add: quiet_def)

lemma planPost_fail: "quiet l0 x \<Longrightarrow> cp_Applied plan = 0 \<Longrightarrow> planPost l0 dataset subtree (plan, s, Some err) x"
  by (simp add: planPost_def)

lemma runs_read:
  assumes "\<And>state. runs (quiet (l0 @ [Read d rec (Inr state)])) (f state) Q E" and "\<And>err. runs (quiet l0) (h err) Q E"
  shows "runs (\<lambda>x. snd x = l0) (ioTry (noting (Read d rec) m) h f) Q E"
proof (rule runs_try)
  show "runs (\<lambda>x. snd x = l0) (noting (Read d rec) m) (\<lambda>s. quiet (l0 @ [Read d rec (Inr s)])) (\<lambda>_. quiet l0)"
    by (rule runs_noting_at) (auto simp: quiet_def)
qed (use assms in auto)

lemma planPost_ok:
  "quiet (l0 @ [Read dataset subtree (Inr state)]) x \<Longrightarrow> cp_Applied plan = 0 \<Longrightarrow> planPost l0 dataset subtree (plan, state, None) x"
  using quiet_mem [of l0 "Read dataset subtree (Inr state)" x] by (simp add: planPost_def)

lemma quiet_less: "quiet (l0 @ [Read d rec r]) x \<Longrightarrow> quiet l0 x"
  by (auto simp: quiet_def)

lemma runs_reading:
  assumes "reading m" and "\<And>x. runs (quiet l0) (f x) Q E"
  shows "runs (quiet l0) (ioBind m f) Q E"
proof (rule runs_bind)
  show "runs (quiet l0) m (\<lambda>_. quiet l0) E"
    by (rule runs_weaken [OF assms(1) [unfolded reading_def, rule_format]]) simp_all
qed (rule assms(2))

lemma applied_plans [simp]: "cp_Applied (newCleanPlan d opts) = 0" "cp_Applied (finishPlan plan state mode work) = cp_Applied plan"
  "cp_Applied (finishForget plan state d ids) = cp_Applied plan"
  by (simp_all add: newCleanPlan_def finishPlan_def Let_def finishForget_def split: prod.splits)

lemma runs_forgetPlan:
  "runs (\<lambda>x. snd x = l0) (forgetPlan (logged e) dataset options (loggedSafetyOpt safety)) (planPost l0 dataset True) (\<lambda>_ _. False)"
  unfolding forgetPlan_def Let_def logged_simps
  by (auto intro!: runs_read runs_reading [OF reading_quiescence] runs_return planPost_fail planPost_ok quiet_start split: option.splits)

lemma runs_cleanPlan:
  "runs (\<lambda>x. snd x = l0) (cleanPlan (logged e) installation dataset options (loggedSafetyOpt safety) mode)
     (planPost l0 dataset (optionSubtree options)) (\<lambda>_ _. False)"
proof (cases "co_ForgetTargets options = []")
  case False
  then have "optionSubtree options" by (simp add: optionSubtree_def)
  then show ?thesis using False runs_forgetPlan [of l0 e dataset options safety]
    by (auto simp: cleanPlan_def intro!: runs_return planPost_fail quiet_start)
next
  case True
  then have sub: "optionSubtree options = co_Recursive options" by (simp add: optionSubtree_def)
  have rest: "runs (quiet (l0 @ [Read dataset sub (Inr state)]))
      (ioTry (noting (\<lambda>_. Query) m) (\<lambda>err. ioReturn (plan, state, Some err)) (\<lambda>activation.
        ioBind (quiescence (loggedSafetyOpt safety) ds) (\<lambda>es.
        ioBind (ioFold (cleanDataset (loggedSafetyOpt safety) state options dataset rl) newWork ds) (\<lambda>work. ioReturn (p activation es work, state, None)))))
      (planPost l0 dataset sub) (\<lambda>_ _. False)"
    if "cp_Applied plan = 0" "\<And>a es w. cp_Applied (p a es w) = 0" for sub state m plan ds rl p
  proof (rule runs_try)
    let ?q = "quiet (l0 @ [Read dataset sub (Inr state)])"
    show "runs ?q (noting (\<lambda>_. Query) m) (\<lambda>_. ?q) (\<lambda>_. ?q)"
      using quietly_noting [of "\<lambda>_. Query" m] by (simp add: quietly_def)
  qed (auto intro!: runs_return runs_reading [OF reading_quiescence] runs_reading [OF reading_fold [OF reading_cleanDataset]]
      planPost_ok planPost_fail that dest: quiet_less)
  show ?thesis unfolding cleanPlan_def Let_def logged_simps sub using True
    by (auto intro!: runs_read rest runs_return planPost_fail quiet_start split: option.splits)
qed

subsection \<open>Applying a plan\<close>

definition actionWrite :: "CleanAction \<Rightarrow> zwrite" where
  "actionWrite a =
     (if ca_Operation a = ''destroy-bookmark'' then DestroyMark (ca_Object a)
      else if ca_Operation a = ''release'' then ReleaseHold (ca_Property a) (ca_Object a)
      else if ca_Operation a = ''destroy-snapshot'' then DestroySnap (ca_Object a)
      else InheritProp (ca_Object a) (ca_Property a))"

text \<open>A write is allowed when the read just before it returned a state that was read before.\<close>

definition confirmed :: "string \<Rightarrow> bool \<Rightarrow> zevent list \<Rightarrow> zwrite \<Rightarrow> bool" where
  "confirmed dataset subtree pre c \<longleftrightarrow>
     (\<exists>pre' s. pre = pre' @ [Read dataset subtree (Inr s)] \<and> Read dataset subtree (Inr s) \<in> set pre')"

text \<open>The log has grown by part of the actions, the count in the plan says how many succeeded.\<close>

definition applied :: "string \<Rightarrow> bool \<Rightarrow> zevent list \<Rightarrow> CleanPlan \<Rightarrow> CleanAction list \<Rightarrow> CleanPlan \<times> go_error option \<Rightarrow> 'w logworld \<Rightarrow> bool" where
  "applied dataset subtree l plan actions r x \<longleftrightarrow>
     guardedLog (confirmed dataset subtree) (snd x) \<and> prefix l (snd x)
     \<and> (\<exists>n k. n \<le> length actions \<and> k \<le> n \<and> n \<le> Suc k \<and> writes (snd x) = writes l @ map actionWrite (take n actions)
          \<and> fst r = plan\<lparr>cp_Applied := cp_Applied plan + k\<rparr> \<and> (snd r = None \<longrightarrow> k = length actions))"

lemma applied_none:
  "guardedLog (confirmed d sub) (snd x) \<Longrightarrow> prefix l (snd x) \<Longrightarrow> writes (snd x) = writes l \<Longrightarrow> applied d sub l plan actions (plan, Some err) x"
  by (auto simp: applied_def intro: exI [of _ 0])

lemma applied_one:
  "guardedLog (confirmed d sub) (snd x) \<Longrightarrow> prefix l (snd x) \<Longrightarrow> writes (snd x) = writes l @ [actionWrite a]
   \<Longrightarrow> plan' = plan \<or> plan' = plan\<lparr>cp_Applied := cp_Applied plan + 1\<rparr> \<Longrightarrow> applied d sub l plan (a # actions) (plan', Some err) x"
  unfolding applied_def
  by (intro conjI exI [of _ "Suc 0"] exI [of _ "if plan' = plan then 0 else Suc 0"]) auto

lemma applied_more:
  assumes "applied d sub l' (plan\<lparr>cp_Applied := cp_Applied plan + 1\<rparr>) actions r x" and "prefix l l'" and "writes l' = writes l @ [actionWrite a]"
  shows "applied d sub l plan (a # actions) r x"
proof -
  obtain n k where f: "guardedLog (confirmed d sub) (snd x)" "prefix l' (snd x)" "n \<le> length actions" "k \<le> n" "n \<le> Suc k"
    "writes (snd x) = writes l @ actionWrite a # map actionWrite (take n actions)"
    "fst r = plan\<lparr>cp_Applied := cp_Applied plan + Suc k\<rparr>" "snd r = None \<longrightarrow> k = length actions"
    using assms(1,3) by (auto simp: applied_def)
  then show ?thesis unfolding applied_def using assms(2)
    by (intro conjI exI [of _ "Suc n"] exI [of _ "Suc k"]) (auto intro: prefix_order.trans)
qed

lemma runs_applyAction:
  assumes "\<And>x. snd x = l @ [Wrote (actionWrite a) True] \<Longrightarrow> Q x"
    and "\<And>err x. snd x = l @ [Wrote (actionWrite a) False] \<or> snd x = l \<Longrightarrow> E err x"
  shows "runs (\<lambda>x. snd x = l) (applyAction (logged e) a) (\<lambda>_. Q) E"
  using assms unfolding applyAction_def actionWrite_def logged_simps
  by (auto intro!: runs_if runs_noting_at runs_fail split: if_splits)

lemma runs_cleanApply:
  assumes "Read d sub (Inr current) \<in> set l" and "guardedLog (confirmed d sub) l"
  shows "runs (\<lambda>x. snd x = l) (cleanApply (logged e) d sub current plan actions) (applied d sub l plan actions) (\<lambda>_ _. False)"
  using assms
proof (induction actions arbitrary: l current plan)
  case Nil
  then show ?case unfolding cleanApply.simps
    by (intro runs_return) (auto simp: applied_def)
next
  case (Cons a actions)
  define l1 where "l1 = l @ [Read d sub (Inr current)]"
  have conf: "confirmed d sub l1 c" for c using Cons.prems(1) by (auto simp: confirmed_def l1_def)
  have g1: "guardedLog (confirmed d sub) l1" "writes l1 = writes l" "prefix l l1" using Cons.prems(2) by (simp_all add: l1_def)
  define l2 where "l2 = l1 @ [Wrote (actionWrite a) True]"
  have g2: "guardedLog (confirmed d sub) l2" "writes l2 = writes l @ [actionWrite a]" "prefix l l2" using g1 conf by (simp_all add: l2_def)
  define plan' where "plan' = plan\<lparr>cp_Applied := cp_Applied plan + 1\<rparr>"
  let ?post = "applied d sub l plan (a # actions)"
  define onward where "onward = (\<lambda>after. if cleanTransition current after a \<noteq> []
     then ioReturn (plan', Some (Errorf ''unexpected state change after clean action %s on %s'' [Arg (ca_Operation a), Arg (ca_Object a)]))
     else if st_ResumeTokens after \<noteq> [] then ioReturn (plan', Some (Errorf ''resume state appeared during clean'' []))
     else cleanApply (logged e) d sub after plan' actions)"
  have after: "runs (\<lambda>x. snd x = l2 @ [Read d sub (Inr s)]) (onward s) ?post (\<lambda>_ _. False)" for s
  proof -
    let ?l3 = "l2 @ [Read d sub (Inr s)]"
    have "runs (\<lambda>x. snd x = ?l3) (cleanApply (logged e) d sub s plan' actions) (applied d sub ?l3 plan' actions) (\<lambda>_ _. False)"
      using g2 by (intro Cons.IH) auto
    then have "runs (\<lambda>x. snd x = ?l3) (cleanApply (logged e) d sub s plan' actions) ?post (\<lambda>_ _. False)"
      by (rule runs_weaken) (use g2 in \<open>auto simp: plan'_def intro!: applied_more [of d sub ?l3]\<close>)
    then show ?thesis using g2 by (auto simp: onward_def plan'_def intro!: runs_if runs_return applied_one)
  qed
  have inspect: "runs (\<lambda>x. snd x = l2) (ioTry (zInspectState (logged e) d sub) (\<lambda>err. ioReturn (plan', Some err)) onward) ?post (\<lambda>_ _. False)"
    unfolding logged_simps
    by (rule runs_try [OF runs_noting_at [where Q = "\<lambda>s x. snd x = l2 @ [Read d sub (Inr s)]" and E = "\<lambda>err x. snd x = l2 @ [Read d sub (Inl err)]"]])
      (use g2 after in \<open>auto simp: plan'_def intro!: runs_return applied_one\<close>)
  show ?case unfolding cleanApply.simps Let_def plan'_def [symmetric] onward_def [symmetric]
  proof (rule runs_try)
    show "runs (\<lambda>x. snd x = l) (unchanged (logged e) d sub current) (\<lambda>_ x. snd x = l1)
        (\<lambda>_ x. guardedLog (confirmed d sub) (snd x) \<and> prefix l (snd x) \<and> writes (snd x) = writes l)"
      unfolding unchanged_def logged_simps using Cons.prems(2)
      by (intro runs_bind_noting runs_if runs_fail runs_return) (auto simp: l1_def)
    show "runs (\<lambda>x. guardedLog (confirmed d sub) (snd x) \<and> prefix l (snd x) \<and> writes (snd x) = writes l) (ioReturn (plan, Some err)) ?post (\<lambda>_ _. False)" for err
      by (rule runs_return) (auto intro: applied_none)
    show "runs (\<lambda>x. snd x = l1) (ioTry (applyAction (logged e) a) (\<lambda>err. ioReturn (plan, Some err)) (\<lambda>_.
        ioTry (zInspectState (logged e) d sub) (\<lambda>err. ioReturn (plan', Some err)) onward)) ?post (\<lambda>_ _. False)"
    proof (rule runs_try)
      show "runs (\<lambda>x. snd x = l1) (applyAction (logged e) a) (\<lambda>_ x. snd x = l2) (\<lambda>_ x. snd x = l1 @ [Wrote (actionWrite a) False] \<or> snd x = l1)"
        by (rule runs_applyAction) (auto simp: l2_def)
      show "runs (\<lambda>x. snd x = l1 @ [Wrote (actionWrite a) False] \<or> snd x = l1) (ioReturn (plan, Some err)) ?post (\<lambda>_ _. False)" for err
        using g1 conf by (intro runs_return) (auto intro: applied_none applied_one)
    qed (rule inspect)
  qed
qed

definition carriedOut :: "string \<Rightarrow> bool \<Rightarrow> bool \<Rightarrow> zevent list \<Rightarrow> CleanPlan \<times> go_error option \<Rightarrow> 'w logworld \<Rightarrow> bool" where
  "carriedOut dataset subtree apply l r x \<longleftrightarrow>
     guardedLog (confirmed dataset subtree) (snd x) \<and> prefix l (snd x)
     \<and> (\<exists>n \<le> length (cp_Actions (fst r)). cp_Applied (fst r) \<le> n \<and> n \<le> Suc (cp_Applied (fst r))
          \<and> writes (snd x) = map actionWrite (take n (cp_Actions (fst r)))
          \<and> (0 < n \<longrightarrow> apply \<and> cp_Blockers (fst r) = [])
          \<and> (apply \<and> snd r = None \<longrightarrow> cp_Applied (fst r) = length (cp_Actions (fst r))))"

lemma guardedLog_readonly: "writes l = [] \<Longrightarrow> guardedLog G l"
  using guardedLog_quiet [of l G "[]"] by simp

lemma carriedOut_not:
  "writes (snd x) = [] \<Longrightarrow> prefix l (snd x) \<Longrightarrow> cp_Applied plan = 0 \<Longrightarrow> \<not> apply \<or> err \<noteq> None \<Longrightarrow> carriedOut d sub apply l (plan, err) x"
  unfolding carriedOut_def by (auto simp: guardedLog_readonly)

lemma applied_carriedOut:
  assumes "applied d sub l' plan (cp_Actions plan) r x" and "writes l' = []" and "prefix l l'" and "cp_Applied plan = 0" and "cp_Blockers plan = []" and "apply"
  shows "carriedOut d sub apply l r x"
proof -
  obtain n k where "guardedLog (confirmed d sub) (snd x)" "prefix l' (snd x)" "n \<le> length (cp_Actions plan)" "k \<le> n" "n \<le> Suc k"
    "writes (snd x) = map actionWrite (take n (cp_Actions plan))" "fst r = plan\<lparr>cp_Applied := k\<rparr>" "snd r = None \<longrightarrow> k = length (cp_Actions plan)"
    using assms(1,2,4) by (auto simp: applied_def)
  then show ?thesis using assms(3,5,6) unfolding carriedOut_def by (intro conjI exI [of _ n]) (auto intro: prefix_order.trans)
qed

lemma planPost_writes: "planPost l0 d sub (plan, s, err) x \<Longrightarrow> writes l0 = [] \<Longrightarrow> writes (snd x) = [] \<and> prefix l0 (snd x) \<and> cp_Applied plan = 0"
  by (auto simp: planPost_def quiet_def)

lemma runs_from: "(\<And>l. F l \<Longrightarrow> runs (\<lambda>x. snd x = l) m Q E) \<Longrightarrow> (\<And>x. P x \<Longrightarrow> F (snd x)) \<Longrightarrow> runs P m Q E"
  unfolding runs_def by blast

lemma runs_clean:
  assumes "writes l0 = []"
  shows "runs (\<lambda>x. snd x = l0) (clean (logged e) installation dataset options apply (loggedSafetyOpt safety) mode)
     (carriedOut dataset (optionSubtree options) apply l0) (\<lambda>_ _. False)"
  unfolding clean_def
proof (rule runs_bind [OF runs_cleanPlan], clarify)
  fix plan state err
  let ?sub = "optionSubtree options"
  let ?again = "ioBind (cleanPlan (logged e) installation dataset options (loggedSafetyOpt safety) mode) (\<lambda>(fresh, current, err).
     if err \<noteq> None then ioReturn (plan, err)
     else if plan \<noteq> fresh \<or> state \<noteq> current then ioReturn (plan, Some (Errorf ''clean state changed; preview again'' []))
     else cleanApply (logged e) dataset ?sub current plan (cp_Actions plan))"
  have again: "runs (\<lambda>x. snd x = l1) ?again (carriedOut dataset ?sub apply l0) (\<lambda>_ _. False)"
    if l1: "writes l1 = []" "prefix l0 l1" "cp_Applied plan = 0" "apply" "cp_Blockers plan = []" for l1
  proof (rule runs_bind [OF runs_cleanPlan], clarify)
    fix fresh current and err :: "go_error option"
    have "runs (\<lambda>x. snd x = l2) (cleanApply (logged e) dataset ?sub current plan (cp_Actions plan)) (carriedOut dataset ?sub apply l0) (\<lambda>_ _. False)"
      if "Read dataset ?sub (Inr current) \<in> set l2" "writes l2 = []" "prefix l0 l2" for l2
      by (rule runs_weaken [OF runs_cleanApply [OF that(1) guardedLog_readonly [OF that(2)]]])
        (simp_all add: applied_carriedOut [OF _ that(2,3) l1(3,5,4)])
    then have "runs (\<lambda>x. planPost l1 dataset ?sub (fresh, current, None) x) (cleanApply (logged e) dataset ?sub current plan (cp_Actions plan))
        (carriedOut dataset ?sub apply l0) (\<lambda>_ _. False)"
      by (rule runs_from [of "\<lambda>l. Read dataset ?sub (Inr current) \<in> set l \<and> writes l = [] \<and> prefix l0 l"])
        (use l1(1,2) in \<open>auto simp: planPost_def quiet_def intro: prefix_prefix\<close>)
    then show "runs (\<lambda>x. planPost l1 dataset ?sub (fresh, current, err) x)
        (if err \<noteq> None then ioReturn (plan, err)
         else if plan \<noteq> fresh \<or> state \<noteq> current then ioReturn (plan, Some (Errorf ''clean state changed; preview again'' []))
         else cleanApply (logged e) dataset ?sub current plan (cp_Actions plan)) (carriedOut dataset ?sub apply l0) (\<lambda>_ _. False)"
      using l1 by (auto intro!: runs_return carriedOut_not dest: planPost_writes intro: prefix_order.trans)
  qed
  have "runs (planPost l0 dataset ?sub (plan, state, None)) ?again (carriedOut dataset ?sub apply l0) (\<lambda>_ _. False)" if "apply" "cp_Blockers plan = []"
    by (rule runs_from [OF again, of "\<lambda>l. writes l = [] \<and> prefix l0 l \<and> cp_Applied plan = 0"]) (use that assms in \<open>auto dest: planPost_writes\<close>)
  then show "runs (\<lambda>x. planPost l0 dataset ?sub (plan, state, err) x)
    (if err \<noteq> None \<or> \<not> apply then ioReturn (plan, err)
     else if cp_Blockers plan \<noteq> [] then ioReturn (plan, Some (Errorf ''clean blocked'' [])) else ?again)
    (carriedOut dataset ?sub apply l0) (\<lambda>_ _. False)"
    using assms by (auto intro!: runs_return carriedOut_not dest: planPost_writes)
qed

subsection \<open>What a plan acts on\<close>

text \<open>The lineage a dataset's records are read under: its own, or the root's when it stores none.\<close>

definition lineageOf :: "State \<Rightarrow> string \<Rightarrow> string \<Rightarrow> string" where
  "lineageOf state dataset name =
     (case storedLineage state name of
        Inl _ \<Rightarrow> []
      | Inr own \<Rightarrow> if own = [] \<and> name \<noteq> dataset then (case storedLineage state dataset of Inr l \<Rightarrow> l | Inl _ \<Rightarrow> []) else own)"

text \<open>An action on a hold or bookmark that a stored proof accounts for.\<close>

definition provedBy :: "State \<Rightarrow> string \<Rightarrow> Reference \<Rightarrow> CleanAction \<Rightarrow> bool" where
  "provedBy state lineage r a \<longleftrightarrow>
     (\<exists>sources source. Sources r state = Inr sources \<and> source \<in> set sources \<and> ca_GUID a = rs_GUID source
        \<and> (ca_Operation a = ''release'' \<and> ca_Object a = sourceSnapshot r (rs_Dataset source) \<and> ca_Property a = referenceHold r
             \<and> heldBy state r (ca_Object a) \<and> heldIntact state lineage r source
           \<or> ca_Operation a = ''destroy-bookmark'' \<and> ca_Object a = sourceBookmark r (rs_Dataset source) \<and> hasObject state (ca_Object a)))"

definition releases :: "CleanAction list \<Rightarrow> string \<Rightarrow> bool" where
  "releases actions key \<longleftrightarrow> (\<exists>a \<in> set actions. ca_Operation a = ''release'' \<and> key = pairKey (ca_Object a) (ca_Property a))"

definition workOk :: "(CleanAction \<Rightarrow> bool) \<Rightarrow> cleanWork \<Rightarrow> bool" where
  "workOk P work \<longleftrightarrow> (\<forall>a \<in> set (cw_Actions work). P a) \<and> (\<forall>k \<in> set (cw_Holds work). releases (cw_Actions work) k)"

lemma workOk_block [simp]: "workOk P (block es work) = workOk P work" "cw_Lineages (block es work) = cw_Lineages work"
  by (simp_all add: workOk_def block_def)

lemma workOk_new [simp]: "workOk P newWork"
  by (simp add: workOk_def newWork_def)

lemma workOk_lineages [simp]: "workOk P (work\<lparr>cw_Lineages := ls\<rparr>) = workOk P work"
  by (simp add: workOk_def)

lemma workOk_act: "workOk P work \<Longrightarrow> P a \<Longrightarrow> workOk P (act a work)"
  by (auto simp: workOk_def act_def releases_def)

lemma proveSource_ok:
  assumes "workOk P work" and "\<And>a. provedBy state lineage r a \<Longrightarrow> P a" and "Sources r state = Inr sources" "source \<in> set sources"
  shows "workOk P (proveSource state lineage r work source) \<and> cw_Lineages (proveSource state lineage r work source) = cw_Lineages work"
proof -
  have rel: "P \<lparr>ca_Operation = ''release'', ca_Object = sourceSnapshot r (rs_Dataset source), ca_Property = referenceHold r, ca_GUID = rs_GUID source\<rparr>"
    if "heldBy state r (sourceSnapshot r (rs_Dataset source))" "heldIntact state lineage r source"
    using that assms(3,4) by (intro assms(2)) (auto simp: provedBy_def)
  have mark: "P \<lparr>ca_Operation = ''destroy-bookmark'', ca_Object = sourceBookmark r (rs_Dataset source), ca_Property = [], ca_GUID = rs_GUID source\<rparr>"
    if "hasObject state (sourceBookmark r (rs_Dataset source))"
    using that assms(3,4) by (intro assms(2)) (auto simp: provedBy_def)
  show ?thesis using assms(1) rel mark
    by (auto simp: proveSource_def Let_def workOk_def act_def releases_def block_def)
qed

lemma proveReference_ok:
  assumes "workOk P work" and "\<And>a. provedBy state lineage r a \<Longrightarrow> P a"
  shows "workOk P (proveReference state lineage r work) \<and> cw_Lineages (proveReference state lineage r work) = cw_Lineages work"
proof (cases "Sources r state")
  case (Inr sources)
  have "workOk P (foldl (proveSource state lineage r) work ss) \<and> cw_Lineages (foldl (proveSource state lineage r) work ss) = cw_Lineages work"
    if "set ss \<subseteq> set sources" for ss
    using that by (induction ss rule: rev_induct) (use assms(1) proveSource_ok [OF _ assms(2) Inr] in auto)
  then show ?thesis using Inr by (simp add: proveReference_def)
qed (use assms(1) in \<open>simp add: proveReference_def\<close>)

definition provedIn :: "State \<Rightarrow> string \<Rightarrow> CleanAction \<Rightarrow> bool" where
  "provedIn state dataset a \<longleftrightarrow>
     (\<exists>name refs r. name \<in> set (cleanDatasets state) \<and> referenceRecords state name (lineageOf state dataset name) = Inr refs
        \<and> r \<in> set refs \<and> provedBy state (lineageOf state dataset name) r a)"

definition collected :: "State \<Rightarrow> string \<Rightarrow> cleanWork \<Rightarrow> bool" where
  "collected state dataset work \<longleftrightarrow> workOk (provedIn state dataset) work
     \<and> (\<forall>name l. mget (cw_Lineages work) name = Some l \<longrightarrow> l = lineageOf state dataset name)"

lemma collected_block [simp]: "collected state dataset (block es work) = collected state dataset work"
  by (simp add: collected_def)

lemma cleanDataset_collected:
  assumes "collected state dataset work" and name: "name \<in> set (cleanDatasets state)"
    and rl: "rl = (case storedLineage state dataset of Inr l \<Rightarrow> l | Inl _ \<Rightarrow> [])"
  shows "yields (cleanDataset safety state options dataset rl work name) (collected state dataset)"
proof (cases "storedLineage state name")
  case (Inr own)
  have lin: "(if own = [] \<and> name \<noteq> dataset then rl else own) = lineageOf state dataset name"
    using Inr by (simp add: lineageOf_def rl)
  let ?l = "lineageOf state dataset name"
  let ?work = "block (lineageBlockers state options name ?l) (work\<lparr>cw_Lineages := mput name ?l (cw_Lineages work)\<rparr>)"
  have start: "collected state dataset ?work" using assms(1) by (simp add: collected_def)
  have "yields (ioFold (cleanReference safety state name ?l) ?work refs) (collected state dataset)"
    if "referenceRecords state name ?l = Inr refs" for refs
  proof (rule yields_fold, rule start)
    fix acc r
    assume r: "r \<in> set refs" and acc: "collected state dataset acc"
    have "provedIn state dataset a" if "provedBy state ?l r a" for a
      using that r name \<open>referenceRecords state name ?l = Inr refs\<close> by (auto simp: provedIn_def)
    then have "collected state dataset (proveReference state ?l r (block es acc))" for es
      using acc proveReference_ok [of "provedIn state dataset" "block es acc" state ?l r] by (simp add: collected_def)
    then show "yields (cleanReference safety state name ?l acc r) (collected state dataset)"
      unfolding cleanReference_def by (rule yields_bind [OF yields_any yields_return])
  qed
  moreover have "yields (ioReturn (block [err] ?work)) (collected state dataset)" for err
    by (rule yields_return) (simp only: collected_block start [unfolded collected_block])
  ultimately show ?thesis unfolding cleanDataset_def Inr sum.case Let_def lin by (cases "referenceRecords state name ?l") (simp_all only: sum.case)
next
  case (Inl err)
  show ?thesis unfolding cleanDataset_def Inl sum.case by (rule yields_return) (simp add: assms(1))
qed

text \<open>No name ZFS reports contains the byte that separates the parts of a key.\<close>

definition namesOk :: "State \<Rightarrow> bool" where
  "namesOk state \<longleftrightarrow> (\<forall>ob \<in> set (st_Objects state). CHR 0x00 \<notin> set (ob_Name ob))
     \<and> (\<forall>p \<in> set (st_Properties state). CHR 0x00 \<notin> set (p_Dataset p)) \<and> (\<forall>x \<in> set (st_Received state). CHR 0x00 \<notin> set (fst x))"

definition justified :: "State \<Rightarrow> string \<Rightarrow> CleanOptions \<Rightarrow> cleanMode \<Rightarrow> CleanAction list \<Rightarrow> CleanAction \<Rightarrow> bool" where
  "justified state dataset options mode actions a \<longleftrightarrow>
     provedIn state dataset a
     \<or> ca_Operation a = ''destroy-snapshot'' \<and> co_DestroyOwnedSnapshots options
       \<and> (\<exists>name \<in> set (cleanDatasets state). \<exists>s \<in> set (snapshotsIn state name).
            ca_Object a = sn_Name s \<and> ca_GUID a = sn_GUID s \<and> is_ok (Ownership s (lineageOf state dataset name))
            \<and> sn_Clones s = [] \<and> \<not> sn_ResumeRequired s
            \<and> (\<forall>tag \<in> set (sn_Holds s). \<exists>b \<in> set actions. ca_Operation b = ''release'' \<and> ca_Object b = sn_Name s \<and> ca_Property b = tag))
     \<or> ca_Operation a = ''inherit'' \<and> HasPrefix (ca_Property a) Namespace
       \<and> ((\<exists>p \<in> set (st_Properties state). p_Dataset p = ca_Object a \<and> p_Name p = ca_Property a)
          \<or> (\<exists>vals. (ca_Object a, vals) \<in> set (st_Received state) \<and> ca_Property a \<in> set (mkeys vals)))
       \<and> (cm_Retirement mode \<longrightarrow> \<not> IsPublic (ca_Property a) \<and> CHR ''@'' \<notin> set (ca_Object a) \<and> CHR ''#'' \<notin> set (ca_Object a))"

lemma Cut_pairKey: "CHR 0x00 \<notin> set object \<Longrightarrow> Cut (pairKey object name) (CHR 0x00) = (object, name, True)"
  by (simp add: pairKey_def Cut_append)

lemma pairKey_eq:
  assumes "CHR 0x00 \<notin> set o1" "CHR 0x00 \<notin> set o2" "pairKey o1 n1 = pairKey o2 n2"
  shows "o1 = o2 \<and> n1 = n2"
proof -
  have "(o1, n1, True) = (o2, n2, True)" using Cut_pairKey [OF assms(1)] Cut_pairKey [OF assms(2)] assms(3) by metis
  then show ?thesis by simp
qed

lemma inheritAction_pairKey:
  "CHR 0x00 \<notin> set object \<Longrightarrow> inheritAction (pairKey object name) = \<lparr>ca_Operation = ''inherit'', ca_Object = object, ca_Property = name, ca_GUID = 0\<rparr>"
  by (simp add: inheritAction_def Cut_pairKey)

lemma snapshot_name_ok: "namesOk state \<Longrightarrow> s \<in> set (snapshotsIn state name) \<Longrightarrow> CHR 0x00 \<notin> set (sn_Name s)"
  by (auto simp: namesOk_def snapshotsIn_def snapshotOf_def)

lemma heldIntact_name_ok:
  assumes "namesOk state" and "heldIntact state lineage r source"
  shows "CHR 0x00 \<notin> set (sourceSnapshot r (rs_Dataset source))"
proof -
  obtain s where "find (\<lambda>s. sn_Name s = sourceSnapshot r (rs_Dataset source)) (snapshotsIn state (rs_Dataset source)) = Some s"
    using assms(2) by (auto simp: heldIntact_def findOwned_def split: sum.splits option.splits)
  then have "s \<in> set (snapshotsIn state (rs_Dataset source))" "sn_Name s = sourceSnapshot r (rs_Dataset source)"
    by (auto simp: find_Some_iff)
  then show ?thesis using snapshot_name_ok [OF assms(1)] by metis
qed

lemma inherit_justified:
  assumes "namesOk state" and "key \<in> set (propertyKeys state (cm_Retirement mode) destroyed)"
  shows "justified state dataset options mode actions (inheritAction key)"
proof -
  have ok: "HasPrefix name Namespace \<and> (cm_Retirement mode \<longrightarrow> \<not> IsPublic name \<and> CHR ''@'' \<notin> set object \<and> CHR ''#'' \<notin> set object)"
    if "cleansProperty (cm_Retirement mode) destroyed object name" for object name
    using that by (auto simp: cleansProperty_def)
  from assms(2) consider p where "p \<in> set (st_Properties state)" "cleansProperty (cm_Retirement mode) destroyed (p_Dataset p) (p_Name p)" "key = pairKey (p_Dataset p) (p_Name p)"
    | object vals name where "(object, vals) \<in> set (st_Received state)" "name \<in> set (mkeys vals)" "cleansProperty (cm_Retirement mode) destroyed object name" "key = pairKey object name"
    by (auto simp: propertyKeys_def)
  then show ?thesis
  proof cases
    case 1
    have "CHR 0x00 \<notin> set (p_Dataset p)" using 1(1) assms(1) by (auto simp: namesOk_def)
    then show ?thesis using 1(1) ok [OF 1(2)] by (auto simp: 1(3) inheritAction_pairKey justified_def)
  next
    case 2
    have "CHR 0x00 \<notin> set object" using 2(1) assms(1) by (auto simp: namesOk_def)
    then show ?thesis using 2(1,2) ok [OF 2(3)] by (auto simp: 2(4) inheritAction_pairKey justified_def)
  qed
qed

lemma provedBy_release_ok:
  assumes "namesOk state" "provedIn state dataset b" "ca_Operation b = ''release''"
  shows "CHR 0x00 \<notin> set (ca_Object b)"
  using assms heldIntact_name_ok [OF assms(1)] by (auto simp: provedIn_def provedBy_def)

lemma finishPlan_justified:
  assumes col: "collected state dataset work" and names: "namesOk state" and a: "a \<in> set (cp_Actions (finishPlan plan state mode work))"
  shows "justified state dataset (cp_Options plan) mode (cp_Actions (finishPlan plan state mode work)) a"
proof -
  let ?acts = "cp_Actions (finishPlan plan state mode work)"
  let ?owned = "ownedSnapshots state (cw_Lineages work) (cleanDatasets state)"
  let ?destroy = "filter (\<lambda>s. \<not> dependent (cw_Holds work) s) (if co_DestroyOwnedSnapshots (cp_Options plan) then ?owned else [])"
  have acts: "set ?acts = set (cw_Actions work) \<union> destroyAction ` set ?destroy \<union> inheritAction ` set (propertyKeys state (cm_Retirement mode) (map sn_Name ?destroy))"
    by (simp add: finishPlan_def Let_def sortCleanActions_def Un_assoc)
  have work: "workOk (provedIn state dataset) work" and lins: "\<And>name l. mget (cw_Lineages work) name = Some l \<Longrightarrow> l = lineageOf state dataset name"
    using col by (auto simp: collected_def)
  from a acts consider "a \<in> set (cw_Actions work)" | s where "s \<in> set ?destroy" "a = destroyAction s"
    | key where "key \<in> set (propertyKeys state (cm_Retirement mode) (map sn_Name ?destroy))" "a = inheritAction key" by auto
  then show ?thesis
  proof cases
    case 1
    then show ?thesis using work by (auto simp: workOk_def justified_def)
  next
    case 2
    then obtain name where s: "co_DestroyOwnedSnapshots (cp_Options plan)" "name \<in> set (cleanDatasets state)" "s \<in> set (snapshotsIn state name)"
      "is_ok (Ownership s (mindex (cw_Lineages work) name))" "\<not> dependent (cw_Holds work) s" by (auto simp: ownedSnapshots_def split: if_splits)
    have "\<not> is_ok (Ownership s [])" by (simp add: Ownership_def)
    then obtain l where "mget (cw_Lineages work) name = Some l" using s(4) by (cases "mget (cw_Lineages work) name") (auto simp: mindex_def)
    then have own: "is_ok (Ownership s (lineageOf state dataset name))" using s(4) lins by (auto simp: mindex_def)
    have "\<exists>b \<in> set ?acts. ca_Operation b = ''release'' \<and> ca_Object b = sn_Name s \<and> ca_Property b = tag" if "tag \<in> set (sn_Holds s)" for tag
    proof -
      have "pairKey (sn_Name s) tag \<in> set (cw_Holds work)" using that s(5) by (auto simp: dependent_def list_ex_iff)
      then obtain b where b: "b \<in> set (cw_Actions work)" "ca_Operation b = ''release''" "pairKey (sn_Name s) tag = pairKey (ca_Object b) (ca_Property b)"
        using work by (auto simp: workOk_def releases_def)
      have "CHR 0x00 \<notin> set (ca_Object b)" using b(1,2) work provedBy_release_ok [OF names] by (auto simp: workOk_def)
      then have "ca_Object b = sn_Name s \<and> ca_Property b = tag" using pairKey_eq [OF snapshot_name_ok [OF names s(3)] _ b(3)] by simp
      then show ?thesis using b(1,2) acts by blast
    qed
    moreover have "sn_Clones s = []" "\<not> sn_ResumeRequired s" using s(5) by (auto simp: dependent_def)
    ultimately show ?thesis unfolding justified_def 2(2) destroyAction_def using s own
      by (intro disjI2 disjI1 conjI bexI [of _ name] bexI [of _ s]) simp_all
  next
    case 3
    then show ?thesis using inherit_justified [OF names] by blast
  qed
qed

lemma sorted_actions: "sorted (map actionRank (sortCleanActions actions))"
proof -
  have "sorted (map (\<lambda>a. (actionRank a, ca_Object a, ca_Property a)) (sortCleanActions actions))" by (simp add: sortCleanActions_def)
  then show ?thesis by (simp add: sorted_map sorted_wrt_iff_nth_less less_eq_prod_def) (metis order_le_less)
qed

definition planJustified :: "string \<Rightarrow> CleanOptions \<Rightarrow> cleanMode \<Rightarrow> CleanPlan \<times> State \<times> go_error option \<Rightarrow> bool" where
  "planJustified dataset options mode r \<longleftrightarrow>
     (case r of (plan, state, err) \<Rightarrow> err = None \<and> namesOk state \<longrightarrow>
        sorted (map actionRank (cp_Actions plan)) \<and> (\<forall>a \<in> set (cp_Actions plan). justified state dataset options mode (cp_Actions plan) a))"

lemma planJustified_finish:
  assumes "collected state dataset work" and "cp_Options plan = options"
  shows "planJustified dataset options mode (finishPlan plan state mode work, state, err)"
  using finishPlan_justified [OF assms(1), of _ plan mode] assms(2) sorted_actions
  by (auto simp: planJustified_def finishPlan_def Let_def)

lemma planJustified_err [simp]: "planJustified dataset options mode (plan, state, Some err)"
  by (simp add: planJustified_def)

lemma yields_cleanPlan:
  assumes "co_ForgetTargets options = []"
  shows "yields (cleanPlan e installation dataset options safety mode) (planJustified dataset options mode)"
proof -
  have work: "yields (ioBind (ioFold (cleanDataset safety state options dataset (case storedLineage state dataset of Inr lineage \<Rightarrow> lineage | Inl _ \<Rightarrow> [])) newWork (cleanDatasets state))
      (\<lambda>work. ioReturn (finishPlan plan state mode work, state, None))) (planJustified dataset options mode)"
    if "cp_Options plan = options" for state plan
  proof (rule yields_bind [of _ "collected state dataset"])
    show "yields (ioFold (cleanDataset safety state options dataset (case storedLineage state dataset of Inr lineage \<Rightarrow> lineage | Inl _ \<Rightarrow> [])) newWork (cleanDatasets state))
      (collected state dataset)"
      by (rule yields_fold) (auto simp: collected_def newWork_def workOk_def mget_def intro!: cleanDataset_collected)
  qed (auto intro!: yields_return planJustified_finish that)
  show ?thesis unfolding cleanPlan_def Let_def using assms
    by (auto simp: newCleanPlan_def intro!: yields_return yields_try [OF yields_any] yields_bind [OF yields_any] work split: option.splits)
qed

text \<open>
  C36: A clean plan only touches what it can account for. Every action of a plan is the release of a hold or the destruction of a bookmark that a
  stored recovery proof of a dataset in scope accounts for, with ownership of the held snapshot verified; or the destruction, asked for, of a snapshot
  owned by the dataset's lineage, without clones or resumable state and with each of its holds released by the same plan; or the clearing of a
  property of this program's namespace that is stored or received there, in a retirement never a public one and never on a snapshot or bookmark.
  The actions stand in the order references, snapshots, snapshot metadata, dataset properties, lineage.
\<close>

theorem clean_plan_justified:
  assumes "cleanPlan e installation dataset options safety mode w = (Inr (plan, state, None), w')"
    and "co_ForgetTargets options = []" and "namesOk state"
  shows "sorted (map actionRank (cp_Actions plan)) \<and> (\<forall>a \<in> set (cp_Actions plan). justified state dataset options mode (cp_Actions plan) a)"
  using yieldsD [OF yields_cleanPlan [OF assms(2)] assms(1)] assms(3) by (simp add: planJustified_def)

lemma Clean_run:
  assumes "Clean (logged e) installation dataset options apply (loggedSafetyOpt safety) (w, []) = (r, (w', l))"
  obtains plan err where "r = Inr (plan, err)" "carriedOut dataset (optionSubtree options) apply [] (plan, err) (w', l) \<or> l = [] \<and> cp_Actions plan = [] \<and> cp_Applied plan = 0 \<and> err \<noteq> None"
proof (cases "validateDataset dataset")
  case None
  then have "clean (logged e) installation dataset options apply (loggedSafetyOpt safety) cleanOnly (w, []) = (r, (w', l))"
    using assms by (simp add: Clean_def lock_def ioTry_def)
  from runsD [OF runs_clean _ this, of "[]"] show ?thesis using that by (cases r) auto
next
  case (Some err)
  let ?none = "newCleanPlan [] \<lparr>co_Recursive = False, co_DestroyOwnedSnapshots = False, co_ForgetTargets = []\<rparr>"
  have "r = Inr (?none, Some err)" "l = []" using assms Some by (simp_all add: Clean_def lock_def ioTry_def)
  then show ?thesis by (intro that [of ?none "Some err"]) (simp_all add: newCleanPlan_def)
qed

text \<open>
  C35: Carrying out a clean never does anything but the plan it returns. Whatever the backend answers, \<open>Clean\<close> returns; the commands it issued are an
  initial part of the plan's actions in order, at most one beyond the count it reports as applied; there are none unless it was asked to apply and the
  plan has no blocker; without an error all have been applied; and just before each command the state was read and was
  equal to a state read before.
\<close>

theorem Clean_applies_plan:
  assumes "Clean (logged e) installation dataset options apply (loggedSafetyOpt safety) (w, []) = (r, (w', l))"
  shows "\<exists>plan err n. r = Inr (plan, err) \<and> writes l = map actionWrite (take n (cp_Actions plan)) \<and> n \<le> length (cp_Actions plan)
    \<and> cp_Applied plan \<le> n \<and> n \<le> Suc (cp_Applied plan)
    \<and> (writes l \<noteq> [] \<longrightarrow> apply \<and> cp_Blockers plan = [])
    \<and> (apply \<and> err = None \<longrightarrow> cp_Applied plan = length (cp_Actions plan))
    \<and> guardedLog (confirmed dataset (optionSubtree options)) l"
  using assms
proof (rule Clean_run)
  fix plan err
  assume r: "r = Inr (plan, err)"
    and c: "carriedOut dataset (optionSubtree options) apply [] (plan, err) (w', l) \<or> l = [] \<and> cp_Actions plan = [] \<and> cp_Applied plan = 0 \<and> err \<noteq> None"
  from c show ?thesis
  proof
    assume "carriedOut dataset (optionSubtree options) apply [] (plan, err) (w', l)"
    then obtain n where "n \<le> length (cp_Actions plan)" "cp_Applied plan \<le> n" "n \<le> Suc (cp_Applied plan)" "writes l = map actionWrite (take n (cp_Actions plan))"
      "0 < n \<longrightarrow> apply \<and> cp_Blockers plan = []" "apply \<and> err = None \<longrightarrow> cp_Applied plan = length (cp_Actions plan)"
      "guardedLog (confirmed dataset (optionSubtree options)) l" by (auto simp: carriedOut_def)
    then show ?thesis using r by (intro exI [of _ plan] exI [of _ err] exI [of _ n]) auto
  qed (use r in auto)
qed

definition exSafe :: "State CleanSafety" where
  "exSafe = \<lparr>sf_Quiescent = (\<lambda>_. ioReturn ()), sf_CheckTarget = (\<lambda>_ _. ioReturn ())\<rparr>"

definition exStored :: State where
  "exStored = (memAdd (sn_Name (exSnapshot (1000 * Minute) 11)) ''snapshot'' 11 exTank)
     \<lparr>st_Properties := st_Properties exTank @ sn_Properties (exSnapshot (1000 * Minute) 11)\<rparr>"

definition exDestroy :: CleanOptions where
  "exDestroy = \<lparr>co_Recursive = False, co_DestroyOwnedSnapshots = True, co_ForgetTargets = []\<rparr>"

lemma exCleaned:
  "writes (snd (snd (Clean (logged memory) exInstallation ''tank'' exDestroy True (loggedSafetyOpt (Some exSafe)) (exTank, []))))
    = [InheritProp ''tank'' OwnerProperty, InheritProp ''tank'' VersionProperty, InheritProp ''tank'' LineageProperty]"
  by code_simp

lemma exPlanned:
  "case fst (cleanPlan memory exInstallation ''tank'' exDestroy (Some exSafe) cleanOnly exStored) of
     Inr (plan, state, err) \<Rightarrow> err = None \<and> namesOk state \<and> map actionRank (cp_Actions plan) = [2, 4, 4, 5]
   | Inl _ \<Rightarrow> False"
  by code_simp

theorem clean_plan_justified_witness:
  "\<exists>plan state. fst (cleanPlan memory exInstallation ''tank'' exDestroy (Some exSafe) cleanOnly exStored) = Inr (plan, state, None)
     \<and> map actionRank (cp_Actions plan) = [2, 4, 4, 5] \<and> (\<forall>a \<in> set (cp_Actions plan). justified state ''tank'' exDestroy cleanOnly (cp_Actions plan) a)"
proof -
  obtain plan state w where run: "cleanPlan memory exInstallation ''tank'' exDestroy (Some exSafe) cleanOnly exStored = (Inr (plan, state, None), w)"
    and ok: "namesOk state" "map actionRank (cp_Actions plan) = [2, 4, 4, 5]"
    using exPlanned by (cases "cleanPlan memory exInstallation ''tank'' exDestroy (Some exSafe) cleanOnly exStored") (auto split: sum.splits)
  then show ?thesis using clean_plan_justified [OF run _ ok(1)] by (simp add: exDestroy_def)
qed

theorem Clean_applies_plan_witness:
  "\<exists>plan err n. fst (Clean (logged memory) exInstallation ''tank'' exDestroy True (loggedSafetyOpt (Some exSafe)) (exTank, [])) = Inr (plan, err)
     \<and> map actionWrite (take n (cp_Actions plan)) = [InheritProp ''tank'' OwnerProperty, InheritProp ''tank'' VersionProperty, InheritProp ''tank'' LineageProperty]
     \<and> cp_Blockers plan = []"
proof -
  obtain r w l where run: "Clean (logged memory) exInstallation ''tank'' exDestroy True (loggedSafetyOpt (Some exSafe)) (exTank, []) = (r, (w, l))"
    by (cases "Clean (logged memory) exInstallation ''tank'' exDestroy True (loggedSafetyOpt (Some exSafe)) (exTank, [])") auto
  then have l: "writes l = [InheritProp ''tank'' OwnerProperty, InheritProp ''tank'' VersionProperty, InheritProp ''tank'' LineageProperty]" using exCleaned by simp
  obtain plan err n where "r = Inr (plan, err)" "writes l = map actionWrite (take n (cp_Actions plan))" "cp_Blockers plan = []"
    using Clean_applies_plan [OF run] l by (metis list.distinct(1))
  with run l show ?thesis by (intro exI [of _ plan] exI [of _ err] exI [of _ n]) simp
qed

subsection \<open>Forgetting a target\<close>

text \<open>What an action that forgets the given targets may do.\<close>

definition forgets :: "string \<Rightarrow> string list \<Rightarrow> CleanAction \<Rightarrow> bool" where
  "forgets dataset ids a \<longleftrightarrow>
     (\<exists>target \<in> set ids.
        ca_Operation a = ''release'' \<and> ca_Property a = SnapshotPrefix @ target
        \<or> ca_Operation a = ''destroy-bookmark'' \<and> (\<exists>d rest. ca_Object a = d @ ''#'' @ SnapshotPrefix @ target @ ''-'' @ rest)
        \<or> ca_Operation a = ''inherit'' \<and> ca_Object a = dataset
          \<and> (HasPrefix (ca_Property a) (ReferencePrefix @ target @ '':'')
             \<or> HasPrefix (ca_Property a) TargetStatePrefix \<and> cutBefore (TrimPrefix (ca_Property a) TargetStatePrefix) (CHR '':'') = target))"

lemma provedBy_forgets: "rf_TargetID r \<in> set ids \<Longrightarrow> provedBy state lineage r a \<Longrightarrow> forgets dataset ids a"
  unfolding forgets_def provedBy_def referenceHold_def sourceBookmark_def append_assoc by blast

lemma inherit_proof_forgets:
  assumes "rf_TargetID r \<in> set ids"
  shows "forgets dataset ids \<lparr>ca_Operation = ''inherit'', ca_Object = dataset, ca_Property = referenceProperty r, ca_GUID = 0\<rparr>"
proof -
  have "referenceProperty r = (ReferencePrefix @ rf_TargetID r @ '':'') @ (streamID (rf_Dataset r) @ '':'' @ md_Snapshot (rf_Metadata r))"
    by (simp only: referenceProperty_def append_assoc)
  then have "HasPrefix (referenceProperty r) (ReferencePrefix @ rf_TargetID r @ '':'')" by (simp only: HasPrefix_append)
  then show ?thesis unfolding forgets_def CleanAction.simps by (intro bexI [OF _ assms] disjI2 conjI disjI1 refl)
qed

lemma forgetReference_ok:
  "workOk (forgets dataset ids) (fst acc) \<Longrightarrow> workOk (forgets dataset ids) (fst (forgetReference state dataset lineage ids acc r))"
  using proveReference_ok [OF workOk_act] inherit_proof_forgets provedBy_forgets
  by (auto simp: forgetReference_def split: prod.splits)

lemma forgetProofs_ok: "workOk (forgets dataset ids) (fst (forgetProofs state dataset ids))"
proof -
  have "workOk (forgets dataset ids) (fst (foldl (forgetReference state dataset lineage ids) (newWork, []) refs))" for lineage refs
    by (induction refs rule: rev_induct) (simp_all add: forgetReference_ok)
  then show ?thesis by (auto simp: forgetProofs_def split: sum.splits)
qed

lemma forgetProperty_ok:
  "workOk (forgets dataset ids) (fst acc) \<Longrightarrow> workOk (forgets dataset ids) (fst (forgetProperty dataset ids acc p))"
  by (auto simp: forgetProperty_def forgottenTarget_def Let_def forgets_def intro!: workOk_act split: prod.splits option.splits if_splits)

lemma finishForget_ok: "a \<in> set (cp_Actions (finishForget plan state dataset ids)) \<Longrightarrow> forgets dataset ids a"
proof -
  have "workOk (forgets dataset ids) (fst (foldl (forgetProperty dataset ids) (forgetProofs state dataset ids) ps))" for ps
    by (induction ps rule: rev_induct) (simp_all add: forgetProofs_ok forgetProperty_ok)
  then show "a \<in> set (cp_Actions (finishForget plan state dataset ids)) \<Longrightarrow> forgets dataset ids a"
    by (auto simp: finishForget_def sortCleanActions_def workOk_def split: prod.splits) (metis fst_conv)
qed

definition forgetting :: "string \<Rightarrow> string list \<Rightarrow> CleanPlan \<Rightarrow> bool" where
  "forgetting dataset ids plan \<longleftrightarrow> (\<forall>a \<in> set (cp_Actions plan). forgets dataset ids a)"

lemma forgetting_new [simp]: "forgetting dataset ids (newCleanPlan d options)"
  by (simp add: forgetting_def newCleanPlan_def)

lemma yields_forgetPlan:
  "co_ForgetTargets options \<noteq> [] \<Longrightarrow> yields (cleanPlan e installation dataset options safety mode) (\<lambda>(plan, _). forgetting dataset (co_ForgetTargets options) plan)"
  unfolding cleanPlan_def forgetPlan_def Let_def
  by (auto intro!: yields_return yields_try [OF yields_any] yields_bind [OF yields_any] simp: finishForget_ok forgetting_def newCleanPlan_def split: option.splits)

lemma cleanApply_actions: "yields (cleanApply e dataset sub current plan actions) (\<lambda>(plan', _). cp_Actions plan' = cp_Actions plan)"
proof (induction actions arbitrary: current plan)
  case Nil
  show ?case unfolding cleanApply.simps by (rule yields_return) simp
next
  case (Cons a actions)
  show ?case unfolding cleanApply.simps Let_def
    by (intro yields_try [OF yields_any] yields_return) (auto intro!: yields_return yields_weaken [OF Cons.IH])
qed

lemma clean_actions:
  assumes "yields (cleanPlan e installation dataset options safety mode) (\<lambda>(plan, _). Q (cp_Actions plan))"
  shows "yields (clean e installation dataset options apply safety mode) (\<lambda>(plan, _). Q (cp_Actions plan))"
  unfolding clean_def
proof (rule yields_bind [OF assms], clarify)
  fix plan :: CleanPlan and state err
  assume q: "Q (cp_Actions plan)"
  have "yields (cleanApply e dataset sub current plan (cp_Actions plan)) (\<lambda>(plan, _). Q (cp_Actions plan))" for sub current
    by (rule yields_weaken [OF cleanApply_actions]) (use q in auto)
  then show "yields (if err \<noteq> None \<or> \<not> apply then ioReturn (plan, err)
     else if cp_Blockers plan \<noteq> [] then ioReturn (plan, Some (Errorf ''clean blocked'' []))
     else ioBind (cleanPlan e installation dataset options safety mode) (\<lambda>(fresh, current, err).
       if err \<noteq> None then ioReturn (plan, err)
       else if plan \<noteq> fresh \<or> state \<noteq> current then ioReturn (plan, Some (Errorf ''clean state changed; preview again'' []))
       else cleanApply e dataset (optionSubtree options) current plan (cp_Actions plan))) (\<lambda>(plan, _). Q (cp_Actions plan))"
    using q by (auto intro!: yields_return yields_bind [OF yields_any])
qed

text \<open>
  C37: Forgetting targets touches nothing else. When \<open>Clean\<close> is given targets to forget, every action of the plan it returns releases a hold
  tagged for one of them, destroys a bookmark named for one of them, or clears from the root a recovery proof or other state kept for one of them; no
  snapshot is destroyed and no other target's state is in the plan.
\<close>

theorem forget_only_targets:
  assumes "Clean e installation dataset options apply safety w = (Inr (plan, err), w')" and "co_ForgetTargets options \<noteq> []"
  shows "\<forall>a \<in> set (cp_Actions plan). forgets dataset (co_ForgetTargets options) a \<and> ca_Operation a \<noteq> ''destroy-snapshot''"
proof -
  have "yields (clean e installation dataset options apply safety cleanOnly) (\<lambda>(plan, _). \<forall>a \<in> set (cp_Actions plan). forgets dataset (co_ForgetTargets options) a)"
    using yields_forgetPlan [OF assms(2), of e installation dataset safety cleanOnly] unfolding forgetting_def by (rule clean_actions)
  then have "yields (Clean e installation dataset options apply safety) (\<lambda>(plan, _). \<forall>a \<in> set (cp_Actions plan). forgets dataset (co_ForgetTargets options) a)"
    unfolding Clean_def by (intro yields_try [OF yields_any] yields_return) (simp_all add: newCleanPlan_def)
  from yieldsD [OF this assms(1)] show ?thesis by (auto simp: forgets_def)
qed

definition exTarget :: string where
  "exTarget = replicate 64 (CHR ''0'')"

definition exBound :: State where
  "exBound = memSet ''tank'' [(TargetStatePrefix @ exTarget, ''nas'')] exTank"

definition exForget :: CleanOptions where
  "exForget = \<lparr>co_Recursive = False, co_DestroyOwnedSnapshots = False, co_ForgetTargets = [exTarget]\<rparr>"

lemma exForgotten:
  "case fst (Clean memory exInstallation ''tank'' exForget False None exBound) of
     Inr (plan, err) \<Rightarrow> map ca_Property (cp_Actions plan) = [TargetStatePrefix @ exTarget] | Inl _ \<Rightarrow> False"
  by code_simp

theorem forget_only_targets_witness:
  "\<exists>plan err. fst (Clean memory exInstallation ''tank'' exForget False None exBound) = Inr (plan, err)
     \<and> map ca_Property (cp_Actions plan) = [TargetStatePrefix @ exTarget] \<and> (\<forall>a \<in> set (cp_Actions plan). forgets ''tank'' [exTarget] a)"
proof -
  obtain plan err w where run: "Clean memory exInstallation ''tank'' exForget False None exBound = (Inr (plan, err), w)"
    and acts: "map ca_Property (cp_Actions plan) = [TargetStatePrefix @ exTarget]"
    using exForgotten by (cases "Clean memory exInstallation ''tank'' exForget False None exBound") (auto split: sum.splits)
  then show ?thesis using forget_only_targets [OF run] by (simp add: exForget_def)
qed

subsection \<open>Retirement\<close>

text \<open>A state that makes a root due: its own marker, under this installation's authority, is older than the grace period.\<close>

definition dueState :: "State \<Rightarrow> string \<Rightarrow> string \<Rightarrow> instant \<Rightarrow> int \<Rightarrow> bool" where
  "dueState state dataset installation observedAt grace \<longleftrightarrow>
     0 < grace \<and> (\<exists>m since. decodeInactiveMarker state dataset = Inr (Some m) \<and> RootAuthority state dataset installation = Inr (im_Lineage m)
       \<and> exactDatasetGUID state dataset = Inr (im_DatasetGUID m) \<and> im_Owner m = installation
       \<and> ParseRFC3339 (im_Since m) = Some since \<and> since + grace \<le> observedAt)"

lemma inactivePlan_due:
  "inactivePlan state dataset installation active observedAt grace = (plan, None) \<Longrightarrow> ip_Due plan \<Longrightarrow> dueState state dataset installation observedAt grace"
  by (auto simp: inactivePlan_def newInactivePlan_def validateInactiveMarker_def dueState_def Let_def split: option.splits sum.splits if_splits)

definition retired :: "string \<Rightarrow> bool \<Rightarrow> string \<Rightarrow> instant \<Rightarrow> int \<Rightarrow> bool \<Rightarrow> RetirementPlan \<times> go_error option \<Rightarrow> 'w logworld \<Rightarrow> bool" where
  "retired dataset recursive installation observedAt grace apply r x \<longleftrightarrow>
     writes (snd x) \<noteq> [] \<longrightarrow>
       apply \<and> rp_Eligible (fst r) \<and> cp_Blockers (rp_Clean (fst r)) = []
       \<and> prefix (writes (snd x)) (map actionWrite (cp_Actions (rp_Clean (fst r))))
       \<and> (\<exists>state. Read dataset recursive (Inr state) \<in> set (snd x) \<and> dueState state dataset installation observedAt grace)"

lemma retired_quiet: "writes (snd x) = [] \<Longrightarrow> retired dataset recursive installation observedAt grace apply r x"
  by (simp add: retired_def)

lemma carriedOut_retired:
  assumes "carriedOut dataset recursive apply l (plan, err) x" and "Read dataset recursive (Inr state) \<in> set l" and "dueState state dataset installation observedAt grace"
  shows "retired dataset recursive installation observedAt grace apply (\<lparr>rp_Inactive = ip, rp_Eligible = True, rp_Clean = plan\<rparr>, err) x"
proof -
  obtain n where n: "n \<le> length (cp_Actions plan)" "writes (snd x) = map actionWrite (take n (cp_Actions plan))" "0 < n \<longrightarrow> apply \<and> cp_Blockers plan = []" "prefix l (snd x)"
    using assms(1) by (auto simp: carriedOut_def)
  have "prefix (writes (snd x)) (map actionWrite (cp_Actions plan))" unfolding n(2) by (simp add: take_is_prefix take_map [symmetric])
  moreover have "Read dataset recursive (Inr state) \<in> set (snd x)" using assms(2) n(4) set_mono_prefix by blast
  ultimately show ?thesis using n(2,3) assms(3) by (auto simp: retired_def)
qed

lemma runs_retireWhenDue:
  "runs (\<lambda>x. snd x = [Read dataset recursive (Inr state), Query])
     (retireWhenDue (logged e) installation dataset recursive observedAt grace apply (loggedSafetyOpt safety) state active)
     (retired dataset recursive installation observedAt grace apply) (\<lambda>_ _. False)"
proof -
  let ?post = "retired dataset recursive installation observedAt grace apply"
  let ?options = "\<lparr>co_Recursive = recursive, co_DestroyOwnedSnapshots = True, co_ForgetTargets = []\<rparr>"
  let ?l = "[Read dataset recursive (Inr state), Query]"
  have sub: "optionSubtree ?options = recursive" by (simp add: optionSubtree_def)
  have cl: "runs (\<lambda>x. snd x = ?l)
      (ioBind (clean (logged e) installation dataset ?options apply (loggedSafetyOpt safety) mode) (\<lambda>(plan, err).
         ioReturn (\<lparr>rp_Inactive = ip, rp_Eligible = True, rp_Clean = plan\<rparr>, err))) ?post (\<lambda>_ _. False)"
    if "dueState state dataset installation observedAt grace" for ip mode
  proof (rule runs_bind)
    show "runs (\<lambda>x. snd x = ?l) (clean (logged e) installation dataset ?options apply (loggedSafetyOpt safety) mode)
        (carriedOut dataset recursive apply ?l) (\<lambda>_ _. False)"
      using runs_clean [of ?l e installation dataset ?options "apply" safety mode] by (simp add: sub)
  qed (auto intro!: runs_return carriedOut_retired [OF _ _ that])
  obtain ip err where ip: "inactivePlan state dataset installation active observedAt grace = (ip, err)" by fastforce
  show ?thesis unfolding retireWhenDue_def ip prod.case
    using ip inactivePlan_due by (auto intro!: runs_if runs_return retired_quiet cl)
qed

lemma runs_Retire:
  "runs (\<lambda>x. snd x = []) (Retire (logged e) installation dataset recursive observedAt grace apply (loggedSafetyOpt safety))
     (retired dataset recursive installation observedAt grace apply) (\<lambda>_ _. False)"
proof -
  let ?post = "retired dataset recursive installation observedAt grace apply"
  have fail: "runs (\<lambda>x. writes (snd x) = []) (ioReturn (noRetirement, Some err)) ?post (\<lambda>_ _. False)" for err
    by (auto intro!: runs_return retired_quiet)
  have read: "runs (\<lambda>x. snd x = []) (lock dataset (noting (Read dataset recursive) (zInspectState e dataset recursive)))
      (\<lambda>state x. snd x = [Read dataset recursive (Inr state)]) (\<lambda>_ x. writes (snd x) = [])"
    unfolding lock_def by (auto intro!: runs_check runs_noting_at)
  have query: "runs (\<lambda>x. snd x = [Read dataset recursive (Inr state)]) (noting (\<lambda>_. Query) (zGetActivationProperties e))
      (\<lambda>_ x. snd x = [Read dataset recursive (Inr state), Query]) (\<lambda>_ x. writes (snd x) = [])" for state
    by (rule runs_noting_at) auto
  have lift: "runs (\<lambda>x. snd x = [Read dataset recursive (Inr state), Query]) (ioLift r)
      (\<lambda>_ x. snd x = [Read dataset recursive (Inr state), Query]) (\<lambda>_ x. writes (snd x) = [])" for state and r :: "bool result"
    by (rule runs_lift) auto
  show ?thesis unfolding Retire_def Let_def logged_simps
    by (rule runs_try [OF read runs_try [OF query runs_try [OF lift runs_retireWhenDue fail] fail] fail])
qed

text \<open>
  C38: A root is only retired when it is due. Whatever the backend answers, if \<open>Retire\<close> writes anything then it was asked to apply, it read, under
  this installation's authority and for this very dataset, a local marker at least the grace period old, and what it wrote is an initial part of the
  actions of the clean plan it returns, which has no blocker.
\<close>

theorem Retire_only_when_due:
  assumes "Retire (logged e) installation dataset recursive observedAt grace apply (loggedSafetyOpt safety) (w, []) = (r, (w', l))" and "writes l \<noteq> []"
  shows "\<exists>result err. r = Inr (result, err) \<and> apply \<and> rp_Eligible result \<and> cp_Blockers (rp_Clean result) = []
    \<and> prefix (writes l) (map actionWrite (cp_Actions (rp_Clean result)))
    \<and> (\<exists>state. Read dataset recursive (Inr state) \<in> set l \<and> dueState state dataset installation observedAt grace)"
  using runsD [OF runs_Retire _ assms(1)] assms(2) by (cases r) (auto simp: retired_def)

definition exInactive :: State where
  "exInactive = memSet ''tank'' [(InactiveProperty, encodeMarker \<lparr>im_Version = 1, im_Since = ''0001-01-02T00:00:00Z'', im_DatasetGUID = 7,
     im_Lineage = exLineage, im_Owner = exInstallation\<rparr>)] exTank"

abbreviation exRetire :: "State logworld \<Rightarrow> (RetirementPlan \<times> go_error option) result \<times> State logworld" where
  "exRetire \<equiv> Retire (logged memory) exInstallation ''tank'' False (3 * DayNanos) DayNanos True (loggedSafetyOpt (Some exSafe))"

lemma exRetired:
  "writes (snd (snd (exRetire (exInactive, [])))) = [InheritProp ''tank'' InactiveProperty, InheritProp ''tank'' OwnerProperty,
     InheritProp ''tank'' VersionProperty, InheritProp ''tank'' LineageProperty]"
  by code_simp

theorem Retire_only_when_due_witness:
  "\<exists>state. Read ''tank'' False (Inr state) \<in> set (snd (snd (exRetire (exInactive, [])))) \<and> dueState state ''tank'' exInstallation (3 * DayNanos) DayNanos"
proof -
  obtain r w l where run: "exRetire (exInactive, []) = (r, (w, l))" by (cases "exRetire (exInactive, [])") auto
  with exRetired have "writes l \<noteq> []" by simp
  from Retire_only_when_due [OF run this] run show ?thesis by auto
qed

end
