(* ===== verification/Lifecycle_Gate.thy ===== *)
theory Lifecycle_Gate
  imports Zfs_State
begin

section \<open>The activation gate\<close>

text \<open>
  \<open>internal/lifecycle/gate.go\<close>: tickets for queued and running work, and the switch that stops the work of a scope. A ticket is known by the number it
  was allocated under; the map of scopes never drops one, so a ticket's scope is the dataset it was queued for.
  Each method holds the mutex throughout and is one definition; a wait is its locked section, repeated when a channel it
  waits on is closed. A context is the flag that says whether it is cancelled: cancelling a ticket sets it, and so does cancelling the caller's
  context, at any time.
\<close>

subsection \<open>State\<close>

abbreviation Management :: nat where "Management \<equiv> 0"
abbreviation Transfer :: nat where "Transfer \<equiv> 1"

record Ticket =
  tk_scope :: string
  tk_kind :: nat
  tk_cancelled :: bool
  tk_running :: bool
  tk_finished :: bool

record scope =
  sc_enabled :: bool
  sc_tickets :: "nat list"

record Gate =
  gt_scopes :: "(string, scope) gomap"
  gt_tickets :: "Ticket list"

record GateStatus =
  gs_Enabled :: bool
  gs_Queued :: nat
  gs_Management :: nat
  gs_Transfers :: nat

definition newGate :: Gate where
  "newGate = \<lparr>gt_scopes = [], gt_tickets = []\<rparr>"

definition newScope :: scope where
  "newScope = \<lparr>sc_enabled = False, sc_tickets = []\<rparr>"

definition scopeOf :: "Gate \<Rightarrow> string \<Rightarrow> scope" where
  "scopeOf g dataset = (case mget (gt_scopes g) dataset of Some s \<Rightarrow> s | None \<Rightarrow> newScope)"

definition putScope :: "string \<Rightarrow> scope \<Rightarrow> Gate \<Rightarrow> Gate" where
  "putScope dataset s g = g\<lparr>gt_scopes := mput dataset s (gt_scopes g)\<rparr>"

text \<open>\<open>get\<close> allocates a scope that is not there.\<close>

definition getScope :: "string \<Rightarrow> Gate \<Rightarrow> Gate" where
  "getScope dataset g = putScope dataset (scopeOf g dataset) g"

subsection \<open>Operations\<close>

definition cancelTicket :: "nat \<Rightarrow> Gate \<Rightarrow> Gate" where
  "cancelTicket t g = g\<lparr>gt_tickets := (gt_tickets g)[t := (gt_tickets g ! t)\<lparr>tk_cancelled := True\<rparr>]\<rparr>"

definition stopTicket :: "nat \<Rightarrow> Gate \<Rightarrow> Gate" where
  "stopTicket t g =
     (if \<not> tk_running (gt_tickets g ! t) \<or> tk_kind (gt_tickets g ! t) = Transfer then cancelTicket t g else g)"

definition SetEnabled :: "string \<Rightarrow> bool \<Rightarrow> Gate \<Rightarrow> unit result \<times> Gate" where
  "SetEnabled dataset enabled g =
     (case validateDataset dataset of
        Some e \<Rightarrow> (Inl e, g)
      | None \<Rightarrow>
          (let s = scopeOf g dataset; g = putScope dataset (s\<lparr>sc_enabled := enabled\<rparr>) g in
           (Inr (), if enabled then g else fold stopTicket (sc_tickets s) g)))"

definition Queue :: "go_error option \<Rightarrow> string \<Rightarrow> nat \<Rightarrow> Gate \<Rightarrow> nat result \<times> Gate" where
  "Queue ctxErr dataset kind g =
     (case validateDataset dataset of
        Some e \<Rightarrow> (Inl e, g)
      | None \<Rightarrow>
          if kind \<noteq> Management \<and> kind \<noteq> Transfer then (Inl (Errorf ''invalid work kind'' []), g)
          else
            (let g = getScope dataset g; s = scopeOf g dataset in
             if \<not> sc_enabled s then (Inl (Errorf ''dataset is disabled'' []), g)
             else
               (case ctxErr of
                  Some e \<Rightarrow> (Inl e, g)
                | None \<Rightarrow>
                    (let t = length (gt_tickets g);
                         ticket = \<lparr>tk_scope = dataset, tk_kind = kind, tk_cancelled = False, tk_running = False, tk_finished = False\<rparr> in
                     (Inr t, putScope dataset (s\<lparr>sc_tickets := sc_tickets s @ [t]\<rparr>) (g\<lparr>gt_tickets := gt_tickets g @ [ticket]\<rparr>))))))"

definition StartTicket :: "nat \<Rightarrow> Gate \<Rightarrow> unit result \<times> Gate" where
  "StartTicket t g =
     (let k = gt_tickets g ! t in
      if tk_finished k \<or> tk_running k then (Inl (Errorf ''ticket is finished or already running'' []), g)
      else if tk_cancelled k then (Inl ContextCanceled, g)
      else if \<not> sc_enabled (scopeOf g (tk_scope k)) then (Inl (Errorf ''dataset is disabled'' []), g)
      else (Inr (), g\<lparr>gt_tickets := (gt_tickets g)[t := k\<lparr>tk_running := True\<rparr>]\<rparr>))"

definition Finish :: "nat \<Rightarrow> Gate \<Rightarrow> Gate" where
  "Finish t g =
     (let k = gt_tickets g ! t; s = scopeOf g (tk_scope k) in
      if tk_finished k then g
      else putScope (tk_scope k) (s\<lparr>sc_tickets := filter (\<lambda>u. u \<noteq> t) (sc_tickets s)\<rparr>)
        (g\<lparr>gt_tickets := (gt_tickets g)[t := k\<lparr>tk_finished := True, tk_cancelled := True\<rparr>]\<rparr>))"

definition gateStatus :: "string \<Rightarrow> Gate \<Rightarrow> GateStatus \<times> Gate" where
  "gateStatus dataset g =
     (let g = getScope dataset g; s = scopeOf g dataset; ks = map (\<lambda>t. gt_tickets g ! t) (sc_tickets s) in
      (\<lparr>gs_Enabled = sc_enabled s,
        gs_Queued = length (filter (\<lambda>k. \<not> tk_running k \<and> \<not> tk_cancelled k) ks),
        gs_Management = length (filter (\<lambda>k. tk_running k \<and> tk_kind k = Management) ks),
        gs_Transfers = length (filter (\<lambda>k. tk_running k \<and> tk_kind k \<noteq> Management) ks)\<rparr>, g))"

subsection \<open>Waiting\<close>

datatype waitResult = Quiet | WaitFailed go_error | Waiting

definition runningIn :: "Gate \<Rightarrow> string \<Rightarrow> bool" where
  "runningIn g dataset = list_ex (\<lambda>t. tk_running (gt_tickets g ! t)) (sc_tickets (scopeOf g dataset))"

text \<open>One turn of each wait. The error of a related scope that is enabled names the first in key order.\<close>

definition WaitScopeQuiescent :: "go_error option \<Rightarrow> string \<Rightarrow> Gate \<Rightarrow> waitResult \<times> Gate" where
  "WaitScopeQuiescent ctxErr dataset g =
     (case validateDataset dataset of
        Some e \<Rightarrow> (WaitFailed e, g)
      | None \<Rightarrow>
          (let g = getScope dataset g in
           (if sc_enabled (scopeOf g dataset) then WaitFailed (Errorf ''scope is still enabled'' [])
            else
              (case ctxErr of
                 Some e \<Rightarrow> WaitFailed e
               | None \<Rightarrow> if runningIn g dataset then Waiting else Quiet), g)))"

definition relatedScope :: "string \<Rightarrow> string \<Rightarrow> bool" where
  "relatedScope dataset name = (name = dataset \<or> HasPrefix dataset (name @ ''/'') \<or> HasPrefix name (dataset @ ''/''))"

definition WaitQuiescent :: "go_error option \<Rightarrow> string \<Rightarrow> Gate \<Rightarrow> waitResult" where
  "WaitQuiescent ctxErr dataset g =
     (case validateDataset dataset of
        Some e \<Rightarrow> WaitFailed e
      | None \<Rightarrow>
          (let related = filter (relatedScope dataset) (mkeys (gt_scopes g)) in
           case find (\<lambda>name. sc_enabled (scopeOf g name)) related of
             Some name \<Rightarrow> WaitFailed (Errorf ''related scheduling scope %s is still enabled'' [Arg name])
           | None \<Rightarrow>
               (case ctxErr of
                  Some e \<Rightarrow> WaitFailed e
                | None \<Rightarrow> if list_ex (runningIn g) related then Waiting else Quiet)))"

subsection \<open>Interleavings\<close>

datatype gateLabel = Enable string bool | Queued string | Started nat | Finished nat | Cancelled nat | Asked string

inductive gateStep :: "Gate \<Rightarrow> gateLabel \<Rightarrow> Gate \<Rightarrow> bool" where
  enable: "gateStep g (Enable d b) (snd (SetEnabled d b g))"
| queue: "gateStep g (Queued d) (snd (Queue c d kind g))"
| start: "t < length (gt_tickets g) \<Longrightarrow> gateStep g (Started t) (snd (StartTicket t g))"
| finish: "t < length (gt_tickets g) \<Longrightarrow> gateStep g (Finished t) (Finish t g)"
| cancel: "t < length (gt_tickets g) \<Longrightarrow> gateStep g (Cancelled t) (cancelTicket t g)"
| status: "gateStep g (Asked d) (snd (gateStatus d g))"
| wait: "gateStep g (Asked d) (snd (WaitScopeQuiescent c d g))"

inductive gateRun :: "Gate \<Rightarrow> gateLabel list \<Rightarrow> Gate \<Rightarrow> bool" where
  nil: "gateRun g [] g"
| cons: "gateStep g a g1 \<Longrightarrow> gateRun g1 as g2 \<Longrightarrow> gateRun g (a # as) g2"

subsection \<open>Invariant\<close>

definition gateWf :: "Gate \<Rightarrow> bool" where
  "gateWf g \<longleftrightarrow>
     (\<forall>d. \<forall>t \<in> set (sc_tickets (scopeOf g d)). t < length (gt_tickets g) \<and> tk_scope (gt_tickets g ! t) = d \<and> \<not> tk_finished (gt_tickets g ! t))
     \<and> (\<forall>t < length (gt_tickets g). tk_kind (gt_tickets g ! t) = Management \<or> tk_kind (gt_tickets g ! t) = Transfer)
     \<and> (\<forall>t < length (gt_tickets g). \<not> tk_finished (gt_tickets g ! t) \<longrightarrow> t \<in> set (sc_tickets (scopeOf g (tk_scope (gt_tickets g ! t)))))
     \<and> (\<forall>t < length (gt_tickets g). \<not> tk_finished (gt_tickets g ! t) \<and> \<not> sc_enabled (scopeOf g (tk_scope (gt_tickets g ! t)))
          \<longrightarrow> tk_cancelled (gt_tickets g ! t) \<or> (tk_running (gt_tickets g ! t) \<and> tk_kind (gt_tickets g ! t) = Management))"

lemma scopeOf_putScope [simp]: "scopeOf (putScope d s g) = (\<lambda>x. if x = d then s else scopeOf g x)"
  by (auto simp: scopeOf_def putScope_def fun_eq_iff)

lemma scopeOf_tickets [simp]: "scopeOf (g\<lparr>gt_tickets := ks\<rparr>) = scopeOf g"
  by (simp add: scopeOf_def fun_eq_iff)

lemma tickets_putScope [simp]: "gt_tickets (putScope d s g) = gt_tickets g"
  by (simp add: putScope_def)

lemma getScope_view [simp]: "scopeOf (getScope d g) = scopeOf g" "gt_tickets (getScope d g) = gt_tickets g"
  by (auto simp: getScope_def fun_eq_iff)

lemma gateWf_cong: "scopeOf g' = scopeOf g \<Longrightarrow> gt_tickets g' = gt_tickets g \<Longrightarrow> gateWf g' = gateWf g"
  by (simp add: gateWf_def)

lemma gateWf_getScope [simp]: "gateWf (getScope d g) = gateWf g"
  by (rule gateWf_cong) simp_all

definition stopped :: "Ticket \<Rightarrow> Ticket" where
  "stopped k = (if \<not> tk_running k \<or> tk_kind k = Transfer then k\<lparr>tk_cancelled := True\<rparr> else k)"

lemma fold_stopTicket:
  "scopeOf (fold stopTicket ts g) = scopeOf g \<and> length (gt_tickets (fold stopTicket ts g)) = length (gt_tickets g)
   \<and> (\<forall>t < length (gt_tickets g). gt_tickets (fold stopTicket ts g) ! t = (if t \<in> set ts then stopped (gt_tickets g ! t) else gt_tickets g ! t))"
proof (induction ts arbitrary: g)
  case (Cons u ts)
  have one: "scopeOf (stopTicket u g) = scopeOf g" "length (gt_tickets (stopTicket u g)) = length (gt_tickets g)"
    "\<And>t. t < length (gt_tickets g) \<Longrightarrow> gt_tickets (stopTicket u g) ! t = (if t = u then stopped (gt_tickets g ! t) else gt_tickets g ! t)"
    by (auto simp: stopTicket_def cancelTicket_def stopped_def nth_list_update)
  have "stopped (stopped k) = stopped k" for k by (auto simp: stopped_def)
  then show ?case using Cons.IH [of "stopTicket u g"] one by auto
qed simp

lemma stopped_simps [simp]:
  "tk_scope (stopped k) = tk_scope k" "tk_kind (stopped k) = tk_kind k" "tk_running (stopped k) = tk_running k" "tk_finished (stopped k) = tk_finished k"
  "tk_cancelled (stopped k) \<longleftrightarrow> tk_cancelled k \<or> \<not> tk_running k \<or> tk_kind k = Transfer"
  by (auto simp: stopped_def)

lemma gateWf_SetEnabled:
  assumes "gateWf g"
  shows "gateWf (snd (SetEnabled d b g))"
proof (cases "validateDataset d")
  case None
  show ?thesis
  proof (cases b)
    case True
    with assms None show ?thesis by (auto simp: SetEnabled_def gateWf_def Let_def)
  next
    case False
    let ?g = "putScope d ((scopeOf g d)\<lparr>sc_enabled := False\<rparr>) g" and ?ts = "sc_tickets (scopeOf g d)"
    note f = fold_stopTicket [of ?ts ?g]
    have eq: "snd (SetEnabled d b g) = fold stopTicket ?ts ?g" using None False by (simp add: SetEnabled_def Let_def)
    let ?T = "gt_tickets g" and ?T' = "gt_tickets (fold stopTicket ?ts ?g)"
    have len: "length ?T' = length ?T" and sc: "scopeOf (fold stopTicket ?ts ?g) = (\<lambda>x. if x = d then (scopeOf g d)\<lparr>sc_enabled := False\<rparr> else scopeOf g x)"
      and nth: "\<And>t. t < length ?T \<Longrightarrow> ?T' ! t = (if t \<in> set ?ts then stopped (?T ! t) else ?T ! t)"
      using f by simp_all
    have same: "tk_scope (?T' ! t) = tk_scope (?T ! t) \<and> tk_kind (?T' ! t) = tk_kind (?T ! t) \<and> tk_running (?T' ! t) = tk_running (?T ! t)
        \<and> tk_finished (?T' ! t) = tk_finished (?T ! t) \<and> (tk_cancelled (?T ! t) \<longrightarrow> tk_cancelled (?T' ! t))
        \<and> (t \<in> set ?ts \<longrightarrow> tk_cancelled (?T' ! t) \<or> (tk_running (?T ! t) \<and> tk_kind (?T ! t) \<noteq> Transfer))" if "t < length ?T" for t
      using nth [OF that] by auto
    have ts: "sc_tickets (scopeOf (fold stopTicket ?ts ?g) x) = sc_tickets (scopeOf g x)" for x by (simp add: sc)
    note wf = assms [unfolded gateWf_def]
    show ?thesis unfolding eq gateWf_def ts len
    proof (intro conjI)
      show "\<forall>x. \<forall>t \<in> set (sc_tickets (scopeOf g x)). t < length ?T \<and> tk_scope (?T' ! t) = x \<and> \<not> tk_finished (?T' ! t)"
        using wf same by metis
      show "\<forall>t < length ?T. tk_kind (?T' ! t) = Management \<or> tk_kind (?T' ! t) = Transfer" using wf same by metis
      show "\<forall>t < length ?T. \<not> tk_finished (?T' ! t) \<longrightarrow> t \<in> set (sc_tickets (scopeOf g (tk_scope (?T' ! t))))" using wf same by metis
      show "\<forall>t < length ?T. \<not> tk_finished (?T' ! t) \<and> \<not> sc_enabled (scopeOf (fold stopTicket ?ts ?g) (tk_scope (?T' ! t)))
          \<longrightarrow> tk_cancelled (?T' ! t) \<or> (tk_running (?T' ! t) \<and> tk_kind (?T' ! t) = Management)"
      proof (intro allI impI)
        fix t
        assume t: "t < length ?T" and un: "\<not> tk_finished (?T' ! t) \<and> \<not> sc_enabled (scopeOf (fold stopTicket ?ts ?g) (tk_scope (?T' ! t)))"
        note s = same [OF t]
        show "tk_cancelled (?T' ! t) \<or> (tk_running (?T' ! t) \<and> tk_kind (?T' ! t) = Management)"
        proof (cases "tk_scope (?T ! t) = d")
          case True
          then have "t \<in> set ?ts" using wf t un s by metis
          then show ?thesis using s wf t by metis
        next
          case False
          then have "\<not> sc_enabled (scopeOf g (tk_scope (?T ! t)))" using un s by (simp add: sc)
          then show ?thesis using wf t un s by metis
        qed
      qed
    qed
  qed
qed (use assms in \<open>simp add: SetEnabled_def\<close>)

lemma gateWf_enqueue:
  assumes "gateWf g" and "sc_enabled (scopeOf g d)" and "kind = Management \<or> kind = Transfer"
  shows "gateWf (putScope d ((scopeOf g d)\<lparr>sc_tickets := sc_tickets (scopeOf g d) @ [length (gt_tickets g)]\<rparr>)
    (g\<lparr>gt_tickets := gt_tickets g @ [\<lparr>tk_scope = d, tk_kind = kind, tk_cancelled = False, tk_running = False, tk_finished = False\<rparr>]\<rparr>))"
  (is "gateWf ?g")
proof -
  let ?T = "gt_tickets g" and ?T' = "gt_tickets ?g" and ?n = "length (gt_tickets g)"
  note wf = assms(1) [unfolded gateWf_def]
  have len: "length ?T' = Suc ?n" by simp
  have nth: "?T' ! t = ?T ! t" if "t < ?n" for t using that by (simp add: nth_append)
  have new: "?T' ! ?n = \<lparr>tk_scope = d, tk_kind = kind, tk_cancelled = False, tk_running = False, tk_finished = False\<rparr>" by (simp add: nth_append)
  have ts: "set (sc_tickets (scopeOf ?g x)) = set (sc_tickets (scopeOf g x)) \<union> (if x = d then {?n} else {})" for x by simp
  have en: "sc_enabled (scopeOf ?g x) = sc_enabled (scopeOf g x)" for x by simp
  show ?thesis unfolding gateWf_def len en ts
  proof (intro conjI)
    show "\<forall>x. \<forall>t \<in> set (sc_tickets (scopeOf g x)) \<union> (if x = d then {?n} else {}). t < Suc ?n \<and> tk_scope (?T' ! t) = x \<and> \<not> tk_finished (?T' ! t)"
      using wf nth new by (auto simp: less_Suc_eq split: if_splits)
    show "\<forall>t < Suc ?n. tk_kind (?T' ! t) = Management \<or> tk_kind (?T' ! t) = Transfer"
      using wf nth new assms(3) by (auto simp: less_Suc_eq)
    show "\<forall>t < Suc ?n. \<not> tk_finished (?T' ! t) \<longrightarrow> t \<in> set (sc_tickets (scopeOf g (tk_scope (?T' ! t)))) \<union> (if tk_scope (?T' ! t) = d then {?n} else {})"
      using wf nth new by (auto simp: less_Suc_eq)
    show "\<forall>t < Suc ?n. \<not> tk_finished (?T' ! t) \<and> \<not> sc_enabled (scopeOf g (tk_scope (?T' ! t)))
        \<longrightarrow> tk_cancelled (?T' ! t) \<or> (tk_running (?T' ! t) \<and> tk_kind (?T' ! t) = Management)"
      using wf nth new assms(2) by (auto simp: less_Suc_eq)
  qed
qed

lemma gateWf_Queue:
  assumes "gateWf g"
  shows "gateWf (snd (Queue c d kind g))"
proof -
  have "gateWf (getScope d g)" using assms by simp
  then show ?thesis using assms gateWf_enqueue [of "getScope d g" d kind]
    by (auto simp: Queue_def Let_def split: option.splits)
qed

lemma gateWf_Start: "gateWf g \<Longrightarrow> t < length (gt_tickets g) \<Longrightarrow> gateWf (snd (StartTicket t g))"
  unfolding gateWf_def by (auto simp: StartTicket_def Let_def nth_list_update)

lemma gateWf_cancel: "gateWf g \<Longrightarrow> t < length (gt_tickets g) \<Longrightarrow> gateWf (cancelTicket t g)"
  unfolding gateWf_def by (auto simp: cancelTicket_def nth_list_update)

lemma gateWf_Finish:
  assumes "gateWf g" and t: "t < length (gt_tickets g)"
  shows "gateWf (Finish t g)"
proof (cases "tk_finished (gt_tickets g ! t)")
  case True
  with assms show ?thesis by (simp add: Finish_def Let_def)
next
  case False
  let ?T = "gt_tickets g" and ?g = "Finish t g" and ?T' = "gt_tickets (Finish t g)"
  note wf = assms(1) [unfolded gateWf_def]
  have len: "length ?T' = length ?T" using False by (simp add: Finish_def Let_def)
  have fin: "tk_finished (?T' ! t)" "tk_kind (?T' ! t) = tk_kind (?T ! t)" using False t by (simp_all add: Finish_def Let_def)
  have nth: "?T' ! u = ?T ! u" if "u \<noteq> t" for u using that False by (simp add: Finish_def Let_def)
  have ts: "set (sc_tickets (scopeOf ?g x)) = set (sc_tickets (scopeOf g x)) - {t}" for x
    using False wf by (auto simp: Finish_def Let_def)
  have en: "sc_enabled (scopeOf ?g x) = sc_enabled (scopeOf g x)" for x using False by (simp add: Finish_def Let_def)
  show ?thesis unfolding gateWf_def len en ts
  proof (intro conjI)
    show "\<forall>x. \<forall>u \<in> set (sc_tickets (scopeOf g x)) - {t}. u < length ?T \<and> tk_scope (?T' ! u) = x \<and> \<not> tk_finished (?T' ! u)"
      using wf nth by (metis Diff_iff singletonI)
    show "\<forall>u < length ?T. tk_kind (?T' ! u) = Management \<or> tk_kind (?T' ! u) = Transfer" using wf nth fin by metis
    show "\<forall>u < length ?T. \<not> tk_finished (?T' ! u) \<longrightarrow> u \<in> set (sc_tickets (scopeOf g (tk_scope (?T' ! u)))) - {t}"
      using wf nth fin by (metis Diff_iff singletonD)
    show "\<forall>u < length ?T. \<not> tk_finished (?T' ! u) \<and> \<not> sc_enabled (scopeOf g (tk_scope (?T' ! u)))
        \<longrightarrow> tk_cancelled (?T' ! u) \<or> (tk_running (?T' ! u) \<and> tk_kind (?T' ! u) = Management)"
      using wf nth fin by metis
  qed
qed

lemma gateWf_step: "gateStep g a g' \<Longrightarrow> gateWf g \<Longrightarrow> gateWf g'"
proof (induction rule: gateStep.induct)
  case (status g d)
  then show ?case by (simp add: gateStatus_def Let_def)
next
  case (wait g d c)
  then show ?case by (auto simp: WaitScopeQuiescent_def Let_def split: option.splits)
qed (simp_all add: gateWf_SetEnabled gateWf_Queue gateWf_Start gateWf_Finish gateWf_cancel)

lemma gateWf_run: "gateRun g as g' \<Longrightarrow> gateWf g \<Longrightarrow> gateWf g'"
  by (induction rule: gateRun.induct) (auto dest: gateWf_step)

lemma gateWf_new: "gateWf newGate"
  by (simp add: gateWf_def newGate_def scopeOf_def newScope_def)

subsection \<open>Deactivation\<close>

text \<open>Scopes only come alive by being enabled.\<close>

definition quietScope :: "string \<Rightarrow> Gate \<Rightarrow> bool" where
  "quietScope d g \<longleftrightarrow> gateWf g \<and> \<not> sc_enabled (scopeOf g d) \<and> \<not> runningIn g d"

definition busy :: "Gate \<Rightarrow> string \<Rightarrow> nat \<Rightarrow> bool" where
  "busy g d t \<longleftrightarrow> t < length (gt_tickets g) \<and> tk_scope (gt_tickets g ! t) = d \<and> \<not> tk_finished (gt_tickets g ! t) \<and> tk_running (gt_tickets g ! t)"

lemma busy_putScope [simp]: "busy (putScope x s g) = busy g" "busy (getScope x g) = busy g"
  by (simp_all add: busy_def fun_eq_iff)

lemma busy_update [simp]:
  "t < length (gt_tickets g) \<Longrightarrow> busy (g\<lparr>gt_tickets := (gt_tickets g)[t := k]\<rparr>) d u \<longleftrightarrow>
     (if u = t then tk_scope k = d \<and> \<not> tk_finished k \<and> tk_running k else busy g d u)"
  by (auto simp: busy_def)

lemma gateWf_tickets: "gateWf g \<Longrightarrow> t \<in> set (sc_tickets (scopeOf g d)) \<longleftrightarrow> t < length (gt_tickets g) \<and> tk_scope (gt_tickets g ! t) = d \<and> \<not> tk_finished (gt_tickets g ! t)"
  unfolding gateWf_def by metis

lemma runningIn_iff: "gateWf g \<Longrightarrow> runningIn g d \<longleftrightarrow> (\<exists>t. busy g d t)"
  by (simp add: runningIn_def list_ex_iff busy_def gateWf_tickets Bex_def conj_assoc)

lemma quietScope_step:
  assumes step: "gateStep g a g'" and q: "quietScope d g" and a: "a \<noteq> Enable d True"
  shows "quietScope d g'"
proof -
  have wf: "gateWf g" "gateWf g'" using q gateWf_step [OF step] by (auto simp: quietScope_def)
  have off: "\<not> sc_enabled (scopeOf g d)" and none: "\<not> busy g d t" for t using q runningIn_iff [OF wf(1)] by (auto simp: quietScope_def)
  have "\<not> sc_enabled (scopeOf g' d) \<and> (\<forall>t. \<not> busy g' d t)"
    using step
  proof cases
    case (enable x b)
    let ?g = "putScope x ((scopeOf g x)\<lparr>sc_enabled := b\<rparr>) g"
    note stop = fold_stopTicket [of "sc_tickets (scopeOf g x)" ?g, simplified]
    have "\<not> busy (fold stopTicket (sc_tickets (scopeOf g x)) ?g) d t" for t
      using stop none [of t] by (auto simp: busy_def stopped_def split: if_splits)
    moreover have "\<not> busy ?g d t" for t using none [of t] by (simp add: busy_def)
    ultimately show ?thesis using stop off none a enable by (auto simp: SetEnabled_def Let_def split: option.splits if_splits)
  next
    case (queue x c kind)
    show ?thesis using queue off none
      by (auto simp: Queue_def Let_def busy_def nth_append less_Suc_eq split: option.splits)
  next
    case (start t)
    show ?thesis using none off start by (auto simp: StartTicket_def Let_def)
  next
    case (finish t)
    show ?thesis using none off finish by (auto simp: Finish_def Let_def)
  next
    case (cancel t)
    show ?thesis using none off cancel none [of t] by (auto simp: cancelTicket_def) (auto simp: busy_def)
  next
    case (status x)
    show ?thesis using none off unfolding status by (simp add: gateStatus_def Let_def)
  next
    case (wait x c)
    show ?thesis using none off unfolding wait by (simp add: WaitScopeQuiescent_def Let_def split: option.splits)
  qed
  then show ?thesis using wf runningIn_iff [OF wf(2)] by (simp add: quietScope_def)
qed

lemma quietScope_run: "gateRun g as g' \<Longrightarrow> quietScope d g \<Longrightarrow> Enable d True \<notin> set as \<Longrightarrow> quietScope d g'"
  by (induction rule: gateRun.induct) (auto dest: quietScope_step)

text \<open>
  C34: Deactivation holds. In every state the gate can reach, an unfinished ticket of a disabled scope is cancelled, unless it is management work that
  was already running, and it can not be started; and from the moment a wait reports the scope quiescent, no work of it runs
  and none is accepted, through any sequence of calls, until the scope is enabled again.
\<close>

theorem deactivated_scope_stays_quiet:
  assumes run: "gateRun newGate as g"
  shows "(\<forall>t < length (gt_tickets g). \<not> sc_enabled (scopeOf g (tk_scope (gt_tickets g ! t))) \<and> \<not> tk_finished (gt_tickets g ! t) \<longrightarrow>
        (tk_cancelled (gt_tickets g ! t) \<or> (tk_running (gt_tickets g ! t) \<and> tk_kind (gt_tickets g ! t) = Management))
        \<and> \<not> is_ok (fst (StartTicket t g)))
    \<and> (\<forall>d bs g' c kind. fst (WaitScopeQuiescent None d g) = Quiet \<and> gateRun g bs g' \<and> Enable d True \<notin> set bs \<longrightarrow>
        \<not> runningIn g' d \<and> \<not> is_ok (fst (Queue c d kind g')))"
proof (intro conjI allI impI)
  note wf = gateWf_run [OF run gateWf_new]
  fix t
  assume "t < length (gt_tickets g)" "\<not> sc_enabled (scopeOf g (tk_scope (gt_tickets g ! t))) \<and> \<not> tk_finished (gt_tickets g ! t)"
  then show "tk_cancelled (gt_tickets g ! t) \<or> (tk_running (gt_tickets g ! t) \<and> tk_kind (gt_tickets g ! t) = Management)" "\<not> is_ok (fst (StartTicket t g))"
    using wf by (auto simp: gateWf_def StartTicket_def Let_def)
next
  note wf = gateWf_run [OF run gateWf_new]
  fix d bs g' c kind
  assume h: "fst (WaitScopeQuiescent None d g) = Quiet \<and> gateRun g bs g' \<and> Enable d True \<notin> set bs"
  then have "quietScope d g"
    using wf by (auto simp: WaitScopeQuiescent_def quietScope_def Let_def runningIn_def split: option.splits if_splits)
  then have q: "quietScope d g'" using quietScope_run h by blast
  then show "\<not> runningIn g' d" by (simp add: quietScope_def)
  show "\<not> is_ok (fst (Queue c d kind g'))" using q by (auto simp: quietScope_def Queue_def Let_def split: option.splits)
qed

definition exGate :: Gate where
  "exGate = snd (SetEnabled ''tank'' False (snd (Queue None ''tank'' Transfer (snd (SetEnabled ''tank'' True newGate)))))"

theorem deactivated_scope_stays_quiet_witness:
  "gt_tickets exGate = [\<lparr>tk_scope = ''tank'', tk_kind = Transfer, tk_cancelled = True, tk_running = False, tk_finished = False\<rparr>]
   \<and> \<not> is_ok (fst (StartTicket 0 exGate)) \<and> fst (WaitScopeQuiescent None ''tank'' exGate) = Quiet
   \<and> \<not> is_ok (fst (Queue None ''tank'' Management exGate))"
proof -
  have run: "gateRun newGate [Enable ''tank'' True, Queued ''tank'', Enable ''tank'' False] exGate"
    unfolding exGate_def by (rule gateRun.cons [OF gateStep.enable gateRun.cons [OF gateStep.queue gateRun.cons [OF gateStep.enable gateRun.nil]]])
  have ex: "gt_tickets exGate = [\<lparr>tk_scope = ''tank'', tk_kind = Transfer, tk_cancelled = True, tk_running = False, tk_finished = False\<rparr>]"
    "\<not> sc_enabled (scopeOf exGate ''tank'')" "fst (WaitScopeQuiescent None ''tank'' exGate) = Quiet" by code_simp+
  note both = deactivated_scope_stays_quiet [OF run]
  have "\<not> is_ok (fst (StartTicket 0 exGate))" using conjunct1 [OF both] ex by simp
  moreover have "\<not> is_ok (fst (Queue None ''tank'' Management exGate))" using conjunct2 [OF both] ex(3) gateRun.nil [of exGate] by fastforce
  ultimately show ?thesis using ex by simp
qed

end
