(* ===== verification/Spec2Isabelle.thy ===== *)
theory Spec2Isabelle
  imports Prune Policy_Resolve Transfer_Plan_Proofs Remote_Scope Worker_Pool Lifecycle_Clean_Proofs Lifecycle_Gate
begin

text \<open>
  \<^bold>\<open>boomerangz\<close>: a daemon that snapshots ZFS datasets on a retention grid and replicates them.
\<close>

end
